(* ===== verification/Prelude.thy ===== *)
theory Prelude
  imports Main "HOL-Library.Word"
begin

text \<open>
  Shared vocabulary of the development.

  \<^item> Rust's \<open>Result\<close> as a datatype, its \<open>?\<close> operator as \<open>and_then\<close>, and a
    \<open>for\<close> loop whose body may return early with an error as \<open>try_fold\<close>.
  \<^item> The fixed-width integers of the source as words, with the checked and
    saturating operations of Rust's standard library and their meaning on
    natural numbers.
  \<^item> \<open>BTreeMap\<close> and \<open>BTreeSet\<close> as strictly sorted association lists
    and lists, behind the interface \<open>ordered_map\<close>.
  \<^item> Lemmas on sorted and filtered lists used by several components.
\<close>

named_theorems result_elims \<open>when a fallible computation returns a value\<close>
named_theorems word_nat \<open>checked and saturating operations read as natural numbers\<close>

subsection \<open>Results\<close>

datatype ('a, 'e) result = Ok 'a | Err 'e

primrec and_then :: "('a, 'e) result \<Rightarrow> ('a \<Rightarrow> ('b, 'e) result) \<Rightarrow> ('b, 'e) result" where
  "and_then (Ok x) f = f x"
| "and_then (Err e) f = Err e"

primrec map_err :: "('e \<Rightarrow> 'g) \<Rightarrow> ('a, 'e) result \<Rightarrow> ('a, 'g) result" where
  "map_err f (Ok x) = Ok x"
| "map_err f (Err e) = Err (f e)"

primrec is_ok :: "('a, 'e) result \<Rightarrow> bool" where
  "is_ok (Ok x) = True"
| "is_ok (Err e) = False"

definition ok_or :: "'a option \<Rightarrow> 'e \<Rightarrow> ('a, 'e) result" where
  "ok_or x e = (case x of None \<Rightarrow> Err e | Some y \<Rightarrow> Ok y)"

definition ensure :: "bool \<Rightarrow> 'e \<Rightarrow> (unit, 'e) result" where
  "ensure c e = (if c then Ok () else Err e)"

primrec try_fold :: "('s \<Rightarrow> 'x \<Rightarrow> ('s, 'e) result) \<Rightarrow> 's \<Rightarrow> 'x list \<Rightarrow> ('s, 'e) result" where
  "try_fold f s [] = Ok s"
| "try_fold f s (x # xs) = and_then (f s x) (\<lambda>s'. try_fold f s' xs)"

lemma and_then_Ok [result_elims]:
  "and_then m f = Ok y \<longleftrightarrow> (\<exists>x. m = Ok x \<and> f x = Ok y)"
  by (cases m) auto

lemma and_then_Err:
  "and_then m f = Err e \<longleftrightarrow> m = Err e \<or> (\<exists>x. m = Ok x \<and> f x = Err e)"
  by (cases m) auto

lemma map_err_Ok [result_elims]: "map_err f m = Ok y \<longleftrightarrow> m = Ok y"
  by (cases m) auto

lemma ok_or_Ok [result_elims]: "ok_or x e = Ok y \<longleftrightarrow> x = Some y"
  by (cases x) (auto simp: ok_or_def)

lemma ok_or_simps [simp]: "ok_or (Some y) e = Ok y" "ok_or None e = Err e"
  by (simp_all add: ok_or_def)

lemma ok_or_Err: "ok_or x e = Err e' \<longleftrightarrow> x = None \<and> e' = e"
  by (cases x) (auto simp: ok_or_def)

lemma ensure_Ok [result_elims]: "ensure c e = Ok u \<longleftrightarrow> c"
  by (simp add: ensure_def)

lemma ensure_simps [simp]: "ensure True e = Ok ()" "ensure False e = Err e"
  by (simp_all add: ensure_def)

lemma ensure_Err: "ensure c e = Err e' \<longleftrightarrow> \<not> c \<and> e' = e"
  by (auto simp: ensure_def)

lemma is_ok_iff: "is_ok r \<longleftrightarrow> (\<exists>x. r = Ok x)"
  by (cases r) auto

lemma and_then_cong [fundef_cong]:
  assumes "m = m'" and "\<And>x. m' = Ok x \<Longrightarrow> f x = f' x"
  shows "and_then m f = and_then m' f'"
  using assms by (cases m') auto

lemma try_fold_append:
  "try_fold f s (xs @ ys) = and_then (try_fold f s xs) (\<lambda>s'. try_fold f s' ys)"
proof (induction xs arbitrary: s)
  case (Cons x xs)
  then show ?case by (cases "f s x") auto
qed simp

lemma try_fold_invariant:
  assumes "try_fold f s xs = Ok s'" and "I s"
    and "\<And>s x s'. I s \<Longrightarrow> x \<in> set xs \<Longrightarrow> f s x = Ok s' \<Longrightarrow> I s'"
  shows "I s'"
  using assms
proof (induction xs arbitrary: s)
  case (Cons x xs)
  from Cons.prems(1) obtain s1 where "f s x = Ok s1" and "try_fold f s1 xs = Ok s'"
    by (auto simp: result_elims)
  moreover from \<open>f s x = Ok s1\<close> have "I s1"
    using Cons.prems(3) [OF Cons.prems(2), of x s1] by simp
  moreover have "\<And>s y s'. I s \<Longrightarrow> y \<in> set xs \<Longrightarrow> f s y = Ok s' \<Longrightarrow> I s'"
    using Cons.prems(3) by (meson list.set_intros(2))
  ultimately show ?case using Cons.IH [of s1] by blast
qed simp

subsection \<open>Fixed-width integers\<close>

type_synonym u8 = "8 word"
type_synonym u32 = "32 word"
type_synonym u64 = "64 word"
type_synonym u128 = "128 word"

definition checked_add :: "'a::len word \<Rightarrow> 'a word \<Rightarrow> 'a word option" where
  "checked_add a b = (if unat a + unat b < 2 ^ LENGTH('a) then Some (a + b) else None)"

definition checked_sub :: "'a::len word \<Rightarrow> 'a word \<Rightarrow> 'a word option" where
  "checked_sub a b = (if b \<le> a then Some (a - b) else None)"

definition checked_mul :: "'a::len word \<Rightarrow> 'a word \<Rightarrow> 'a word option" where
  "checked_mul a b = (if unat a * unat b < 2 ^ LENGTH('a) then Some (a * b) else None)"

definition checked_div :: "'a::len word \<Rightarrow> 'a word \<Rightarrow> 'a word option" where
  "checked_div a b = (if b = 0 then None else Some (a div b))"

definition word_max :: "'a::len word" where
  "word_max = - 1"

definition saturating_add :: "'a::len word \<Rightarrow> 'a word \<Rightarrow> 'a word" where
  "saturating_add a b = (case checked_add a b of Some c \<Rightarrow> c | None \<Rightarrow> word_max)"

definition saturating_sub :: "'a::len word \<Rightarrow> 'a word \<Rightarrow> 'a word" where
  "saturating_sub a b = (case checked_sub a b of Some c \<Rightarrow> c | None \<Rightarrow> 0)"

definition saturating_mul :: "'a::len word \<Rightarrow> 'a word \<Rightarrow> 'a word" where
  "saturating_mul a b = (case checked_mul a b of Some c \<Rightarrow> c | None \<Rightarrow> word_max)"

lemma unat_word_max [word_nat]: "unat (word_max :: 'a::len word) = 2 ^ LENGTH('a) - 1"
  by (simp add: word_max_def unsigned_minus_1_eq_mask mask_eq_exp_minus_1)

lemma unat_lt: "unat (a :: 'a::len word) < 2 ^ LENGTH('a)"
  by (rule unsigned_less)

lemma unat_le_max: "unat (a :: 'a::len word) \<le> 2 ^ LENGTH('a) - 1"
  using unat_lt [of a] by linarith

lemma le_word_max [simp]: "(a :: 'a::len word) \<le> word_max"
  by (simp add: word_max_def)

lemma checked_add_Some [word_nat]:
  "checked_add a b = Some c \<longleftrightarrow> unat c = unat a + unat b" for a b c :: "'a::len word"
proof
  assume "checked_add a b = Some c"
  then show "unat c = unat a + unat b"
    by (auto simp: checked_add_def unat_word_ariths split: if_splits)
next
  assume eq: "unat c = unat a + unat b"
  have "unat c < 2 ^ LENGTH('a)" by (rule unat_lt)
  moreover from this eq have "a + b = c"
    by (simp add: word_unat_eq_iff unat_word_ariths)
  ultimately show "checked_add a b = Some c"
    using eq by (simp add: checked_add_def)
qed

lemma checked_add_None [word_nat]:
  "checked_add a b = None \<longleftrightarrow> 2 ^ LENGTH('a) \<le> unat a + unat b" for a b :: "'a::len word"
  by (simp add: checked_add_def)

lemma checked_sub_Some [word_nat]:
  "checked_sub a b = Some c \<longleftrightarrow> unat a = unat c + unat b" for a b c :: "'a::len word"
proof
  assume "checked_sub a b = Some c"
  then show "unat a = unat c + unat b"
    by (auto simp: checked_sub_def unat_sub word_le_nat_alt split: if_splits)
next
  assume eq: "unat a = unat c + unat b"
  then have "b \<le> a" by (simp add: word_le_nat_alt)
  then have "unat (a - b) = unat c" using eq by (simp add: unat_sub)
  with \<open>b \<le> a\<close> show "checked_sub a b = Some c"
    by (simp add: checked_sub_def word_unat_eq_iff)
qed

lemma checked_sub_None [word_nat]:
  "checked_sub a b = None \<longleftrightarrow> unat a < unat b" for a b :: "'a::len word"
  by (simp add: checked_sub_def word_le_nat_alt)

lemma checked_mul_Some [word_nat]:
  "checked_mul a b = Some c \<longleftrightarrow> unat c = unat a * unat b" for a b c :: "'a::len word"
proof
  assume "checked_mul a b = Some c"
  then show "unat c = unat a * unat b"
    by (auto simp: checked_mul_def unat_word_ariths split: if_splits)
next
  assume eq: "unat c = unat a * unat b"
  have "unat c < 2 ^ LENGTH('a)" by (rule unat_lt)
  moreover from this eq have "a * b = c"
    by (simp add: word_unat_eq_iff unat_word_ariths)
  ultimately show "checked_mul a b = Some c"
    using eq by (simp add: checked_mul_def)
qed

lemma checked_mul_None [word_nat]:
  "checked_mul a b = None \<longleftrightarrow> 2 ^ LENGTH('a) \<le> unat a * unat b" for a b :: "'a::len word"
  by (simp add: checked_mul_def)

lemma unat_saturating_add [word_nat]:
  "unat (saturating_add a b) = min (unat a + unat b) (2 ^ LENGTH('a) - 1)"
  for a b :: "'a::len word"
proof (cases "checked_add a b")
  case None
  moreover from this have "2 ^ LENGTH('a) \<le> unat a + unat b" by (simp add: word_nat)
  ultimately show ?thesis by (simp add: saturating_add_def unat_word_max)
next
  case (Some c)
  moreover from this have "unat c = unat a + unat b" by (simp add: word_nat)
  ultimately show ?thesis using unat_le_max [of c] by (simp add: saturating_add_def)
qed

lemma unat_saturating_sub [word_nat]:
  "unat (saturating_sub a b) = unat a - unat b" for a b :: "'a::len word"
  by (auto simp: saturating_sub_def word_nat split: option.splits)

lemma unat_saturating_mul [word_nat]:
  "unat (saturating_mul a b) = min (unat a * unat b) (2 ^ LENGTH('a) - 1)"
  for a b :: "'a::len word"
proof (cases "checked_mul a b")
  case None
  moreover from this have "2 ^ LENGTH('a) \<le> unat a * unat b" by (simp add: word_nat)
  ultimately show ?thesis by (simp add: saturating_mul_def unat_word_max)
next
  case (Some c)
  moreover from this have "unat c = unat a * unat b" by (simp add: word_nat)
  ultimately show ?thesis using unat_le_max [of c] by (simp add: saturating_mul_def)
qed

lemma le_saturating_add [simp]: "a \<le> saturating_add a b" for a b :: "'a::len word"
  using unat_le_max [of a] by (simp add: word_le_nat_alt word_nat)

subsection \<open>Ordered maps and sets\<close>

text \<open>
  A \<open>BTreeMap\<close> is an association list with strictly increasing keys, so that
  iterating over the list is iterating over the map in key order, and two maps
  with the same entries are equal. A \<open>BTreeSet\<close> is a strictly increasing list.
\<close>

type_synonym ('k, 'v) btree_map = "('k \<times> 'v) list"
type_synonym 'k btree_set = "'k list"

fun btm_insert :: "'k::linorder \<Rightarrow> 'v \<Rightarrow> ('k, 'v) btree_map \<Rightarrow> ('k, 'v) btree_map" where
  "btm_insert k v [] = [(k, v)]"
| "btm_insert k v ((k', v') # m) =
    (if k < k' then (k, v) # (k', v') # m
     else if k = k' then (k, v) # m
     else (k', v') # btm_insert k v m)"

definition btm_remove :: "'k::linorder \<Rightarrow> ('k, 'v) btree_map \<Rightarrow> ('k, 'v) btree_map" where
  "btm_remove k m = filter (\<lambda>e. fst e \<noteq> k) m"

abbreviation btm_get :: "('k, 'v) btree_map \<Rightarrow> 'k \<Rightarrow> 'v option" where
  "btm_get \<equiv> map_of"

abbreviation btm_keys :: "('k, 'v) btree_map \<Rightarrow> 'k list" where
  "btm_keys m \<equiv> map fst m"

definition btm_ok :: "('k::linorder, 'v) btree_map \<Rightarrow> bool" where
  "btm_ok m = sorted_wrt (<) (btm_keys m)"

definition btm_of_list :: "('k::linorder \<times> 'v) list \<Rightarrow> ('k, 'v) btree_map" where
  "btm_of_list xs = fold (\<lambda>(k, v) m. btm_insert k v m) xs []"

fun bts_insert :: "'k::linorder \<Rightarrow> 'k btree_set \<Rightarrow> 'k btree_set" where
  "bts_insert k [] = [k]"
| "bts_insert k (k' # s) =
    (if k < k' then k # k' # s else if k = k' then k' # s else k' # bts_insert k s)"

definition bts_ok :: "'k::linorder btree_set \<Rightarrow> bool" where
  "bts_ok s = sorted_wrt (<) s"

definition bts_remove :: "'k \<Rightarrow> 'k btree_set \<Rightarrow> 'k btree_set" where
  "bts_remove k s = filter (\<lambda>x. x \<noteq> k) s"

definition bts_of_list :: "'k::linorder list \<Rightarrow> 'k btree_set" where
  "bts_of_list xs = fold bts_insert xs []"

lemma set_keys_btm_insert [simp]: "fst ` set (btm_insert k v m) = insert k (fst ` set m)"
  by (induction k v m rule: btm_insert.induct) auto

lemma btm_insert_not_Nil [simp]: "btm_insert k v m \<noteq> []"
  by (induction k v m rule: btm_insert.induct) auto

lemma btm_ok_Nil [simp]: "btm_ok []"
  by (simp add: btm_ok_def)

lemma btm_ok_Cons: "btm_ok (e # m) \<longleftrightarrow> (\<forall>k \<in> fst ` set m. fst e < k) \<and> btm_ok m"
  by (auto simp: btm_ok_def)

lemma btm_ok_insert [intro, simp]: "btm_ok m \<Longrightarrow> btm_ok (btm_insert k v m)"
proof (induction k v m rule: btm_insert.induct)
  case (2 k v k' v' m)
  then show ?case
    by (cases k k' rule: linorder_cases) (auto simp: btm_ok_Cons dest: less_trans)
qed (simp add: btm_ok_Cons)

lemma btm_get_insert [simp]:
  "btm_ok m \<Longrightarrow> btm_get (btm_insert k v m) = (btm_get m)(k \<mapsto> v)"
proof (induction k v m rule: btm_insert.induct)
  case (2 k v k' v' m)
  then show ?case
    by (cases k k' rule: linorder_cases) (auto simp: btm_ok_Cons fun_eq_iff)
qed (simp add: fun_eq_iff)

lemma btm_ok_filter: "btm_ok m \<Longrightarrow> btm_ok (filter P m)"
  by (induction m) (auto simp: btm_ok_Cons)

lemma btm_ok_remove [intro, simp]: "btm_ok m \<Longrightarrow> btm_ok (btm_remove k m)"
  by (simp add: btm_remove_def btm_ok_filter)

lemma btm_get_remove [simp]: "btm_get (btm_remove k m) = (btm_get m)(k := None)"
  by (induction m) (auto simp: btm_remove_def fun_eq_iff)

lemma btm_get_iff_mem:
  "btm_ok m \<Longrightarrow> btm_get m k = Some v \<longleftrightarrow> (k, v) \<in> set m"
  by (intro map_of_eq_Some_iff) (simp add: btm_ok_def strict_sorted_iff)

lemma btm_ok_distinct: "btm_ok m \<Longrightarrow> distinct (btm_keys m)"
  by (simp add: btm_ok_def strict_sorted_iff)

lemma set_bts_insert [simp]: "set (bts_insert k s) = insert k (set s)"
  by (induction k s rule: bts_insert.induct) auto

lemma bts_ok_insert [intro, simp]: "bts_ok s \<Longrightarrow> bts_ok (bts_insert k s)"
proof (induction k s rule: bts_insert.induct)
  case (2 k k' s)
  then show ?case
    by (cases k k' rule: linorder_cases) (auto simp: bts_ok_def dest: less_trans)
qed (simp add: bts_ok_def)

lemma set_bts_remove [simp]: "set (bts_remove k s) = set s - {k}"
  by (auto simp: bts_remove_def)

lemma bts_ok_remove [intro, simp]: "bts_ok s \<Longrightarrow> bts_ok (bts_remove k s)"
  by (simp add: bts_remove_def bts_ok_def sorted_wrt_filter)

lemma set_bts_of_list [simp]: "set (bts_of_list xs) = set xs"
proof -
  have "set (fold bts_insert xs s) = set xs \<union> set s" for s
    by (induction xs arbitrary: s) auto
  then show ?thesis by (simp add: bts_of_list_def)
qed

lemma bts_ok_of_list [simp]: "bts_ok (bts_of_list xs)"
proof -
  have "bts_ok s \<Longrightarrow> bts_ok (fold bts_insert xs s)" for s
    by (induction xs arbitrary: s) auto
  then show ?thesis by (simp add: bts_of_list_def bts_ok_def)
qed

text \<open>The contract the components rely on when they keep a \<open>BTreeMap\<close>.\<close>

locale ordered_map =
  fixes empty :: 'm
    and get :: "'m \<Rightarrow> 'k \<Rightarrow> 'v option"
    and ins :: "'k \<Rightarrow> 'v \<Rightarrow> 'm \<Rightarrow> 'm"
    and del :: "'k \<Rightarrow> 'm \<Rightarrow> 'm"
    and ok :: "'m \<Rightarrow> bool"
  assumes ok_empty: "ok empty"
    and get_empty: "get empty k = None"
    and ok_ins: "ok m \<Longrightarrow> ok (ins k v m)"
    and get_ins: "ok m \<Longrightarrow> get (ins k v m) k' = (if k' = k then Some v else get m k')"
    and ok_del: "ok m \<Longrightarrow> ok (del k m)"
    and get_del: "ok m \<Longrightarrow> get (del k m) k' = (if k' = k then None else get m k')"
begin

definition upsert :: "'k \<Rightarrow> 'v option \<Rightarrow> 'm \<Rightarrow> 'm" where
  "upsert k v m = (case v of None \<Rightarrow> del k m | Some x \<Rightarrow> ins k x m)"

lemma ok_upsert: "ok m \<Longrightarrow> ok (upsert k v m)"
  by (simp add: upsert_def ok_ins ok_del split: option.split)

lemma get_upsert: "ok m \<Longrightarrow> get (upsert k v m) = (get m)(k := v)"
  by (auto simp: upsert_def get_ins get_del fun_eq_iff split: option.split)

lemma ok_fold_ins: "ok m \<Longrightarrow> ok (fold (\<lambda>(k, v). ins k v) xs m)"
  by (induction xs arbitrary: m) (auto simp: ok_ins)

lemma get_fold_ins:
  "ok m \<Longrightarrow> get (fold (\<lambda>(k, v). ins k v) xs m) k =
    (case map_of (rev xs) k of None \<Rightarrow> get m k | Some v \<Rightarrow> Some v)"
proof (induction xs arbitrary: m)
  case (Cons e xs)
  obtain a b where "e = (a, b)" by fastforce
  with Cons show ?case by (auto simp: ok_ins get_ins map_add_def split: option.splits)
qed simp

end

interpretation btm: ordered_map "[] :: ('k::linorder, 'v) btree_map" btm_get btm_insert btm_remove btm_ok
  by unfold_locales auto

lemma btm_ok_of_list [simp]: "btm_ok (btm_of_list xs)"
  using btm.ok_fold_ins [of "[]" xs] by (simp add: btm_of_list_def)

lemma btm_get_of_list: "btm_get (btm_of_list xs) k = map_of (rev xs) k"
  using btm.get_fold_ins [of "[]" xs k] by (simp add: btm_of_list_def split: option.splits)

end
