(* ===== verification/Base_Types.thy ===== *)
theory Base_Types
  imports Prelude
begin

text \<open>
  The numeric types of \<open>linera-base/src/data_types.rs\<close>: amounts, block heights,
  time deltas and timestamps (newtypes over unsigned integers, kept at their
  width), the consensus rounds with their derived order, the operations of the
  macro \<open>impl_wrapped_number!\<close>, and the textual form of amounts. Strings are lists
  of code points below 256.
\<close>

type_synonym amount = u128
type_synonym block_height = u64
type_synonym time_delta = u64
type_synonym timestamp = u64
type_synonym epoch = u32

datatype arithmetic_error = Overflow | Underflow

subsection \<open>Wrapped numbers\<close>

definition try_add :: "'a::len word \<Rightarrow> 'a word \<Rightarrow> ('a word, arithmetic_error) result" where
  "try_add a b = ok_or (checked_add a b) Overflow"

definition try_add_one :: "'a::len word \<Rightarrow> ('a word, arithmetic_error) result" where
  "try_add_one a = ok_or (checked_add a 1) Overflow"

definition try_sub :: "'a::len word \<Rightarrow> 'a word \<Rightarrow> ('a word, arithmetic_error) result" where
  "try_sub a b = ok_or (checked_sub a b) Underflow"

definition try_sub_one :: "'a::len word \<Rightarrow> ('a word, arithmetic_error) result" where
  "try_sub_one a = ok_or (checked_sub a 1) Underflow"

definition try_mul :: "'a::len word \<Rightarrow> 'a word \<Rightarrow> ('a word, arithmetic_error) result" where
  "try_mul a b = ok_or (checked_mul a b) Overflow"

text \<open>The in-place variants leave the receiver as it was when they fail.\<close>

definition try_add_assign :: "'a::len word \<Rightarrow> 'a word \<Rightarrow> 'a word \<times> (unit, arithmetic_error) result" where
  "try_add_assign a b =
    (case checked_add a b of Some c \<Rightarrow> (c, Ok ()) | None \<Rightarrow> (a, Err Overflow))"

definition try_add_assign_one :: "'a::len word \<Rightarrow> 'a word \<times> (unit, arithmetic_error) result" where
  "try_add_assign_one a =
    (case checked_add a 1 of Some c \<Rightarrow> (c, Ok ()) | None \<Rightarrow> (a, Err Overflow))"

definition try_sub_assign :: "'a::len word \<Rightarrow> 'a word \<Rightarrow> 'a word \<times> (unit, arithmetic_error) result" where
  "try_sub_assign a b =
    (case checked_sub a b of Some c \<Rightarrow> (c, Ok ()) | None \<Rightarrow> (a, Err Underflow))"

definition try_mul_assign :: "'a::len word \<Rightarrow> 'a word \<Rightarrow> 'a word \<times> (unit, arithmetic_error) result" where
  "try_mul_assign a b =
    (case checked_mul a b of Some c \<Rightarrow> (c, Ok ()) | None \<Rightarrow> (a, Err Overflow))"

lemma try_add_Ok [word_nat]: "try_add a b = Ok c \<longleftrightarrow> unat c = unat a + unat b"
  by (simp add: try_add_def result_elims word_nat)

lemma try_add_Err [word_nat]:
  "try_add a b = Err e \<longleftrightarrow> e = Overflow \<and> 2 ^ LENGTH('a) \<le> unat a + unat b"
  for a b :: "'a::len word"
  by (auto simp: try_add_def ok_or_Err word_nat)

lemma try_sub_Ok [word_nat]: "try_sub a b = Ok c \<longleftrightarrow> unat a = unat c + unat b"
  by (simp add: try_sub_def result_elims word_nat)

lemma try_sub_Err [word_nat]: "try_sub a b = Err e \<longleftrightarrow> e = Underflow \<and> unat a < unat b"
  by (auto simp: try_sub_def ok_or_Err word_nat)

lemma try_mul_Ok [word_nat]: "try_mul a b = Ok c \<longleftrightarrow> unat c = unat a * unat b"
  by (simp add: try_mul_def result_elims word_nat)

lemma try_add_one_Ok [word_nat]: "try_add_one a = Ok c \<longleftrightarrow> unat c = unat a + 1"
  by (simp add: try_add_one_def result_elims word_nat)

lemma try_sub_one_Ok [word_nat]: "try_sub_one a = Ok c \<longleftrightarrow> unat a = unat c + 1"
  by (simp add: try_sub_one_def result_elims word_nat)

lemma try_add_one_less: "try_add_one a = Ok c \<Longrightarrow> a < c"
  by (simp add: word_nat word_less_nat_alt)

subsection \<open>Block height ranges\<close>

datatype 'a bound = Included 'a | Excluded 'a | Unbounded

definition to_inclusive ::
  "block_height bound \<Rightarrow> block_height bound \<Rightarrow> (block_height \<times> block_height) option" where
  "to_inclusive start_bound end_bound =
    (case (case start_bound of
             Included h \<Rightarrow> Some h
           | Excluded h \<Rightarrow> checked_add h 1
           | Unbounded \<Rightarrow> Some 0) of
       None \<Rightarrow> None
     | Some start \<Rightarrow>
        (case (case end_bound of
                 Included h \<Rightarrow> Some h
               | Excluded h \<Rightarrow> checked_sub h 1
               | Unbounded \<Rightarrow> Some word_max) of
           None \<Rightarrow> None
         | Some end' \<Rightarrow> if end' < start then None else Some (start, end')))"

fun in_start :: "block_height \<Rightarrow> block_height bound \<Rightarrow> bool" where
  "in_start h (Included s) = (s \<le> h)"
| "in_start h (Excluded s) = (s < h)"
| "in_start h Unbounded = True"

fun in_end :: "block_height \<Rightarrow> block_height bound \<Rightarrow> bool" where
  "in_end h (Included e) = (h \<le> e)"
| "in_end h (Excluded e) = (h < e)"
| "in_end h Unbounded = True"

subsection \<open>Time\<close>

definition TimeDelta_from_millis :: "u64 \<Rightarrow> time_delta" where
  "TimeDelta_from_millis millis = saturating_mul millis 1000"

definition TimeDelta_from_secs :: "u64 \<Rightarrow> time_delta" where
  "TimeDelta_from_secs secs = saturating_mul secs 1000000"

text \<open>A \<open>std::time::Duration\<close> is a number of nanoseconds; \<open>as_micros\<close> truncates it.\<close>

definition TimeDelta_from_duration :: "nat \<Rightarrow> time_delta" where
  "TimeDelta_from_duration nanos =
    (let micros = nanos div 1000
     in if micros < 2 ^ 64 then of_nat micros else word_max)"

definition TimeDelta_as_duration :: "time_delta \<Rightarrow> nat" where
  "TimeDelta_as_duration d = unat d * 1000"

definition delta_since :: "timestamp \<Rightarrow> timestamp \<Rightarrow> time_delta" where
  "delta_since self other = saturating_sub self other"

definition duration_since :: "timestamp \<Rightarrow> timestamp \<Rightarrow> nat" where
  "duration_since self other = TimeDelta_as_duration (saturating_sub self other)"

definition Timestamp_saturating_add :: "timestamp \<Rightarrow> time_delta \<Rightarrow> timestamp" where
  "Timestamp_saturating_add self duration = saturating_add self duration"

definition Timestamp_saturating_sub :: "timestamp \<Rightarrow> time_delta \<Rightarrow> timestamp" where
  "Timestamp_saturating_sub self duration = saturating_sub self duration"

subsection \<open>Rounds\<close>

datatype round = Fast | MultiLeader u32 | SingleLeader u32 | Validator u32

text \<open>The order derived by \<open>Ord\<close>: the variants in declaration order, then the number.\<close>

fun round_rank :: "round \<Rightarrow> nat" where
  "round_rank Fast = 0"
| "round_rank (MultiLeader _) = 1"
| "round_rank (SingleLeader _) = 2"
| "round_rank (Validator _) = 3"

fun round_number :: "round \<Rightarrow> u32" where
  "round_number Fast = 0"
| "round_number (MultiLeader r) = r"
| "round_number (SingleLeader r) = r"
| "round_number (Validator r) = r"

lemma round_eq_iff:
  "(a :: round) = b \<longleftrightarrow> round_rank a = round_rank b \<and> round_number a = round_number b"
  by (cases a; cases b) auto

instantiation round :: linorder
begin

definition less_eq_round :: "round \<Rightarrow> round \<Rightarrow> bool" where
  "less_eq_round a b \<longleftrightarrow> round_rank a < round_rank b \<or>
     round_rank a = round_rank b \<and> round_number a \<le> round_number b"

definition less_round :: "round \<Rightarrow> round \<Rightarrow> bool" where
  "less_round a b \<longleftrightarrow> round_rank a < round_rank b \<or>
     round_rank a = round_rank b \<and> round_number a < round_number b"

instance
  by standard (auto simp: less_eq_round_def less_round_def round_eq_iff)

end

instantiation round :: order_bot
begin

definition bot_round :: round where
  "bot_round = Fast"

instance
  by standard (auto simp: bot_round_def less_eq_round_def elim!: round_rank.elims)

end

lemmas round_order_defs = less_eq_round_def less_round_def

lemma Fast_least [simp]: "Fast \<le> r"
  by (cases r) (simp_all add: round_order_defs)

lemma not_less_Fast [simp]: "\<not> r < Fast"
  by (cases r) (simp_all add: round_order_defs)

lemma Fast_less [simp]: "Fast < r \<longleftrightarrow> r \<noteq> Fast"
  by (cases r) (simp_all add: round_order_defs)

lemma le_Fast [simp]: "r \<le> Fast \<longleftrightarrow> r = Fast"
  by (cases r) (simp_all add: round_order_defs)

definition is_multi_leader :: "round \<Rightarrow> bool" where
  "is_multi_leader r = (case r of MultiLeader _ \<Rightarrow> True | _ \<Rightarrow> False)"

definition multi_leader :: "round \<Rightarrow> u32 option" where
  "multi_leader r = (case r of MultiLeader n \<Rightarrow> Some n | _ \<Rightarrow> None)"

definition is_fast :: "round \<Rightarrow> bool" where
  "is_fast r = (case r of Fast \<Rightarrow> True | _ \<Rightarrow> False)"

definition type_name :: "round \<Rightarrow> string" where
  "type_name r = (case r of Fast \<Rightarrow> ''fast'' | MultiLeader _ \<Rightarrow> ''multi''
     | SingleLeader _ \<Rightarrow> ''single'' | Validator _ \<Rightarrow> ''validator'')"

lemma is_fast_iff [simp]: "is_fast r \<longleftrightarrow> r = Fast"
  by (cases r) (simp_all add: is_fast_def)

subsection \<open>Amounts\<close>

definition DECIMAL_PLACES :: u8 where
  "DECIMAL_PLACES = 18"

definition Amount_ONE :: amount where
  "Amount_ONE = 10 ^ unat DECIMAL_PLACES"

definition Amount_from_tokens :: "u128 \<Rightarrow> amount" where
  "Amount_from_tokens tokens = saturating_mul Amount_ONE tokens"

definition Amount_from_millis :: "u128 \<Rightarrow> amount" where
  "Amount_from_millis n = saturating_mul (10 ^ (unat DECIMAL_PLACES - 3)) n"

definition Amount_from_micros :: "u128 \<Rightarrow> amount" where
  "Amount_from_micros n = saturating_mul (10 ^ (unat DECIMAL_PLACES - 6)) n"

definition Amount_from_nanos :: "u128 \<Rightarrow> amount" where
  "Amount_from_nanos n = saturating_mul (10 ^ (unat DECIMAL_PLACES - 9)) n"

definition upper_half :: "amount \<Rightarrow> u64" where
  "upper_half a = ucast (drop_bit 64 a)"

definition lower_half :: "amount \<Rightarrow> u64" where
  "lower_half a = ucast a"

definition Amount_saturating_div :: "amount \<Rightarrow> amount \<Rightarrow> u128" where
  "Amount_saturating_div a b = (case checked_div a b of Some c \<Rightarrow> c | None \<Rightarrow> word_max)"

definition Amount_sum :: "amount list \<Rightarrow> amount" where
  "Amount_sum xs = foldl saturating_add 0 xs"

end
