(* ===== verification/Amount_Text.thy ===== *)
theory Amount_Text
  imports Base_Types
begin

text \<open>
  The textual form of amounts: \<open>Display\<close> and \<open>FromStr\<close> of \<open>Amount\<close> in
  \<open>linera-base/src/data_types.rs\<close>, with the formatter options the code reads, and
  the round trip between the two.
\<close>

subsection \<open>Printing\<close>

datatype alignment = AlignLeft | AlignRight | AlignCenter

record formatter =
  precision :: "nat option"
  sign_plus :: bool
  width :: "nat option"
  align :: "alignment option"
  fill :: char

definition default_formatter :: formatter where
  "default_formatter = \<lparr> precision = None, sign_plus = False, width = None, align = None, fill = CHR '' '' \<rparr>"

definition digit_char :: "nat \<Rightarrow> char" where
  "digit_char d = char_of (48 + d)"

fun decimal :: "nat \<Rightarrow> string" where
  "decimal n = (if n < 10 then [digit_char n] else decimal (n div 10) @ [digit_char (n mod 10)])"

declare decimal.simps [simp del]

definition trim_end_matches :: "char \<Rightarrow> string \<Rightarrow> string" where
  "trim_end_matches c s = rev (dropWhile (\<lambda>x. x = c) (rev s))"

definition zero_padded :: "nat \<Rightarrow> nat \<Rightarrow> string" where
  "zero_padded min_digits n =
    (let s = decimal n in replicate (min_digits - length s) (CHR ''0'') @ s)"

definition amount_fmt :: "formatter \<Rightarrow> amount \<Rightarrow> string" where
  "amount_fmt f a =
    (let places = unat DECIMAL_PLACES;
         min_digits = places + 1;
         decimals = zero_padded min_digits (unat a);
         integer_part = take (length decimals - places) decimals;
         fractional_part = trim_end_matches (CHR ''0'') (drop (length decimals - places) decimals);
         prec = max (case precision f of Some p \<Rightarrow> p | None \<Rightarrow> 0) (length fractional_part);
         sign = (if sign_plus f \<and> 0 < a then ''+'' else '''');
         pad_width = (case width f of
             None \<Rightarrow> 0
           | Some w \<Rightarrow> (w - prec) - (length sign + length integer_part + 1));
         left_pad = (case align f of
             None \<Rightarrow> pad_width
           | Some AlignRight \<Rightarrow> pad_width
           | Some AlignCenter \<Rightarrow> pad_width div 2
           | Some AlignLeft \<Rightarrow> 0)
     in replicate left_pad (fill f) @
        sign @ integer_part @ ''.'' @
        fractional_part @ replicate (prec - length fractional_part) (CHR ''0'') @
        replicate (pad_width - left_pad) (fill f))"

subsection \<open>Parsing\<close>

datatype parse_amount_error = ParseError | TooHigh | TooManyDigits

definition is_whitespace :: "char \<Rightarrow> bool" where
  "is_whitespace c = (let n = of_char c :: nat in 9 \<le> n \<and> n \<le> 13 \<or> n = 32 \<or> n = 133 \<or> n = 160)"

definition trim :: "string \<Rightarrow> string" where
  "trim s = rev (dropWhile is_whitespace (rev (dropWhile is_whitespace s)))"

definition to_digit :: "char \<Rightarrow> nat option" where
  "to_digit c = (let n = of_char c :: nat in if 48 \<le> n \<and> n \<le> 57 then Some (n - 48) else None)"

definition amount_step ::
  "u128 \<times> u8 option \<Rightarrow> char \<Rightarrow> (u128 \<times> u8 option, parse_amount_error) result" where
  "amount_step st c =
    (case st of (r, decimals) \<Rightarrow>
      if c = CHR ''_'' then Ok (r, decimals)
      else if c = CHR ''.'' then
        (if decimals \<noteq> None then Err ParseError else Ok (r, Some DECIMAL_PLACES))
      else
        and_then (ok_or (to_digit c) ParseError) (\<lambda>digit.
        and_then (case decimals of
                    None \<Rightarrow> Ok None
                  | Some d \<Rightarrow> and_then (ok_or (checked_sub d 1) TooManyDigits) (\<lambda>d'. Ok (Some d')))
          (\<lambda>decimals'.
        and_then (ok_or (Option.bind (checked_mul r 10) (\<lambda>r. checked_add r (of_nat digit))) TooHigh)
          (\<lambda>r'. Ok (r', decimals')))))"

definition strip_plus :: "string \<Rightarrow> string" where
  "strip_plus cs = (case cs of c # cs' \<Rightarrow> if c = CHR ''+'' then cs' else cs | [] \<Rightarrow> cs)"

definition amount_from_str :: "string \<Rightarrow> (amount, parse_amount_error) result" where
  "amount_from_str src =
    and_then (try_fold amount_step (0, None) (strip_plus (trim src))) (\<lambda>(r, decimals).
      ok_or (checked_mul r (10 ^ unat (case decimals of Some d \<Rightarrow> d | None \<Rightarrow> DECIMAL_PLACES))) TooHigh)"

subsection \<open>The value of a digit string\<close>

definition is_digit :: "char \<Rightarrow> bool" where
  "is_digit c \<longleftrightarrow> to_digit c \<noteq> None"

definition digits_value :: "string \<Rightarrow> nat" where
  "digits_value s = foldl (\<lambda>v c. 10 * v + (the (to_digit c))) 0 s"

lemma digits_value_snoc: "digits_value (s @ [c]) = 10 * digits_value s + the (to_digit c)"
  by (simp add: digits_value_def)

lemma digits_value_append:
  "digits_value (s @ t) = digits_value s * 10 ^ length t + digits_value t"
  by (induction t rule: rev_induct)
    (simp_all add: digits_value_snoc flip: append_assoc, simp add: digits_value_def)

lemma to_digit_digit_char [simp]: "d < 10 \<Longrightarrow> to_digit (digit_char d) = Some d"
  by (simp add: to_digit_def digit_char_def)

lemma digits_value_Nil [simp]: "digits_value [] = 0"
  by (simp add: digits_value_def)

lemma digits_value_single [simp]: "digits_value [c] = the (to_digit c)"
  by (simp add: digits_value_def)

lemma to_digit_zero [simp]: "to_digit (CHR ''0'') = Some 0"
  by (simp add: to_digit_def)

lemma digits_value_zeros [simp]: "digits_value (replicate n (CHR ''0'')) = 0"
  by (induction n) (use digits_value_append [of "[CHR ''0'']"] in simp_all)

lemma digits_value_decimal: "digits_value (decimal n) = n"
proof (induction n rule: decimal.induct)
  case (1 n)
  then show ?case
    by (subst decimal.simps) (simp add: digits_value_append)
qed

lemma decimal_digits: "c \<in> set (decimal n) \<Longrightarrow> is_digit c"
proof (induction n rule: decimal.induct)
  case (1 n)
  from 1(2) show ?case
    by (subst (asm) decimal.simps) (auto simp: 1(1) split: if_splits, auto simp: is_digit_def)
qed

lemma is_digit_zero [simp]: "is_digit (CHR ''0'')"
  by (simp add: is_digit_def)

lemma zero_padded_value: "digits_value (zero_padded m n) = n"
  by (simp add: zero_padded_def Let_def digits_value_append digits_value_decimal)

lemma zero_padded_digits: "c \<in> set (zero_padded m n) \<Longrightarrow> is_digit c"
  using decimal_digits [of c n] by (auto simp: zero_padded_def Let_def)

lemma zero_padded_length: "m \<le> length (zero_padded m n)"
  by (simp add: zero_padded_def Let_def)

lemma trim_end_matches_decomp:
  "trim_end_matches c s @ replicate (length s - length (trim_end_matches c s)) c = s"
proof -
  let ?t = "takeWhile (\<lambda>x. x = c) (rev s)" and ?d = "dropWhile (\<lambda>x. x = c) (rev s)"
  have split: "?t @ ?d = rev s" by simp
  have "length ?t + length ?d = length s"
    using arg_cong [OF split, of length] by (simp only: length_append length_rev)
  then have len: "length s - length ?d = length ?t" by linarith
  have "?t = replicate (length ?t) c"
    by (rule replicate_eqI) (auto dest: set_takeWhileD)
  from arg_cong [OF this, of rev] have rep: "rev ?t = replicate (length ?t) c"
    by (simp only: rev_replicate)
  have "rev ?d @ rev ?t = s"
    using arg_cong [OF split, of rev] by (simp only: rev_append rev_rev_ident)
  then show ?thesis
    unfolding trim_end_matches_def length_rev len rep .
qed

subsection \<open>Parsing a digit string\<close>

lemma digits_value_Cons:
  "digits_value (c # s) = the (to_digit c) * 10 ^ length s + digits_value s"
  using digits_value_append [of "[c]" s] by simp

lemma to_digit_less: "to_digit c = Some d \<Longrightarrow> d < 10"
  by (auto simp: to_digit_def Let_def split: if_splits)

lemma amount_step_digit:
  assumes "to_digit c = Some d"
    and "unat r * 10 + d < 2 ^ 128"
    and "\<And>n. D = Some n \<Longrightarrow> 0 < unat n"
  shows "\<exists>r'. unat r' = unat r * 10 + d \<and>
    amount_step (r, D) c = Ok (r', map_option (\<lambda>n. n - 1) D)"
proof -
  have neq: "c \<noteq> CHR ''_''" "c \<noteq> CHR ''.''" using assms(1) by (auto simp: to_digit_def)
  have "d < 10" using assms(1) by (rule to_digit_less)
  then have d: "unat (of_nat d :: u128) = d" by (simp add: unat_of_nat take_bit_nat_eq_self)
  obtain m where m: "checked_mul r 10 = Some m"
    using assms(2) by (cases "checked_mul r 10") (auto simp: checked_mul_None)
  then have m': "unat m = unat r * 10" by (simp add: checked_mul_Some)
  obtain r' where r': "checked_add m (of_nat d) = Some r'"
    using assms(2) d m' by (cases "checked_add m (of_nat d)") (auto simp: checked_add_None)
  then have "unat r' = unat r * 10 + d" by (simp add: checked_add_Some m' d)
  moreover have "checked_sub n 1 = Some (n - 1)" if "D = Some n" for n
    using assms(3) [OF that] by (simp add: checked_sub_def word_le_nat_alt)
  ultimately show ?thesis
    using neq m r' assms(1) by (cases D) (simp_all add: amount_step_def)
qed

lemma parse_digits:
  assumes "\<forall>c \<in> set s. is_digit c"
    and "unat r * 10 ^ length s + digits_value s < 2 ^ 128"
    and "\<And>n. D = Some n \<Longrightarrow> length s \<le> unat n"
  shows "\<exists>r'. unat r' = unat r * 10 ^ length s + digits_value s \<and>
    try_fold amount_step (r, D) s = Ok (r', map_option (\<lambda>n. n - of_nat (length s)) D)"
  using assms
proof (induction s arbitrary: r D)
  case Nil
  then show ?case by (cases D) simp_all
next
  case (Cons c s)
  from Cons.prems(1) obtain d where d: "to_digit c = Some d" by (auto simp: is_digit_def)
  have le: "(unat r * 10 + d) * 10 ^ length s + digits_value s < 2 ^ 128"
    using Cons.prems(2) d by (simp add: digits_value_Cons algebra_simps)
  then have "unat r * 10 + d < 2 ^ 128"
    by (rule le_less_trans [rotated]) (simp add: trans_le_add1)
  moreover have "\<And>n. D = Some n \<Longrightarrow> 0 < unat n" using Cons.prems(3) by fastforce
  ultimately obtain r1 where r1: "unat r1 = unat r * 10 + d"
    "amount_step (r, D) c = Ok (r1, map_option (\<lambda>n. n - 1) D)"
    using amount_step_digit [OF d, of r D] by blast
  have "length s \<le> unat n" if "map_option (\<lambda>n. n - 1) D = Some n" for n
  proof -
    from that obtain k where k: "D = Some k" "n = k - 1" by auto
    then have "Suc (length s) \<le> unat k" using Cons.prems(3) by simp
    then show ?thesis using k(2) by (cases "k = 0") (simp_all add: unat_minus_one)
  qed
  then obtain r2 where r2: "unat r2 = unat r1 * 10 ^ length s + digits_value s"
    "try_fold amount_step (r1, map_option (\<lambda>n. n - 1) D) s =
      Ok (r2, map_option (\<lambda>n. n - of_nat (length s)) (map_option (\<lambda>n. n - 1) D))"
    using Cons.IH [of r1 "map_option (\<lambda>n. n - 1) D"] Cons.prems(1) le r1(1) by auto
  have "unat r2 = unat r * 10 ^ length (c # s) + digits_value (c # s)"
    using r2(1) r1(1) d by (simp add: digits_value_Cons algebra_simps)
  moreover have "try_fold amount_step (r, D) (c # s) = Ok (r2, map_option (\<lambda>n. n - of_nat (length (c # s))) D)"
    using r1(2) r2(2) by (cases D) (simp_all add: algebra_simps)
  ultimately show ?case by blast
qed

lemma amount_step_point: "amount_step (r, None) (CHR ''.'') = Ok (r, Some DECIMAL_PLACES)"
  by (simp add: amount_step_def)

text \<open>A printed number: digits, a point, and at most eighteen digits after it.\<close>

lemma parse_fixed_point:
  assumes "\<forall>c \<in> set ip. is_digit c" and "\<forall>c \<in> set fp. is_digit c" and "length fp \<le> 18"
    and "unat a = (digits_value ip * 10 ^ length fp + digits_value fp) * 10 ^ (18 - length fp)"
  shows "and_then (try_fold amount_step (0, None) (ip @ ''.'' @ fp)) (\<lambda>(r, decimals).
        ok_or (checked_mul r (10 ^ unat (case decimals of Some d \<Rightarrow> d | None \<Rightarrow> DECIMAL_PLACES))) TooHigh)
    = Ok (a :: amount)"
proof -
  let ?v = "digits_value ip * 10 ^ length fp + digits_value fp"
  have "?v \<le> unat a" using assms(4) by simp
  then have v: "?v < 2 ^ 128" using unat_lt [of a] by simp
  then have "digits_value ip < 2 ^ 128" by (rule le_less_trans [rotated]) (simp add: trans_le_add1)
  then obtain r1 where r1: "unat r1 = digits_value ip" "try_fold amount_step (0, None) ip = Ok (r1, None)"
    using parse_digits [of ip 0 None] assms(1) by auto
  have places: "unat DECIMAL_PLACES = 18" by (simp add: DECIMAL_PLACES_def)
  obtain r2 where r2: "unat r2 = ?v"
    "try_fold amount_step (r1, Some DECIMAL_PLACES) fp = Ok (r2, Some (DECIMAL_PLACES - of_nat (length fp)))"
    using parse_digits [of fp r1 "Some DECIMAL_PLACES"] assms(2,3) r1(1) v places by auto
  have "unat (of_nat (length fp) :: u8) = length fp"
    using assms(3) by (simp add: unat_of_nat take_bit_nat_eq_self)
  then have "unat (DECIMAL_PLACES - of_nat (length fp)) = 18 - length fp"
    using assms(3) places by (simp add: unat_sub word_le_nat_alt)
  moreover have "unat (10 ^ (18 - length fp) :: u128) = 10 ^ (18 - length fp)"
  proof -
    have "10 ^ (18 - length fp) \<le> (10 :: nat) ^ 18" by (intro power_increasing) auto
    then have "(10 :: nat) ^ (18 - length fp) < 2 ^ 128" by (rule le_less_trans) simp
    then have "unat (of_nat (10 ^ (18 - length fp)) :: u128) = 10 ^ (18 - length fp)"
      by (simp only: unat_of_nat take_bit_nat_eq_self len_of_numeral_defs) (simp add: take_bit_nat_eq_self)
    then show ?thesis by simp
  qed
  ultimately have "checked_mul r2 (10 ^ unat (DECIMAL_PLACES - of_nat (length fp))) = Some a"
    using r2(1) assms(4) by (simp add: checked_mul_Some)
  then show ?thesis
    using r1(2) r2(2) by (simp add: try_fold_append amount_step_point)
qed

subsection \<open>Printing, then parsing\<close>

lemma dropWhile_replicate: "P c \<Longrightarrow> dropWhile P (replicate n c @ s) = dropWhile P s"
  by (induction n) simp_all

lemma trim_pad:
  assumes "is_whitespace c" and "s \<noteq> []" and "\<not> is_whitespace (hd s)" and "\<not> is_whitespace (last s)"
  shows "trim (replicate n c @ s @ replicate m c) = s"
proof -
  have "dropWhile is_whitespace (s @ t) = s @ t" for t
    using assms(2,3) by (cases s) simp_all
  moreover have "dropWhile is_whitespace (rev s) = rev s"
    using assms(2,4) by (cases s rule: rev_cases) simp_all
  ultimately show ?thesis using assms(1) by (simp add: trim_def dropWhile_replicate)
qed

lemma is_digit_not_special:
  assumes "is_digit c"
  shows "\<not> is_whitespace c" "c \<noteq> CHR ''+''"
  using assms by (auto simp: is_digit_def to_digit_def is_whitespace_def Let_def split: if_splits)

lemma fractional_padding:
  assumes "length ds = 18" and "fp = trim_end_matches (CHR ''0'') ds"
    and "length fp \<le> q" and "q \<le> 18"
  shows "digits_value (fp @ replicate (q - length fp) (CHR ''0'')) * 10 ^ (18 - q) = digits_value ds"
proof -
  have "fp @ replicate (18 - length fp) (CHR ''0'') = ds"
    using trim_end_matches_decomp [of "CHR ''0''" ds] assms(1,2) by simp
  moreover have "replicate (18 - length fp) (CHR ''0'') =
      replicate (q - length fp) (CHR ''0'') @ replicate (18 - q) (CHR ''0'')"
    using assms(3,4) by (simp flip: replicate_add)
  ultimately have "ds = (fp @ replicate (q - length fp) (CHR ''0'')) @ replicate (18 - q) (CHR ''0'')"
    by simp
  then show ?thesis by (simp add: digits_value_append power_add)
qed

lemma parse_printed:
  assumes "is_whitespace c" and "ip \<noteq> []" and "\<forall>x \<in> set ip. is_digit x"
    and "\<forall>x \<in> set fp. is_digit x" and "length fp \<le> 18" and "sign = [] \<or> sign = ''+''"
    and "unat a = (digits_value ip * 10 ^ length fp + digits_value fp) * 10 ^ (18 - length fp)"
  shows "amount_from_str (replicate n c @ sign @ ip @ ''.'' @ fp @ replicate m c) = Ok a"
proof -
  let ?s = "sign @ ip @ ''.'' @ fp"
  have ip: "is_digit (hd ip)" using assms(2,3) by simp
  have "\<not> is_whitespace (hd ?s)"
    using assms(2,6) is_digit_not_special(1) [OF ip] by (auto simp: is_whitespace_def)
  moreover have "\<not> is_whitespace (last ?s)"
  proof (cases "fp = []")
    case False
    then show ?thesis using assms(4) is_digit_not_special(1) [of "last fp"] by simp
  qed (simp add: is_whitespace_def)
  ultimately have "trim (replicate n c @ ?s @ replicate m c) = ?s"
    by (intro trim_pad) (use assms(1) in auto)
  moreover have "strip_plus ?s = ip @ ''.'' @ fp"
    using assms(2,6) is_digit_not_special(2) [OF ip] by (cases ip) (auto simp: strip_plus_def)
  ultimately show ?thesis
    using parse_fixed_point [OF assms(3,4,5,7)] by (simp add: amount_from_str_def)
qed

text \<open>
  \<^bold>\<open>C27\<close>. Parsing what was printed gives the amount back, for every amount and every
  formatter that pads with white space and asks for at most eighteen decimals.
\<close>

theorem amount_print_parse:
  assumes "is_whitespace (fill f)" and "\<And>p. precision f = Some p \<Longrightarrow> p \<le> 18"
  shows "amount_from_str (amount_fmt f a) = Ok a"
proof -
  let ?ds = "zero_padded 19 (unat a)"
  define ip where "ip = take (length ?ds - 18) ?ds"
  define fs where "fs = drop (length ?ds - 18) ?ds"
  define fp where "fp = trim_end_matches (CHR ''0'') fs"
  define q where "q = max (case precision f of Some p \<Rightarrow> p | None \<Rightarrow> 0) (length fp)"
  define fp' where "fp' = fp @ replicate (q - length fp) (CHR ''0'')"
  have len: "19 \<le> length ?ds" by (rule zero_padded_length)
  have split: "?ds = ip @ fs" by (simp add: ip_def fs_def)
  have fs: "length fs = 18" using len by (simp add: fs_def)
  have fp: "fp @ replicate (18 - length fp) (CHR ''0'') = fs" "length fp \<le> 18"
    using trim_end_matches_decomp [of "CHR ''0''" fs] length_dropWhile_le [of _ "rev fs"] fs
    by (simp_all add: fp_def trim_end_matches_def)
  then have q: "length fp \<le> q" "q \<le> 18" "length fp' = q"
    using assms(2) by (auto simp: q_def fp'_def split: option.splits)
  have dig: "\<forall>x \<in> set ip. is_digit x" "\<forall>x \<in> set fp'. is_digit x"
    using zero_padded_digits [of _ 19 "unat a"] fp(1) by (auto simp: split fp'_def)
  have "unat a = digits_value ip * 10 ^ 18 + digits_value fs"
    using zero_padded_value [of 19 "unat a"] by (simp add: split digits_value_append fs)
  also have "\<dots> = (digits_value ip * 10 ^ length fp' + digits_value fp') * 10 ^ (18 - length fp')"
    using fractional_padding [OF fs fp_def q(1,2)] q
    by (simp add: fp'_def algebra_simps flip: power_add)
  finally have val: "unat a = \<dots>" .
  have "ip \<noteq> []" using len by (auto simp: ip_def)
  then show ?thesis
    using parse_printed [OF assms(1) _ dig _ _ val] q
    unfolding amount_fmt_def Let_def DECIMAL_PLACES_def
    by (simp add: fp'_def q_def fp_def ip_def fs_def)
qed

theorem amount_print_parse_witness:
  "amount_from_str (amount_fmt \<lparr> precision = Some 2, sign_plus = True, width = Some 12, align = Some AlignCenter,
      fill = CHR '' '' \<rparr> 12300000000000000000) = Ok 12300000000000000000"
  by (rule amount_print_parse) (simp_all add: is_whitespace_def)

end
