(* ===== verification/Identifiers.thy ===== *)
theory Identifiers
  imports Base_Types "HOL-Library.Product_Lexorder" "HOL-Library.List_Lexorder"
begin

text \<open>
  The identifiers of \<open>linera-base/src/identifiers.rs\<close> and the small structures of
  \<open>linera-base/src/data_types.rs\<close> built from them. Hashes are 256-bit words; how they
  are computed is outside this development. The orders are the ones the source
  derives, since the identifiers are keys of ordered maps.
\<close>

type_synonym crypto_hash = "256 word"
type_synonym chain_id = crypto_hash
type_synonym application_id = crypto_hash
type_synonym bytes = "u8 list"

subsection \<open>Account owners\<close>

datatype account_owner = Reserved u8 | Address32 crypto_hash | Address20 "160 word"

fun account_owner_key :: "account_owner \<Rightarrow> nat \<times> nat" where
  "account_owner_key (Reserved b) = (0, unat b)"
| "account_owner_key (Address32 h) = (1, unat h)"
| "account_owner_key (Address20 a) = (2, unat a)"

lemma account_owner_key_inj: "account_owner_key a = account_owner_key b \<longleftrightarrow> a = b"
  by (cases a; cases b) (auto simp: word_unat_eq_iff)

instantiation account_owner :: linorder
begin

definition less_eq_account_owner :: "account_owner \<Rightarrow> account_owner \<Rightarrow> bool" where
  "less_eq_account_owner a b \<longleftrightarrow> account_owner_key a \<le> account_owner_key b"

definition less_account_owner :: "account_owner \<Rightarrow> account_owner \<Rightarrow> bool" where
  "less_account_owner a b \<longleftrightarrow> account_owner_key a < account_owner_key b"

instance
proof
  fix a b c :: account_owner
  show "a < b \<longleftrightarrow> a \<le> b \<and> \<not> b \<le> a"
    by (simp only: less_eq_account_owner_def less_account_owner_def less_le_not_le)
  show "a \<le> a" by (simp add: less_eq_account_owner_def)
  show "a \<le> b \<Longrightarrow> b \<le> c \<Longrightarrow> a \<le> c"
    unfolding less_eq_account_owner_def by (rule order_trans)
  show "a \<le> b \<Longrightarrow> b \<le> a \<Longrightarrow> a = b"
    unfolding less_eq_account_owner_def account_owner_key_inj [symmetric] by (rule antisym)
  show "a \<le> b \<or> b \<le> a"
    unfolding less_eq_account_owner_def by (rule linear)
qed

end

definition CHAIN :: account_owner where
  "CHAIN = Reserved 0"

definition is_chain :: "account_owner \<Rightarrow> bool" where
  "is_chain owner \<longleftrightarrow> owner = CHAIN"

definition owner_size :: "account_owner \<Rightarrow> u32" where
  "owner_size owner = (case owner of Reserved _ \<Rightarrow> 1 | Address32 _ \<Rightarrow> 32 | Address20 _ \<Rightarrow> 20)"

datatype account = Account (account_chain_id: chain_id) (account_owner: account_owner)

definition Account_chain :: "chain_id \<Rightarrow> account" where
  "Account_chain c = Account c CHAIN"

subsection \<open>Blobs\<close>

datatype blob_type = Data | ContractBytecode | ServiceBytecode | EvmBytecode
  | ApplicationDescriptionBlob | CommitteeBlob | ChainDescriptionBlob

fun blob_type_rank :: "blob_type \<Rightarrow> nat" where
  "blob_type_rank Data = 0"
| "blob_type_rank ContractBytecode = 1"
| "blob_type_rank ServiceBytecode = 2"
| "blob_type_rank EvmBytecode = 3"
| "blob_type_rank ApplicationDescriptionBlob = 4"
| "blob_type_rank CommitteeBlob = 5"
| "blob_type_rank ChainDescriptionBlob = 6"

definition is_committee_blob :: "blob_type \<Rightarrow> bool" where
  "is_committee_blob t = (case t of CommitteeBlob \<Rightarrow> True | _ \<Rightarrow> False)"

datatype blob_id = BlobId (id_blob_type: blob_type) (id_hash: crypto_hash)

fun blob_id_key :: "blob_id \<Rightarrow> nat \<times> nat" where
  "blob_id_key (BlobId t h) = (blob_type_rank t, unat h)"

lemma blob_type_rank_inj: "blob_type_rank a = blob_type_rank b \<longleftrightarrow> a = b"
  by (cases a; cases b) simp_all

lemma blob_id_key_inj: "blob_id_key a = blob_id_key b \<longleftrightarrow> a = b"
  by (cases a; cases b) (auto simp: word_unat_eq_iff blob_type_rank_inj)

instantiation blob_id :: linorder
begin

definition less_eq_blob_id :: "blob_id \<Rightarrow> blob_id \<Rightarrow> bool" where
  "less_eq_blob_id a b \<longleftrightarrow> blob_id_key a \<le> blob_id_key b"

definition less_blob_id :: "blob_id \<Rightarrow> blob_id \<Rightarrow> bool" where
  "less_blob_id a b \<longleftrightarrow> blob_id_key a < blob_id_key b"

instance
proof
  fix a b c :: blob_id
  show "a < b \<longleftrightarrow> a \<le> b \<and> \<not> b \<le> a"
    by (simp only: less_eq_blob_id_def less_blob_id_def less_le_not_le)
  show "a \<le> a" by (simp add: less_eq_blob_id_def)
  show "a \<le> b \<Longrightarrow> b \<le> c \<Longrightarrow> a \<le> c"
    unfolding less_eq_blob_id_def by (rule order_trans)
  show "a \<le> b \<Longrightarrow> b \<le> a \<Longrightarrow> a = b"
    unfolding less_eq_blob_id_def blob_id_key_inj [symmetric] by (rule antisym)
  show "a \<le> b \<or> b \<le> a"
    unfolding less_eq_blob_id_def by (rule linear)
qed

end

text \<open>A blob: its content and the identifier computed from the content.\<close>

record blob_content =
  content_blob_type :: blob_type
  content_bytes :: bytes

record blob =
  blob_hash :: crypto_hash
  blob_content :: blob_content

definition blob_id_of :: "blob \<Rightarrow> blob_id" where
  "blob_id_of b = BlobId (content_blob_type (blob_content b)) (blob_hash b)"

subsection \<open>Streams and events\<close>

datatype generic_application_id = System_app | User_app application_id

definition user_application_id :: "generic_application_id \<Rightarrow> application_id option" where
  "user_application_id g = (case g of User_app a \<Rightarrow> Some a | System_app \<Rightarrow> None)"

datatype stream_id = StreamId (stream_application_id: generic_application_id) (stream_name: bytes)

fun generic_application_id_key :: "generic_application_id \<Rightarrow> nat \<times> nat" where
  "generic_application_id_key System_app = (0, 0)"
| "generic_application_id_key (User_app a) = (1, unat a)"

fun stream_id_key :: "stream_id \<Rightarrow> (nat \<times> nat) \<times> u8 list" where
  "stream_id_key (StreamId a n) = (generic_application_id_key a, n)"

lemma stream_id_key_inj: "stream_id_key a = stream_id_key b \<longleftrightarrow> a = b"
proof -
  have "generic_application_id_key g = generic_application_id_key h \<longleftrightarrow> g = h" for g h
    by (cases g; cases h) (auto simp: word_unat_eq_iff)
  then show ?thesis by (cases a; cases b) auto
qed

instantiation stream_id :: linorder
begin

definition less_eq_stream_id :: "stream_id \<Rightarrow> stream_id \<Rightarrow> bool" where
  "less_eq_stream_id a b \<longleftrightarrow> stream_id_key a \<le> stream_id_key b"

definition less_stream_id :: "stream_id \<Rightarrow> stream_id \<Rightarrow> bool" where
  "less_stream_id a b \<longleftrightarrow> stream_id_key a < stream_id_key b"

instance
proof
  fix a b c :: stream_id
  show "a < b \<longleftrightarrow> a \<le> b \<and> \<not> b \<le> a"
    by (simp only: less_eq_stream_id_def less_stream_id_def less_le_not_le)
  show "a \<le> a" by (simp add: less_eq_stream_id_def)
  show "a \<le> b \<Longrightarrow> b \<le> c \<Longrightarrow> a \<le> c"
    unfolding less_eq_stream_id_def by (rule order_trans)
  show "a \<le> b \<Longrightarrow> b \<le> a \<Longrightarrow> a = b"
    unfolding less_eq_stream_id_def stream_id_key_inj [symmetric] by (rule antisym)
  show "a \<le> b \<or> b \<le> a"
    unfolding less_eq_stream_id_def by (rule linear)
qed

end

record event_id =
  event_chain_id :: chain_id
  event_id_stream :: stream_id
  event_id_index :: u32

record event =
  event_stream_id :: stream_id
  event_index :: u32
  event_value :: bytes

end
