(* ===== verification/Ownership.thy ===== *)
theory Ownership
  imports Identifiers
begin

text \<open>
  Chain ownership and the sequence of consensus rounds it induces
  (\<open>linera-base/src/ownership.rs\<close>), with the application permissions of
  \<open>linera-base/src/data_types.rs\<close>.
\<close>

record timeout_config =
  fast_round_duration :: "time_delta option"
  base_timeout :: time_delta
  timeout_increment :: time_delta
  fallback_duration :: time_delta

definition TimeoutConfig_default :: timeout_config where
  "TimeoutConfig_default =
    \<lparr> fast_round_duration = None,
      base_timeout = TimeDelta_from_secs 10,
      timeout_increment = TimeDelta_from_secs 1,
      fallback_duration = word_max \<rparr>"

record chain_ownership =
  super_owners :: "account_owner btree_set"
  owners :: "(account_owner, u64) btree_map"
  multi_leader_rounds :: u32
  open_multi_leader_rounds :: bool
  timeout_config :: timeout_config

definition single_super :: "account_owner \<Rightarrow> chain_ownership" where
  "single_super owner =
    \<lparr> super_owners = [owner], owners = [], multi_leader_rounds = 2,
      open_multi_leader_rounds = False, timeout_config = TimeoutConfig_default \<rparr>"

definition single :: "account_owner \<Rightarrow> chain_ownership" where
  "single owner =
    \<lparr> super_owners = [], owners = [(owner, 100)], multi_leader_rounds = 2,
      open_multi_leader_rounds = False, timeout_config = TimeoutConfig_default \<rparr>"

definition multiple ::
  "(account_owner \<times> u64) list \<Rightarrow> u32 \<Rightarrow> timeout_config \<Rightarrow> chain_ownership" where
  "multiple owners_and_weights mlr tc =
    \<lparr> super_owners = [], owners = btm_of_list owners_and_weights, multi_leader_rounds = mlr,
      open_multi_leader_rounds = False, timeout_config = tc \<rparr>"

definition with_regular_owner :: "chain_ownership \<Rightarrow> account_owner \<Rightarrow> u64 \<Rightarrow> chain_ownership" where
  "with_regular_owner self owner weight = self\<lparr> owners := btm_insert owner weight (owners self) \<rparr>"

definition ownership_is_active :: "chain_ownership \<Rightarrow> bool" where
  "ownership_is_active self \<longleftrightarrow>
    super_owners self \<noteq> [] \<or> owners self \<noteq> [] \<or>
    fallback_duration (timeout_config self) = 0"

definition ownership_verify_owner :: "chain_ownership \<Rightarrow> account_owner \<Rightarrow> bool" where
  "ownership_verify_owner self owner \<longleftrightarrow>
    List.member (super_owners self) owner \<or> btm_get (owners self) owner \<noteq> None"

definition round_timeout :: "chain_ownership \<Rightarrow> round \<Rightarrow> time_delta option" where
  "round_timeout self r =
    (let tc = timeout_config self in
     if is_fast r \<and> owners self = [] then None
     else case r of
       Fast \<Rightarrow> fast_round_duration tc
     | MultiLeader n \<Rightarrow>
        if saturating_add n 1 = multi_leader_rounds self then Some (base_timeout tc) else None
     | SingleLeader n \<Rightarrow>
        Some (saturating_add (base_timeout tc) (saturating_mul (timeout_increment tc) (ucast n)))
     | Validator n \<Rightarrow>
        Some (saturating_add (base_timeout tc) (saturating_mul (timeout_increment tc) (ucast n))))"

definition first_round :: "chain_ownership \<Rightarrow> round" where
  "first_round self =
    (if super_owners self \<noteq> [] then Fast
     else if owners self = [] then Validator 0
     else if 0 < multi_leader_rounds self then MultiLeader 0
     else SingleLeader 0)"

definition all_owners :: "chain_ownership \<Rightarrow> account_owner list" where
  "all_owners self = super_owners self @ btm_keys (owners self)"

definition next_round :: "chain_ownership \<Rightarrow> round \<Rightarrow> round option" where
  "next_round self r =
    (case r of
       Fast \<Rightarrow> Some (if multi_leader_rounds self = 0 then SingleLeader 0 else MultiLeader 0)
     | MultiLeader n \<Rightarrow>
        Some (case checked_add n 1 of
                None \<Rightarrow> SingleLeader 0
              | Some n' \<Rightarrow> if n' < multi_leader_rounds self then MultiLeader n' else SingleLeader 0)
     | SingleLeader n \<Rightarrow>
        Some (case checked_add n 1 of None \<Rightarrow> Validator 0 | Some n' \<Rightarrow> SingleLeader n')
     | Validator n \<Rightarrow>
        (case checked_add n 1 of None \<Rightarrow> None | Some n' \<Rightarrow> Some (Validator n')))"

definition is_super_owner_no_regular_owners :: "chain_ownership \<Rightarrow> account_owner \<Rightarrow> bool" where
  "is_super_owner_no_regular_owners self owner \<longleftrightarrow>
    owners self = [] \<and> List.member (super_owners self) owner"

definition ownership_ok :: "chain_ownership \<Rightarrow> bool" where
  "ownership_ok self \<longleftrightarrow> bts_ok (super_owners self) \<and> btm_ok (owners self)"

subsection \<open>Rounds advance\<close>

lemma checked_add_1_less: "checked_add n 1 = Some m \<Longrightarrow> n < m"
  by (simp add: checked_add_Some word_less_nat_alt)

lemma checked_add_1_None: "checked_add (n :: 'a::len word) 1 = None \<longleftrightarrow> n = word_max"
proof -
  have "n = word_max \<longleftrightarrow> unat n = 2 ^ LENGTH('a) - 1"
    by (simp add: word_unat_eq_iff unat_word_max)
  then show ?thesis
    using unat_lt [of n] by (simp only: checked_add_None unsigned_1) linarith
qed

lemma checked_add_max [simp]: "checked_add word_max 1 = None"
  by (simp add: checked_add_1_None)

lemma next_round_less: "next_round self r = Some r' \<Longrightarrow> r < r'"
  by (cases r)
    (auto simp: next_round_def round_order_defs split: if_splits option.splits dest: checked_add_1_less)

lemma next_round_None: "next_round self r = None \<longleftrightarrow> r = Validator word_max"
  by (cases r) (auto simp: next_round_def checked_add_1_None split: option.splits)

text \<open>
  A round is reachable on a chain when it is the first round or follows a reachable
  one; the multi-leader rounds a chain reaches are the ones it allows.
\<close>

inductive reachable_round :: "chain_ownership \<Rightarrow> round \<Rightarrow> bool" for self where
  first: "reachable_round self (first_round self)"
| nextr: "reachable_round self r \<Longrightarrow> next_round self r = Some r' \<Longrightarrow> reachable_round self r'"

lemma next_round_multi_leader:
  "next_round self r = Some (MultiLeader n) \<Longrightarrow> n < multi_leader_rounds self"
  by (cases r) (auto simp: next_round_def word_gt_0 split: if_splits option.splits)

lemma reachable_multi_leader:
  assumes "reachable_round self (MultiLeader n)"
  shows "n < multi_leader_rounds self"
  using assms
  by (cases rule: reachable_round.cases)
    (auto simp: first_round_def dest: next_round_multi_leader split: if_splits)

lemma reachable_ge_first: "reachable_round self r \<Longrightarrow> first_round self \<le> r"
  by (induction rule: reachable_round.induct) (auto dest: next_round_less)

text \<open>
  \<^bold>\<open>C22\<close>. The rounds of a chain: the successor of a round is a later round, the only
  round without successor is the last validator round a 32-bit counter can name,
  a chain only reaches multi-leader rounds it allows, and every reachable
  single-leader or validator round has a timeout.
\<close>

theorem round_sequence:
  assumes "reachable_round self r"
  shows "((\<exists>r'. next_round self r = Some r' \<and> r < r' \<and> reachable_round self r') \<or> r = Validator word_max) \<and>
    first_round self \<le> r \<and>
    (\<forall>n. r = MultiLeader n \<longrightarrow> n < multi_leader_rounds self) \<and>
    (\<not> is_fast r \<and> \<not> is_multi_leader r \<longrightarrow> (\<exists>t. round_timeout self r = Some t))"
proof (intro conjI)
  show "(\<exists>r'. next_round self r = Some r' \<and> r < r' \<and> reachable_round self r') \<or> r = Validator word_max"
    using assms next_round_None [of self r] next_round_less [of self r] reachable_round.nextr [of self r]
    by (cases "next_round self r") auto
  show "first_round self \<le> r" using assms by (rule reachable_ge_first)
  show "\<forall>n. r = MultiLeader n \<longrightarrow> n < multi_leader_rounds self"
    using reachable_multi_leader assms by blast
  show "\<not> is_fast r \<and> \<not> is_multi_leader r \<longrightarrow> (\<exists>t. round_timeout self r = Some t)"
    by (cases r) (simp_all add: round_timeout_def Let_def is_multi_leader_def)
qed

theorem round_sequence_witness:
  "next_round (single_super (Reserved 1)) Fast = Some (MultiLeader 0) \<and>
   (\<exists>r'. next_round (single_super (Reserved 1)) (MultiLeader 0) = Some r' \<and> MultiLeader 0 < r' \<and>
      reachable_round (single_super (Reserved 1)) r')"
proof -
  let ?o = "single_super (Reserved 1)"
  have "first_round ?o = Fast" by (simp add: first_round_def single_super_def)
  then have "reachable_round ?o Fast" using reachable_round.first [of ?o] by simp
  moreover have n: "next_round ?o Fast = Some (MultiLeader 0)"
    by (simp add: next_round_def single_super_def)
  ultimately have "reachable_round ?o (MultiLeader 0)" by (rule reachable_round.nextr)
  from round_sequence [OF this] n show ?thesis by simp
qed

end
