(* ===== verification/Operations.thy ===== *)
theory Operations
  imports Ownership
begin

text \<open>
  The vocabulary of block contents: application permissions, chain and application
  descriptions (\<open>linera-base/src/data_types.rs\<close>), system operations and messages
  (\<open>linera-execution/src/system.rs\<close>), operations, messages and execution errors
  (\<open>linera-execution/src/lib.rs\<close>).
\<close>

datatype vm_runtime = Wasm | Evm

subsection \<open>Modules and applications\<close>

record module_id =
  contract_blob_hash :: crypto_hash
  service_blob_hash :: crypto_hash
  mod_vm_runtime :: vm_runtime

definition contract_bytecode_blob_id :: "module_id \<Rightarrow> blob_id" where
  "contract_bytecode_blob_id m =
    (case mod_vm_runtime m of
       Wasm \<Rightarrow> BlobId ContractBytecode (contract_blob_hash m)
     | Evm \<Rightarrow> BlobId EvmBytecode (contract_blob_hash m))"

definition service_bytecode_blob_id :: "module_id \<Rightarrow> blob_id" where
  "service_bytecode_blob_id m =
    (case mod_vm_runtime m of
       Wasm \<Rightarrow> BlobId ServiceBytecode (service_blob_hash m)
     | Evm \<Rightarrow> BlobId EvmBytecode (contract_blob_hash m))"

definition bytecode_blob_ids :: "module_id \<Rightarrow> blob_id list" where
  "bytecode_blob_ids m =
    (case mod_vm_runtime m of
       Wasm \<Rightarrow> [BlobId ContractBytecode (contract_blob_hash m),
                BlobId ServiceBytecode (service_blob_hash m)]
     | Evm \<Rightarrow> [BlobId EvmBytecode (contract_blob_hash m)])"

record application_description =
  ad_module_id :: module_id
  ad_creator_chain_id :: chain_id
  ad_block_height :: block_height
  ad_application_index :: u32
  ad_parameters :: bytes
  ad_required_application_ids :: "application_id list"

record application_permissions =
  execute_operations :: "application_id list option"
  mandatory_applications :: "application_id list"
  close_chain_apps :: "application_id list"
  change_application_permissions :: "application_id list"
  call_service_as_oracle :: "application_id list option"
  make_http_requests :: "application_id list option"

definition permissions_default :: application_permissions where
  "permissions_default =
    \<lparr> execute_operations = None, mandatory_applications = [], close_chain_apps = [],
      change_application_permissions = [], call_service_as_oracle = None, make_http_requests = None \<rparr>"

definition new_multiple :: "application_id list \<Rightarrow> application_permissions" where
  "new_multiple app_ids =
    \<lparr> execute_operations = Some app_ids, mandatory_applications = app_ids,
      close_chain_apps = app_ids, change_application_permissions = app_ids,
      call_service_as_oracle = Some app_ids, make_http_requests = Some app_ids \<rparr>"

definition new_single :: "application_id \<Rightarrow> application_permissions" where
  "new_single app_id =
    \<lparr> execute_operations = Some [app_id], mandatory_applications = [app_id],
      close_chain_apps = [app_id], change_application_permissions = [app_id],
      call_service_as_oracle = Some [app_id], make_http_requests = Some [app_id] \<rparr>"

definition can_execute_operations :: "application_permissions \<Rightarrow> generic_application_id \<Rightarrow> bool" where
  "can_execute_operations p app_id =
    (case (app_id, execute_operations p) of
       (_, None) \<Rightarrow> True
     | (System_app, Some _) \<Rightarrow> False
     | (User_app a, Some app_ids) \<Rightarrow> List.member app_ids a)"

definition can_close_chain :: "application_permissions \<Rightarrow> application_id \<Rightarrow> bool" where
  "can_close_chain p a = List.member (close_chain_apps p) a"

definition can_change_application_permissions :: "application_permissions \<Rightarrow> application_id \<Rightarrow> bool" where
  "can_change_application_permissions p a = List.member (change_application_permissions p) a"

definition can_call_services :: "application_permissions \<Rightarrow> application_id \<Rightarrow> bool" where
  "can_call_services p a =
    (case call_service_as_oracle p of None \<Rightarrow> True | Some app_ids \<Rightarrow> List.member app_ids a)"

definition can_make_http_requests :: "application_permissions \<Rightarrow> application_id \<Rightarrow> bool" where
  "can_make_http_requests p a =
    (case make_http_requests p of None \<Rightarrow> True | Some app_ids \<Rightarrow> List.member app_ids a)"

subsection \<open>Chain descriptions\<close>

datatype chain_origin = Root u32 | Child (parent: chain_id) (origin_height: block_height) (origin_chain_index: u32)

definition is_child :: "chain_origin \<Rightarrow> bool" where
  "is_child x = (case x of Child _ _ _ \<Rightarrow> True | Root _ \<Rightarrow> False)"

record initial_chain_config =
  icc_ownership :: chain_ownership
  icc_epoch :: epoch
  icc_min_active_epoch :: epoch
  icc_max_active_epoch :: epoch
  icc_balance :: amount
  icc_application_permissions :: application_permissions

record chain_description =
  cd_origin :: chain_origin
  cd_timestamp :: timestamp
  cd_config :: initial_chain_config

record open_chain_config =
  occ_ownership :: chain_ownership
  occ_balance :: amount
  occ_application_permissions :: application_permissions

definition init_chain_config :: "open_chain_config \<Rightarrow> epoch \<Rightarrow> epoch \<Rightarrow> epoch \<Rightarrow> initial_chain_config" where
  "init_chain_config c e min_e max_e =
    \<lparr> icc_ownership = occ_ownership c, icc_epoch = e, icc_min_active_epoch = min_e,
      icc_max_active_epoch = max_e, icc_balance = occ_balance c,
      icc_application_permissions = occ_application_permissions c \<rparr>"

subsection \<open>Operations and messages\<close>

datatype admin_operation =
    PublishCommitteeBlob crypto_hash
  | CreateCommittee epoch crypto_hash
  | RemoveCommittee epoch

datatype system_operation =
    Transfer account_owner account amount
  | Claim account_owner chain_id account amount
  | OpenChain open_chain_config
  | CloseChain
  | ChangeOwnership "account_owner list" "(account_owner \<times> u64) list" u32 bool timeout_config
  | ChangeApplicationPermissions application_permissions
  | PublishModule module_id
  | PublishDataBlob crypto_hash
  | VerifyBlob blob_id
  | CreateApplication module_id bytes bytes "application_id list"
  | Admin admin_operation
  | ProcessNewEpoch epoch
  | ProcessRemovedEpoch epoch
  | UpdateStreams "(chain_id \<times> stream_id \<times> u32) list"

datatype system_message =
    Credit (credit_target: account_owner) (credit_amount: amount) (credit_source: account_owner)
  | Withdraw (withdraw_owner: account_owner) (withdraw_amount: amount) (withdraw_recipient: account)

datatype operation = SystemOp system_operation | UserOp application_id bytes
datatype message = SystemMsg system_message | UserMsg application_id bytes

datatype message_kind = Simple | Protected | Tracked | Bouncing

definition operation_application_id :: "operation \<Rightarrow> generic_application_id" where
  "operation_application_id op = (case op of SystemOp _ \<Rightarrow> System_app | UserOp a _ \<Rightarrow> User_app a)"

definition message_application_id :: "message \<Rightarrow> generic_application_id" where
  "message_application_id m = (case m of SystemMsg _ \<Rightarrow> System_app | UserMsg a _ \<Rightarrow> User_app a)"

definition operation_published_blob_ids :: "operation \<Rightarrow> blob_id list" where
  "operation_published_blob_ids op =
    (case op of
       SystemOp (PublishDataBlob h) \<Rightarrow> [BlobId Data h]
     | SystemOp (Admin (PublishCommitteeBlob h)) \<Rightarrow> [BlobId CommitteeBlob h]
     | SystemOp (PublishModule m) \<Rightarrow> bytecode_blob_ids m
     | _ \<Rightarrow> [])"

definition is_exempt_from_permissions :: "operation \<Rightarrow> bool" where
  "is_exempt_from_permissions op =
    (case op of
       SystemOp (ProcessNewEpoch _) \<Rightarrow> True
     | SystemOp (ProcessRemovedEpoch _) \<Rightarrow> True
     | SystemOp (UpdateStreams _) \<Rightarrow> True
     | _ \<Rightarrow> False)"

record outgoing_message =
  om_destination :: chain_id
  om_authenticated_signer :: "account_owner option"
  om_grant :: amount
  om_refund_grant_to :: "account option"
  om_kind :: message_kind
  om_message :: message

definition OutgoingMessage_new :: "chain_id \<Rightarrow> message \<Rightarrow> outgoing_message" where
  "OutgoingMessage_new recipient m =
    \<lparr> om_destination = recipient, om_authenticated_signer = None, om_grant = 0,
      om_refund_grant_to = None, om_kind = Simple, om_message = m \<rparr>"

definition with_kind :: "outgoing_message \<Rightarrow> message_kind \<Rightarrow> outgoing_message" where
  "with_kind m k = m\<lparr> om_kind := k \<rparr>"

definition with_authenticated_signer :: "outgoing_message \<Rightarrow> account_owner option \<Rightarrow> outgoing_message" where
  "with_authenticated_signer m s = m\<lparr> om_authenticated_signer := s \<rparr>"

record operation_context =
  octx_chain_id :: chain_id
  octx_authenticated_signer :: "account_owner option"
  octx_height :: block_height
  octx_round :: "u32 option"
  octx_timestamp :: timestamp

record message_context =
  mctx_chain_id :: chain_id
  mctx_origin :: chain_id
  mctx_is_bouncing :: bool
  mctx_authenticated_signer :: "account_owner option"
  mctx_refund_grant_to :: "account option"
  mctx_height :: block_height
  mctx_round :: "u32 option"
  mctx_timestamp :: timestamp

definition octx_refund_grant_to :: "operation_context \<Rightarrow> account option" where
  "octx_refund_grant_to c = map_option (Account (octx_chain_id c)) (octx_authenticated_signer c)"

subsection \<open>Oracle responses\<close>

record http_response =
  http_status :: "16 word"
  http_headers :: "(string \<times> bytes) list"
  http_body :: bytes

datatype oracle_response =
    OracleService bytes
  | OracleHttp http_response
  | OracleBlob blob_id
  | OracleAssert
  | OracleRound "u32 option"
  | OracleEvent event_id bytes
  | OracleEventExists event_id

subsection \<open>Execution errors\<close>

text \<open>
  The variants of \<open>ExecutionError\<close> that the modelled code returns. \<open>RuntimeError\<close>
  stands for the ones raised by the virtual machines and by the storage.
\<close>

datatype execution_error =
    ArithmeticError arithmetic_error
  | RuntimeError string
  | DecompressionError
  | BcsError
  | ExcessiveRead
  | ExcessiveWrite
  | MaximumFuelExceeded vm_runtime
  | MaximumServiceOracleExecutionTimeExceeded
  | ServiceOracleResponseTooLarge
  | BlockTooLarge
  | UnexpectedOracleResponse
  | OracleResponseMismatch
  | BlobTooLarge
  | BytecodeTooLarge
  | InactiveChainError chain_id
  | BlobsNotFound "blob_id list"
  | EventsNotFound "event_id list"
  | NoNetworkDescriptionFound
  | InvalidEpochError chain_id epoch
  | IncorrectTransferAmount
  | UnauthenticatedTransferOwner
  | InsufficientBalance amount account_owner
  | FeesExceedFunding amount amount
  | IncorrectClaimAmount
  | UnauthenticatedClaimOwner
  | AdminOperationOnNonAdminChain
  | InvalidCommitteeEpoch epoch epoch
  | InvalidCommitteeRemoval
  | MissingOracleResponse
  | UnprocessedStreams
  | InternalExecutionError string
  | OutdatedUpdateStreams
  | KeyTooLong
  | InvalidPromise
  | ReentrantCall application_id
  | CrossApplicationCallInFinalize application_id application_id
  | HttpResponseSizeLimitExceeded u64 u64
  | UnauthorizedApplication application_id
  | ServiceOracleQueryOperations "operation list"
  | AssertBeforeError timestamp timestamp
  | StreamNameTooLong
  | UnauthorizedHttpRequest string

end
