(* ===== verification/Policy.thy ===== *)
theory Policy
  imports Operations
begin

text \<open>
  The resource control policy (\<open>linera-execution/src/policy.rs\<close>): prices, limits, the
  total price of a bundle of resources, and the fuel a balance can pay for.
\<close>

record resource_control_policy =
  pol_wasm_fuel_unit :: amount
  pol_evm_fuel_unit :: amount
  pol_read_operation :: amount
  pol_write_operation :: amount
  pol_byte_runtime :: amount
  pol_byte_read :: amount
  pol_byte_written :: amount
  pol_blob_read :: amount
  pol_blob_published :: amount
  pol_blob_byte_read :: amount
  pol_blob_byte_published :: amount
  pol_byte_stored :: amount
  pol_operation :: amount
  pol_operation_byte :: amount
  pol_message :: amount
  pol_message_byte :: amount
  pol_service_as_oracle_query :: amount
  pol_http_request :: amount
  maximum_wasm_fuel_per_block :: u64
  maximum_evm_fuel_per_block :: u64
  maximum_service_oracle_execution_ms :: u64
  maximum_block_size :: u64
  maximum_bytecode_size :: u64
  maximum_blob_size :: u64
  maximum_published_blobs :: u64
  maximum_block_proposal_size :: u64
  maximum_bytes_read_per_block :: u64
  maximum_bytes_written_per_block :: u64
  maximum_oracle_response_bytes :: u64
  maximum_http_response_bytes :: u64
  http_request_timeout_ms :: u64
  http_request_allow_list :: "string list"

definition no_fees :: resource_control_policy where
  "no_fees =
    \<lparr> pol_wasm_fuel_unit = 0, pol_evm_fuel_unit = 0, pol_read_operation = 0, pol_write_operation = 0,
      pol_byte_runtime = 0, pol_byte_read = 0, pol_byte_written = 0, pol_blob_read = 0,
      pol_blob_published = 0, pol_blob_byte_read = 0, pol_blob_byte_published = 0, pol_byte_stored = 0,
      pol_operation = 0, pol_operation_byte = 0, pol_message = 0, pol_message_byte = 0,
      pol_service_as_oracle_query = 0, pol_http_request = 0,
      maximum_wasm_fuel_per_block = word_max, maximum_evm_fuel_per_block = word_max,
      maximum_service_oracle_execution_ms = word_max, maximum_block_size = word_max,
      maximum_bytecode_size = word_max, maximum_blob_size = word_max,
      maximum_published_blobs = word_max, maximum_block_proposal_size = word_max,
      maximum_bytes_read_per_block = word_max, maximum_bytes_written_per_block = word_max,
      maximum_oracle_response_bytes = word_max, maximum_http_response_bytes = word_max,
      http_request_timeout_ms = word_max, http_request_allow_list = [] \<rparr>"

definition testnet :: resource_control_policy where
  "testnet =
    \<lparr> pol_wasm_fuel_unit = Amount_from_nanos 10, pol_evm_fuel_unit = Amount_from_nanos 10,
      pol_read_operation = Amount_from_micros 10, pol_write_operation = Amount_from_micros 20,
      pol_byte_runtime = Amount_from_nanos 1, pol_byte_read = Amount_from_nanos 10,
      pol_byte_written = Amount_from_nanos 100, pol_blob_read = Amount_from_nanos 100,
      pol_blob_published = Amount_from_nanos 1000, pol_blob_byte_read = Amount_from_nanos 10,
      pol_blob_byte_published = Amount_from_nanos 100, pol_byte_stored = Amount_from_nanos 10,
      pol_operation = Amount_from_micros 10, pol_operation_byte = Amount_from_nanos 10,
      pol_message = Amount_from_micros 10, pol_message_byte = Amount_from_nanos 100,
      pol_service_as_oracle_query = Amount_from_millis 10, pol_http_request = Amount_from_micros 50,
      maximum_wasm_fuel_per_block = 100000000, maximum_evm_fuel_per_block = 100000000,
      maximum_service_oracle_execution_ms = 10000, maximum_block_size = 1000000,
      maximum_bytecode_size = 10000000, maximum_blob_size = 1000000,
      maximum_published_blobs = 10, maximum_block_proposal_size = 13000000,
      maximum_bytes_read_per_block = 100000000, maximum_bytes_written_per_block = 10000000,
      maximum_oracle_response_bytes = 10000, maximum_http_response_bytes = 10000,
      http_request_timeout_ms = 20000, http_request_allow_list = [] \<rparr>"

record resources =
  res_wasm_fuel :: u64
  res_evm_fuel :: u64
  res_read_operations :: u32
  res_write_operations :: u32
  res_bytes_runtime :: u32
  res_bytes_to_read :: u32
  res_bytes_to_write :: u32
  res_blobs_to_read :: u32
  res_blobs_to_publish :: u32
  res_blob_bytes_to_read :: u32
  res_blob_bytes_to_publish :: u32
  res_messages :: u32
  res_message_size :: u32
  res_storage_size_delta :: u32
  res_service_as_oracle_queries :: u32
  res_http_requests :: u32

type_synonym price = "(amount, arithmetic_error) result"

definition maximum_fuel_per_block :: "resource_control_policy \<Rightarrow> vm_runtime \<Rightarrow> u64" where
  "maximum_fuel_per_block p vm =
    (case vm of Wasm \<Rightarrow> maximum_wasm_fuel_per_block p | Evm \<Rightarrow> maximum_evm_fuel_per_block p)"

definition operation_bytes_price :: "resource_control_policy \<Rightarrow> u64 \<Rightarrow> price" where
  "operation_bytes_price p sz = try_mul (pol_operation_byte p) (ucast sz)"

definition message_bytes_price :: "resource_control_policy \<Rightarrow> u64 \<Rightarrow> price" where
  "message_bytes_price p sz = try_mul (pol_message_byte p) (ucast sz)"

definition read_operations_price :: "resource_control_policy \<Rightarrow> u32 \<Rightarrow> price" where
  "read_operations_price p count = try_mul (pol_read_operation p) (ucast count)"

definition write_operations_price :: "resource_control_policy \<Rightarrow> u32 \<Rightarrow> price" where
  "write_operations_price p count = try_mul (pol_write_operation p) (ucast count)"

definition bytes_runtime_price :: "resource_control_policy \<Rightarrow> u32 \<Rightarrow> price" where
  "bytes_runtime_price p count = try_mul (pol_byte_runtime p) (ucast count)"

definition bytes_read_price :: "resource_control_policy \<Rightarrow> u64 \<Rightarrow> price" where
  "bytes_read_price p count = try_mul (pol_byte_read p) (ucast count)"

definition bytes_written_price :: "resource_control_policy \<Rightarrow> u64 \<Rightarrow> price" where
  "bytes_written_price p count = try_mul (pol_byte_written p) (ucast count)"

definition blob_read_price :: "resource_control_policy \<Rightarrow> u64 \<Rightarrow> price" where
  "blob_read_price p count =
    and_then (try_mul (pol_blob_byte_read p) (ucast count)) (\<lambda>x. try_add x (pol_blob_read p))"

definition blob_published_price :: "resource_control_policy \<Rightarrow> u64 \<Rightarrow> price" where
  "blob_published_price p count =
    and_then (try_mul (pol_blob_byte_published p) (ucast count)) (\<lambda>x. try_add x (pol_blob_published p))"

definition bytes_stored_price :: "resource_control_policy \<Rightarrow> u64 \<Rightarrow> price" where
  "bytes_stored_price p count = try_mul (pol_byte_stored p) (ucast count)"

definition service_as_oracle_queries_price :: "resource_control_policy \<Rightarrow> u32 \<Rightarrow> price" where
  "service_as_oracle_queries_price p count = try_mul (pol_service_as_oracle_query p) (ucast count)"

definition http_requests_price :: "resource_control_policy \<Rightarrow> u32 \<Rightarrow> price" where
  "http_requests_price p count = try_mul (pol_http_request p) (ucast count)"

definition fuel_unit_price :: "resource_control_policy \<Rightarrow> vm_runtime \<Rightarrow> amount" where
  "fuel_unit_price p vm = (case vm of Wasm \<Rightarrow> pol_wasm_fuel_unit p | Evm \<Rightarrow> pol_evm_fuel_unit p)"

definition fuel_price :: "resource_control_policy \<Rightarrow> u64 \<Rightarrow> vm_runtime \<Rightarrow> price" where
  "fuel_price p fuel vm = try_mul (fuel_unit_price p vm) (ucast fuel)"

definition policy_remaining_fuel :: "resource_control_policy \<Rightarrow> amount \<Rightarrow> vm_runtime \<Rightarrow> u64" where
  "policy_remaining_fuel p bal vm =
    (let q = Amount_saturating_div bal (fuel_unit_price p vm)
     in if unat q < 2 ^ 64 then ucast q else word_max)"

definition total_price :: "resource_control_policy \<Rightarrow> resources \<Rightarrow> price" where
  "total_price p r = try_fold (\<lambda>acc price. and_then price (\<lambda>x. try_add acc x)) 0
    [fuel_price p (res_wasm_fuel r) Wasm,
     fuel_price p (res_evm_fuel r) Evm,
     read_operations_price p (res_read_operations r),
     bytes_runtime_price p (res_bytes_runtime r),
     write_operations_price p (res_write_operations r),
     bytes_read_price p (ucast (res_bytes_to_read r)),
     bytes_written_price p (ucast (res_bytes_to_write r)),
     and_then (try_mul (pol_blob_byte_read p) (ucast (res_blob_bytes_to_read r))) (\<lambda>x.
       and_then (try_mul (pol_blob_read p) (ucast (res_blobs_to_read r))) (\<lambda>y. try_add x y)),
     and_then (try_mul (pol_blob_byte_published p) (ucast (res_blob_bytes_to_publish r))) (\<lambda>x.
       and_then (try_mul (pol_blob_published p) (ucast (res_blobs_to_publish r))) (\<lambda>y. try_add x y)),
     try_mul (pol_message p) (ucast (res_messages r)),
     message_bytes_price p (ucast (res_message_size r)),
     bytes_stored_price p (ucast (res_storage_size_delta r)),
     service_as_oracle_queries_price p (res_service_as_oracle_queries r),
     http_requests_price p (res_http_requests r)]"

text \<open>
  Whether compressed bytecode decompresses to at most the given size is decided by
  the compression library: a parameter.
\<close>

definition check_blob_size ::
  "(bytes \<Rightarrow> u64 \<Rightarrow> (bool, execution_error) result) \<Rightarrow> resource_control_policy \<Rightarrow> blob_content
    \<Rightarrow> (unit, execution_error) result" where
  "check_blob_size decompressed_size_at_most p content =
    and_then (ensure (length (content_bytes content) \<le> unat (maximum_blob_size p)) BlobTooLarge) (\<lambda>_.
      if content_blob_type content \<in> {ContractBytecode, ServiceBytecode, EvmBytecode}
      then and_then (decompressed_size_at_most (content_bytes content) (maximum_bytecode_size p)) (\<lambda>b.
             ensure b BytecodeTooLarge)
      else Ok ())"

subsection \<open>Prices are exact\<close>

lemma try_fold_prices:
  assumes "try_fold (\<lambda>acc price. and_then price (\<lambda>x. try_add acc x)) (a :: amount) ps = Ok t"
  shows "\<exists>xs. ps = map Ok xs \<and> unat t = unat a + sum_list (map unat xs)"
  using assms
proof (induction ps arbitrary: a)
  case (Cons p ps)
  then obtain x a' where x: "p = Ok x" "try_add a x = Ok a'"
    "try_fold (\<lambda>acc price. and_then price (\<lambda>x. try_add acc x)) a' ps = Ok t"
    by (auto simp: result_elims)
  from Cons.IH [OF x(3)] obtain xs where "ps = map Ok xs" "unat t = unat a' + sum_list (map unat xs)"
    by blast
  with x(1,2) show ?case by (intro exI [of _ "x # xs"]) (simp add: word_nat)
qed simp

lemmas price_defs = operation_bytes_price_def message_bytes_price_def read_operations_price_def
  write_operations_price_def bytes_runtime_price_def bytes_read_price_def bytes_written_price_def
  blob_read_price_def blob_published_price_def bytes_stored_price_def
  service_as_oracle_queries_price_def http_requests_price_def fuel_price_def

lemma unat_ucast_up [simp]:
  "unat (ucast (a :: u64) :: u128) = unat a" "unat (ucast (b :: u32) :: u128) = unat b"
  "unat (ucast (b :: u32) :: u64) = unat b"
  by (simp_all add: unsigned_ucast_eq take_bit_nat_eq_self
      unat_lt [of a, THEN less_trans] unat_lt [of b, THEN less_trans])

lemma unat_mul_div_le: "unat (a div b) * unat b \<le> unat a" for a b :: "'a::len word"
  by (simp add: unat_div mult.commute)

lemma remaining_fuel_affordable:
  assumes "fuel \<le> policy_remaining_fuel p bal vm"
  shows "\<exists>fees. fuel_price p fuel vm = Ok fees \<and> fees \<le> bal"
proof -
  let ?u = "fuel_unit_price p vm"
  have bound: "unat ?u * unat fuel \<le> unat bal"
  proof (cases "?u = 0")
    case False
    then have q: "Amount_saturating_div bal ?u = bal div ?u"
      by (simp add: Amount_saturating_div_def checked_div_def)
    have "unat fuel \<le> unat (bal div ?u)"
    proof (cases "unat (bal div ?u) < 2 ^ 64")
      case True
      then have "policy_remaining_fuel p bal vm = ucast (bal div ?u)"
        by (simp add: policy_remaining_fuel_def q)
      moreover have "unat (ucast (bal div ?u) :: u64) = unat (bal div ?u)"
        using True by (simp add: unsigned_ucast_eq take_bit_nat_eq_self)
      ultimately show ?thesis using assms by (simp add: word_le_nat_alt)
    next
      case False
      then show ?thesis using unat_lt [of fuel] by simp
    qed
    then have "unat ?u * unat fuel \<le> unat (bal div ?u) * unat ?u" by (simp add: mult.commute)
    also have "\<dots> \<le> unat bal" by (rule unat_mul_div_le)
    finally show ?thesis .
  qed simp
  then have "unat ?u * unat fuel < 2 ^ 128" using unat_lt [of bal] by simp
  then obtain fees where "try_mul ?u (ucast fuel) = Ok fees"
    by (cases "checked_mul ?u (ucast fuel)") (auto simp: try_mul_def checked_mul_None)
  with bound show ?thesis by (auto simp: fuel_price_def word_nat word_le_nat_alt)
qed

end
