(* ===== verification/Resources.thy ===== *)
theory Resources
  imports Policy
begin

text \<open>
  Resource accounting (\<open>linera-execution/src/resources.rs\<close>): the tracker of what an
  execution has used, the accounts that pay, and the functions that charge them.

  The trait \<open>BalanceHolder\<close> is a record of its three methods; an implementation is a
  value of that record, and every accounting function takes the implementation of
  its account type. A method that fails returns the account as the code leaves it. A
  failing accounting function returns the error only: its callers abandon the block.
\<close>

record resource_tracker =
  trk_block_size :: u64
  trk_evm_fuel :: u64
  trk_wasm_fuel :: u64
  trk_read_operations :: u32
  trk_write_operations :: u32
  trk_bytes_runtime :: u32
  trk_bytes_read :: u64
  trk_bytes_written :: u64
  trk_blobs_read :: u32
  trk_blobs_published :: u32
  trk_blob_bytes_read :: u64
  trk_blob_bytes_published :: u64
  trk_bytes_stored :: "32 word"
  trk_operations :: u32
  trk_operation_bytes :: u64
  trk_messages :: u32
  trk_message_bytes :: u64
  trk_http_requests :: u32
  trk_service_oracle_queries :: u32
  trk_service_oracle_execution :: nat
  trk_grants :: amount

definition tracker_default :: resource_tracker where
  "tracker_default =
    \<lparr> trk_block_size = 0, trk_evm_fuel = 0, trk_wasm_fuel = 0, trk_read_operations = 0,
      trk_write_operations = 0, trk_bytes_runtime = 0, trk_bytes_read = 0, trk_bytes_written = 0,
      trk_blobs_read = 0, trk_blobs_published = 0, trk_blob_bytes_read = 0,
      trk_blob_bytes_published = 0, trk_bytes_stored = 0, trk_operations = 0,
      trk_operation_bytes = 0, trk_messages = 0, trk_message_bytes = 0, trk_http_requests = 0,
      trk_service_oracle_queries = 0, trk_service_oracle_execution = 0, trk_grants = 0 \<rparr>"

definition tracker_fuel :: "resource_tracker \<Rightarrow> vm_runtime \<Rightarrow> u64" where
  "tracker_fuel t vm = (case vm of Wasm \<Rightarrow> trk_wasm_fuel t | Evm \<Rightarrow> trk_evm_fuel t)"

subsection \<open>Balance holders\<close>

record 'a balance_holder =
  bh_balance :: "'a \<Rightarrow> (amount, arithmetic_error) result"
  bh_add :: "'a \<Rightarrow> amount \<Rightarrow> 'a \<times> (unit, arithmetic_error) result"
  bh_sub :: "'a \<Rightarrow> amount \<Rightarrow> 'a \<times> (unit, arithmetic_error) result"

definition amount_holder :: "amount balance_holder" where
  "amount_holder = \<lparr> bh_balance = Ok, bh_add = try_add_assign, bh_sub = try_sub_assign \<rparr>"

type_synonym sources = "amount list"

definition sources_balance :: "sources \<Rightarrow> (amount, arithmetic_error) result" where
  "sources_balance = try_fold try_add 0"

text \<open>Crediting needs at least one source; the code panics without one.\<close>

definition sources_try_add_assign ::
  "sources \<Rightarrow> amount \<Rightarrow> sources \<times> (unit, arithmetic_error) result" where
  "sources_try_add_assign ss x =
    (if ss = [] then (ss, Err Overflow)
     else case try_add_assign (last ss) x of (s, r) \<Rightarrow> (butlast ss @ [s], r))"

fun sources_try_sub_assign ::
  "sources \<Rightarrow> amount \<Rightarrow> sources \<times> (unit, arithmetic_error) result" where
  "sources_try_sub_assign [] x = ([], if 0 < x then Err Underflow else Ok ())"
| "sources_try_sub_assign (s # ss) x =
    (case checked_sub s x of
       Some s' \<Rightarrow> (s' # ss, Ok ())
     | None \<Rightarrow> (case sources_try_sub_assign ss (x - s) of (ss', r) \<Rightarrow> (0 # ss', r)))"

definition sources_holder :: "sources balance_holder" where
  "sources_holder =
    \<lparr> bh_balance = sources_balance, bh_add = sources_try_add_assign, bh_sub = sources_try_sub_assign \<rparr>"

subsection \<open>The resource controller\<close>

record 'a resource_controller =
  rc_policy :: resource_control_policy
  rc_tracker :: resource_tracker
  rc_account :: 'a

type_synonym 'a tracked = "('a resource_controller, execution_error) result"

definition arith :: "('a, arithmetic_error) result \<Rightarrow> ('a, execution_error) result" where
  "arith = map_err ArithmeticError"

definition rc_balance :: "'a balance_holder \<Rightarrow> 'a resource_controller \<Rightarrow> (amount, arithmetic_error) result" where
  "rc_balance H c = bh_balance H (rc_account c)"

definition balance_or_max :: "'a balance_holder \<Rightarrow> 'a \<Rightarrow> amount" where
  "balance_or_max H a = (case bh_balance H a of Ok b \<Rightarrow> b | Err _ \<Rightarrow> word_max)"

definition update_balance :: "'a balance_holder \<Rightarrow> 'a resource_controller \<Rightarrow> amount \<Rightarrow> 'a tracked" where
  "update_balance H c fees =
    (case bh_sub H (rc_account c) fees of
       (a, Ok _) \<Rightarrow> Ok (c\<lparr> rc_account := a \<rparr>)
     | (a, Err _) \<Rightarrow> Err (FeesExceedFunding fees (balance_or_max H a)))"

definition merge_balance ::
  "'a balance_holder \<Rightarrow> 'a resource_controller \<Rightarrow> amount \<Rightarrow> amount \<Rightarrow> 'a tracked" where
  "merge_balance H c initial other =
    (if other \<le> initial then update_balance H c (initial - other)
     else case bh_add H (rc_account c) (other - initial) of
       (a, Ok _) \<Rightarrow> Ok (c\<lparr> rc_account := a \<rparr>)
     | (a, Err e) \<Rightarrow> Err (ArithmeticError e))"

definition rc_remaining_fuel :: "'a balance_holder \<Rightarrow> 'a resource_controller \<Rightarrow> vm_runtime \<Rightarrow> u64" where
  "rc_remaining_fuel H c vm =
    (let bal = balance_or_max H (rc_account c);
         fuel = tracker_fuel (rc_tracker c) vm;
         maximum = maximum_fuel_per_block (rc_policy c) vm
     in min (policy_remaining_fuel (rc_policy c) bal vm) (saturating_sub maximum fuel))"

definition charge :: "'a balance_holder \<Rightarrow> 'a resource_controller \<Rightarrow> price \<Rightarrow> 'a tracked" where
  "charge H c p = and_then (arith p) (\<lambda>fees. update_balance H c fees)"

definition track_grant :: "'a balance_holder \<Rightarrow> 'a resource_controller \<Rightarrow> amount \<Rightarrow> 'a tracked" where
  "track_grant H c grant =
    and_then (arith (try_add (trk_grants (rc_tracker c)) grant)) (\<lambda>g.
      update_balance H (c\<lparr> rc_tracker := (rc_tracker c)\<lparr> trk_grants := g \<rparr> \<rparr>) grant)"

definition track_operation :: "'a balance_holder \<Rightarrow> 'a resource_controller \<Rightarrow> operation \<Rightarrow> 'a tracked" where
  "track_operation H c op =
    and_then (arith (try_add_one (trk_operations (rc_tracker c)))) (\<lambda>n.
    and_then (update_balance H (c\<lparr> rc_tracker := (rc_tracker c)\<lparr> trk_operations := n \<rparr> \<rparr>)
               (pol_operation (rc_policy c))) (\<lambda>c.
      case op of
        SystemOp _ \<Rightarrow> Ok c
      | UserOp _ bs \<Rightarrow>
          and_then (arith (try_add (trk_operation_bytes (rc_tracker c)) (of_nat (length bs)))) (\<lambda>n.
            charge H (c\<lparr> rc_tracker := (rc_tracker c)\<lparr> trk_operation_bytes := n \<rparr> \<rparr>)
              (operation_bytes_price (rc_policy c) (of_nat (length bs))))))"

definition track_message :: "'a balance_holder \<Rightarrow> 'a resource_controller \<Rightarrow> message \<Rightarrow> 'a tracked" where
  "track_message H c m =
    and_then (arith (try_add_one (trk_messages (rc_tracker c)))) (\<lambda>n.
    and_then (update_balance H (c\<lparr> rc_tracker := (rc_tracker c)\<lparr> trk_messages := n \<rparr> \<rparr>)
               (pol_message (rc_policy c))) (\<lambda>c.
      case m of
        SystemMsg _ \<Rightarrow> Ok c
      | UserMsg _ bs \<Rightarrow>
          and_then (arith (try_add (trk_message_bytes (rc_tracker c)) (of_nat (length bs)))) (\<lambda>n.
            charge H (c\<lparr> rc_tracker := (rc_tracker c)\<lparr> trk_message_bytes := n \<rparr> \<rparr>)
              (message_bytes_price (rc_policy c) (of_nat (length bs))))))"

definition track_http_request :: "'a balance_holder \<Rightarrow> 'a resource_controller \<Rightarrow> 'a tracked" where
  "track_http_request H c =
    and_then (arith (try_add_one (trk_http_requests (rc_tracker c)))) (\<lambda>n.
      update_balance H (c\<lparr> rc_tracker := (rc_tracker c)\<lparr> trk_http_requests := n \<rparr> \<rparr>)
        (pol_http_request (rc_policy c)))"

definition track_fuel :: "'a balance_holder \<Rightarrow> 'a resource_controller \<Rightarrow> u64 \<Rightarrow> vm_runtime \<Rightarrow> 'a tracked" where
  "track_fuel H c fuel vm =
    and_then
      (case vm of
         Wasm \<Rightarrow>
           and_then (arith (try_add (trk_wasm_fuel (rc_tracker c)) fuel)) (\<lambda>n.
           and_then (ensure (n \<le> maximum_wasm_fuel_per_block (rc_policy c)) (MaximumFuelExceeded vm)) (\<lambda>_.
             Ok (c\<lparr> rc_tracker := (rc_tracker c)\<lparr> trk_wasm_fuel := n \<rparr> \<rparr>)))
       | Evm \<Rightarrow>
           and_then (arith (try_add (trk_evm_fuel (rc_tracker c)) fuel)) (\<lambda>n.
           and_then (ensure (n \<le> maximum_evm_fuel_per_block (rc_policy c)) (MaximumFuelExceeded vm)) (\<lambda>_.
             Ok (c\<lparr> rc_tracker := (rc_tracker c)\<lparr> trk_evm_fuel := n \<rparr> \<rparr>))))
      (\<lambda>c. charge H c (fuel_price (rc_policy c) fuel vm))"

definition track_size_runtime_operations :: "'a balance_holder \<Rightarrow> 'a resource_controller \<Rightarrow> u32 \<Rightarrow> 'a tracked" where
  "track_size_runtime_operations H c sz =
    and_then (arith (try_add (trk_bytes_runtime (rc_tracker c)) sz)) (\<lambda>n.
      charge H (c\<lparr> rc_tracker := (rc_tracker c)\<lparr> trk_bytes_runtime := n \<rparr> \<rparr>)
        (bytes_runtime_price (rc_policy c) sz))"

subsection \<open>Reads through the runtime\<close>

definition RUNTIME_AMOUNT_SIZE :: u32 where "RUNTIME_AMOUNT_SIZE = 16"
definition RUNTIME_APPLICATION_ID_SIZE :: u32 where "RUNTIME_APPLICATION_ID_SIZE = 32"
definition RUNTIME_BLOCK_HEIGHT_SIZE :: u32 where "RUNTIME_BLOCK_HEIGHT_SIZE = 8"
definition RUNTIME_CHAIN_ID_SIZE :: u32 where "RUNTIME_CHAIN_ID_SIZE = 32"
definition RUNTIME_TIMESTAMP_SIZE :: u32 where "RUNTIME_TIMESTAMP_SIZE = 8"
definition RUNTIME_OWNER_WEIGHT_SIZE :: u32 where "RUNTIME_OWNER_WEIGHT_SIZE = 8"
definition RUNTIME_CONSTANT_CHAIN_OWNERSHIP_SIZE :: u32 where
  "RUNTIME_CONSTANT_CHAIN_OWNERSHIP_SIZE = 4 + 4 * 8"

definition track_runtime_chain_id :: "'a balance_holder \<Rightarrow> 'a resource_controller \<Rightarrow> 'a tracked" where
  "track_runtime_chain_id H c = track_size_runtime_operations H c RUNTIME_CHAIN_ID_SIZE"

definition track_runtime_block_height :: "'a balance_holder \<Rightarrow> 'a resource_controller \<Rightarrow> 'a tracked" where
  "track_runtime_block_height H c = track_size_runtime_operations H c RUNTIME_BLOCK_HEIGHT_SIZE"

definition track_runtime_application_id :: "'a balance_holder \<Rightarrow> 'a resource_controller \<Rightarrow> 'a tracked" where
  "track_runtime_application_id H c = track_size_runtime_operations H c RUNTIME_APPLICATION_ID_SIZE"

definition track_runtime_application_parameters ::
  "'a balance_holder \<Rightarrow> 'a resource_controller \<Rightarrow> bytes \<Rightarrow> 'a tracked" where
  "track_runtime_application_parameters H c parameters =
    track_size_runtime_operations H c (of_nat (length parameters))"

definition track_runtime_timestamp :: "'a balance_holder \<Rightarrow> 'a resource_controller \<Rightarrow> 'a tracked" where
  "track_runtime_timestamp H c = track_size_runtime_operations H c RUNTIME_TIMESTAMP_SIZE"

definition track_runtime_balance :: "'a balance_holder \<Rightarrow> 'a resource_controller \<Rightarrow> 'a tracked" where
  "track_runtime_balance H c = track_size_runtime_operations H c RUNTIME_AMOUNT_SIZE"

definition track_runtime_owner_balances ::
  "'a balance_holder \<Rightarrow> 'a resource_controller \<Rightarrow> (account_owner \<times> amount) list \<Rightarrow> 'a tracked" where
  "track_runtime_owner_balances H c owner_balances =
    track_size_runtime_operations H c
      (foldl (\<lambda>sz (owner, _). sz + (owner_size owner + RUNTIME_AMOUNT_SIZE)) 0 owner_balances)"

definition track_runtime_owners ::
  "'a balance_holder \<Rightarrow> 'a resource_controller \<Rightarrow> account_owner list \<Rightarrow> 'a tracked" where
  "track_runtime_owners H c os =
    track_size_runtime_operations H c (foldl (\<lambda>sz owner. sz + owner_size owner) 0 os)"

definition track_runtime_chain_ownership ::
  "'a balance_holder \<Rightarrow> 'a resource_controller \<Rightarrow> chain_ownership \<Rightarrow> 'a tracked" where
  "track_runtime_chain_ownership H c ow =
    track_size_runtime_operations H c
      (foldl (\<lambda>sz owner. sz + (owner_size owner + RUNTIME_OWNER_WEIGHT_SIZE))
         (foldl (\<lambda>sz owner. sz + owner_size owner) 0 (super_owners ow))
         (btm_keys (owners ow))
       + RUNTIME_CONSTANT_CHAIN_OWNERSHIP_SIZE)"

subsection \<open>Storage, blobs and oracles\<close>

definition track_read_operation :: "'a balance_holder \<Rightarrow> 'a resource_controller \<Rightarrow> 'a tracked" where
  "track_read_operation H c =
    and_then (arith (try_add_one (trk_read_operations (rc_tracker c)))) (\<lambda>n.
      charge H (c\<lparr> rc_tracker := (rc_tracker c)\<lparr> trk_read_operations := n \<rparr> \<rparr>)
        (read_operations_price (rc_policy c) 1))"

definition track_write_operations :: "'a balance_holder \<Rightarrow> 'a resource_controller \<Rightarrow> u32 \<Rightarrow> 'a tracked" where
  "track_write_operations H c count =
    and_then (arith (try_add (trk_write_operations (rc_tracker c)) count)) (\<lambda>n.
      charge H (c\<lparr> rc_tracker := (rc_tracker c)\<lparr> trk_write_operations := n \<rparr> \<rparr>)
        (write_operations_price (rc_policy c) count))"

definition track_bytes_read :: "'a balance_holder \<Rightarrow> 'a resource_controller \<Rightarrow> u64 \<Rightarrow> 'a tracked" where
  "track_bytes_read H c count =
    and_then (arith (try_add (trk_bytes_read (rc_tracker c)) count)) (\<lambda>n.
      if maximum_bytes_read_per_block (rc_policy c) \<le> n then Err ExcessiveRead
      else charge H (c\<lparr> rc_tracker := (rc_tracker c)\<lparr> trk_bytes_read := n \<rparr> \<rparr>)
             (bytes_read_price (rc_policy c) count))"

definition track_bytes_written :: "'a balance_holder \<Rightarrow> 'a resource_controller \<Rightarrow> u64 \<Rightarrow> 'a tracked" where
  "track_bytes_written H c count =
    and_then (arith (try_add (trk_bytes_written (rc_tracker c)) count)) (\<lambda>n.
      if maximum_bytes_written_per_block (rc_policy c) \<le> n then Err ExcessiveWrite
      else charge H (c\<lparr> rc_tracker := (rc_tracker c)\<lparr> trk_bytes_written := n \<rparr> \<rparr>)
             (bytes_written_price (rc_policy c) count))"

definition track_blob_read :: "'a balance_holder \<Rightarrow> 'a resource_controller \<Rightarrow> u64 \<Rightarrow> 'a tracked" where
  "track_blob_read H c count =
    and_then (arith (try_add (trk_blob_bytes_read (rc_tracker c)) count)) (\<lambda>n.
    and_then (arith (try_add_one (trk_blobs_read (rc_tracker c)))) (\<lambda>k.
      charge H (c\<lparr> rc_tracker := (rc_tracker c)\<lparr> trk_blob_bytes_read := n, trk_blobs_read := k \<rparr> \<rparr>)
        (blob_read_price (rc_policy c) count)))"

definition track_blob_published ::
  "(bytes \<Rightarrow> u64 \<Rightarrow> (bool, execution_error) result) \<Rightarrow> 'a balance_holder \<Rightarrow> 'a resource_controller \<Rightarrow> blob
    \<Rightarrow> 'a tracked" where
  "track_blob_published dsz H c b =
    and_then (check_blob_size dsz (rc_policy c) (blob_content b)) (\<lambda>_.
      let sz = of_nat (length (content_bytes (blob_content b))) in
      if is_committee_blob (content_blob_type (blob_content b)) then Ok c
      else
        and_then (arith (try_add (trk_blob_bytes_published (rc_tracker c)) sz)) (\<lambda>n.
        and_then (arith (try_add_one (trk_blobs_published (rc_tracker c)))) (\<lambda>k.
          charge H (c\<lparr> rc_tracker := (rc_tracker c)\<lparr> trk_blob_bytes_published := n, trk_blobs_published := k \<rparr> \<rparr>)
            (blob_published_price (rc_policy c) sz))))"

definition track_stored_bytes :: "'a resource_controller \<Rightarrow> 32 word \<Rightarrow> 'a tracked" where
  "track_stored_bytes c delta =
    (let s = sint (trk_bytes_stored (rc_tracker c)) + sint delta in
     if - (2 ^ 31) \<le> s \<and> s < 2 ^ 31
     then Ok (c\<lparr> rc_tracker := (rc_tracker c)\<lparr> trk_bytes_stored := of_int s \<rparr> \<rparr>)
     else Err (ArithmeticError Overflow))"

text \<open>Durations in nanoseconds; \<open>Duration::MAX\<close> is \<open>u64::MAX\<close> seconds and 999999999 nanoseconds.\<close>

definition DURATION_MAX :: nat where
  "DURATION_MAX = (2 ^ 64 - 1) * 1000000000 + 999999999"

definition oracle_limit :: "'a resource_controller \<Rightarrow> nat" where
  "oracle_limit c = unat (maximum_service_oracle_execution_ms (rc_policy c)) * 1000000"

definition remaining_service_oracle_execution_time ::
  "'a resource_controller \<Rightarrow> (nat, execution_error) result" where
  "remaining_service_oracle_execution_time c =
    (let spent = trk_service_oracle_execution (rc_tracker c) in
     if spent \<le> oracle_limit c then Ok (oracle_limit c - spent)
     else Err MaximumServiceOracleExecutionTimeExceeded)"

definition track_service_oracle_call :: "'a balance_holder \<Rightarrow> 'a resource_controller \<Rightarrow> 'a tracked" where
  "track_service_oracle_call H c =
    and_then (arith (try_add_one (trk_service_oracle_queries (rc_tracker c)))) (\<lambda>n.
      update_balance H (c\<lparr> rc_tracker := (rc_tracker c)\<lparr> trk_service_oracle_queries := n \<rparr> \<rparr>)
        (pol_service_as_oracle_query (rc_policy c)))"

definition track_service_oracle_execution :: "'a resource_controller \<Rightarrow> nat \<Rightarrow> 'a tracked" where
  "track_service_oracle_execution c execution_time =
    (let spent = min (trk_service_oracle_execution (rc_tracker c) + execution_time) DURATION_MAX in
     and_then (ensure (spent < oracle_limit c) MaximumServiceOracleExecutionTimeExceeded) (\<lambda>_.
       Ok (c\<lparr> rc_tracker := (rc_tracker c)\<lparr> trk_service_oracle_execution := spent \<rparr> \<rparr>)))"

definition track_service_oracle_response :: "'a resource_controller \<Rightarrow> nat \<Rightarrow> 'a tracked" where
  "track_service_oracle_response c response_bytes =
    and_then (ensure ((of_nat response_bytes :: u64) \<le> maximum_oracle_response_bytes (rc_policy c))
       ServiceOracleResponseTooLarge) (\<lambda>_. Ok c)"

definition track_block_size :: "'a resource_controller \<Rightarrow> nat \<Rightarrow> 'a tracked" where
  "track_block_size c sz =
    and_then (ok_or (if sz < 2 ^ 64 then checked_add (trk_block_size (rc_tracker c)) (of_nat sz) else None)
       BlockTooLarge) (\<lambda>n.
    and_then (ensure (n \<le> maximum_block_size (rc_policy c)) BlockTooLarge) (\<lambda>_.
      Ok (c\<lparr> rc_tracker := (rc_tracker c)\<lparr> trk_block_size := n \<rparr> \<rparr>)))"

subsection \<open>What an account must satisfy\<close>

text \<open>
  The contract of \<open>BalanceHolder\<close>: there is an amount of funds behind the account
  that its three methods read and change exactly, and a subtraction only fails when
  the funds are insufficient.
\<close>

locale balance_account =
  fixes H :: "'a balance_holder"
    and funds :: "'a \<Rightarrow> nat"
  assumes balance_Ok: "bh_balance H a = Ok b \<Longrightarrow> unat b = funds a"
    and balance_Err: "bh_balance H a = Err e \<Longrightarrow> 2 ^ 128 \<le> funds a"
    and sub_Ok: "bh_sub H a x = (a', Ok u) \<Longrightarrow> funds a = funds a' + unat x"
    and sub_Err: "bh_sub H a x = (a', Err e) \<Longrightarrow> funds a < unat x"
    and add_Ok: "bh_add H a x = (a', Ok u) \<Longrightarrow> funds a' = funds a + unat x"
begin

abbreviation wealth :: "'a resource_controller \<Rightarrow> nat" where
  "wealth c \<equiv> funds (rc_account c)"

lemma balance_or_max_le: "unat (balance_or_max H a) \<le> funds a"
proof (cases "bh_balance H a")
  case (Err e)
  then show ?thesis
    using balance_Err [OF Err] unat_lt [of "balance_or_max H a"] by simp
qed (simp add: balance_or_max_def balance_Ok)

lemma update_balance_paid:
  assumes "update_balance H c fees = Ok c'"
  shows "wealth c = wealth c' + unat fees \<and> rc_tracker c' = rc_tracker c \<and> rc_policy c' = rc_policy c"
  using assms by (auto simp: update_balance_def sub_Ok split: prod.splits result.splits)

lemma update_balance_refused:
  "update_balance H c fees = Err e \<Longrightarrow> wealth c < unat fees"
  by (auto simp: update_balance_def dest: sub_Err split: prod.splits result.splits)

lemma update_balance_succeeds:
  "unat fees \<le> wealth c \<Longrightarrow> \<exists>c'. update_balance H c fees = Ok c'"
  using update_balance_refused [of c fees] by (cases "update_balance H c fees") fastforce+

lemma charge_paid:
  assumes "charge H c p = Ok c'"
  shows "\<exists>fees. p = Ok fees \<and> wealth c = wealth c' + unat fees \<and>
    rc_tracker c' = rc_tracker c \<and> rc_policy c' = rc_policy c"
  using assms by (auto simp: charge_def arith_def result_elims dest: update_balance_paid)

lemma merge_balance_paid:
  assumes "merge_balance H c initial other = Ok c'"
  shows "wealth c' + unat initial = wealth c + unat other"
proof (cases "other \<le> initial")
  case True
  with assms have "update_balance H c (initial - other) = Ok c'" by (simp add: merge_balance_def)
  with True show ?thesis
    by (auto simp: unat_sub word_le_nat_alt dest!: update_balance_paid)
next
  case False
  with assms obtain a where "bh_add H (rc_account c) (other - initial) = (a, Ok ())" "rc_account c' = a"
    by (auto simp: merge_balance_def split: prod.splits result.splits)
  with False show ?thesis
    by (auto simp: unat_sub word_le_nat_alt dest!: add_Ok)
qed

lemma track_fuel_paid:
  assumes "track_fuel H c fuel vm = Ok c'"
  shows "wealth c = wealth c' + unat (fuel_unit_price (rc_policy c) vm) * unat fuel \<and>
    unat (tracker_fuel (rc_tracker c') vm) = unat (tracker_fuel (rc_tracker c) vm) + unat fuel \<and>
    tracker_fuel (rc_tracker c') vm \<le> maximum_fuel_per_block (rc_policy c) vm"
  using assms
  by (cases vm)
    (auto simp: track_fuel_def arith_def result_elims fuel_price_def tracker_fuel_def
        maximum_fuel_per_block_def word_nat dest!: charge_paid)

lemma track_fuel_within_remaining:
  assumes "fuel \<le> rc_remaining_fuel H c vm"
    and "tracker_fuel (rc_tracker c) vm \<le> maximum_fuel_per_block (rc_policy c) vm"
  shows "\<exists>c'. track_fuel H c fuel vm = Ok c'"
proof -
  let ?used = "tracker_fuel (rc_tracker c) vm" and ?max = "maximum_fuel_per_block (rc_policy c) vm"
  have "fuel \<le> policy_remaining_fuel (rc_policy c) (balance_or_max H (rc_account c)) vm"
    and "fuel \<le> saturating_sub ?max ?used"
    using assms(1) by (simp_all add: rc_remaining_fuel_def Let_def)
  then obtain fees where fees: "fuel_price (rc_policy c) fuel vm = Ok fees"
    "fees \<le> balance_or_max H (rc_account c)" and fuel: "unat ?used + unat fuel \<le> unat ?max"
    using remaining_fuel_affordable assms(2) by (force simp: word_le_nat_alt unat_saturating_sub)
  have paid: "unat fees \<le> wealth c"
    using fees(2) balance_or_max_le [of "rc_account c"] by (simp add: word_le_nat_alt)
  have "unat ?used + unat fuel < 2 ^ 64" using fuel unat_lt [of ?max] by simp
  then obtain n where n: "try_add ?used fuel = Ok n" "unat n = unat ?used + unat fuel"
    by (cases "try_add ?used fuel") (auto simp: word_nat)
  with fuel have "n \<le> ?max" by (simp add: word_le_nat_alt)
  with n(1) fees(1) paid show ?thesis
    using update_balance_succeeds
    by (cases vm) (auto simp: track_fuel_def charge_def arith_def tracker_fuel_def maximum_fuel_per_block_def)
qed

lemma track_operation_paid:
  assumes "track_operation H c op = Ok c'" and "\<And>a bs. op = UserOp a bs \<Longrightarrow> length bs < 2 ^ 64"
  shows "wealth c = wealth c' + unat (pol_operation (rc_policy c)) +
    (case op of SystemOp _ \<Rightarrow> 0 | UserOp _ bs \<Rightarrow> unat (pol_operation_byte (rc_policy c)) * length bs)"
  using assms
  by (cases op)
    (auto simp: track_operation_def arith_def result_elims operation_bytes_price_def word_nat
       unat_of_nat take_bit_nat_eq_self dest!: charge_paid update_balance_paid)

lemma track_message_paid:
  assumes "track_message H c m = Ok c'" and "\<And>a bs. m = UserMsg a bs \<Longrightarrow> length bs < 2 ^ 64"
  shows "wealth c = wealth c' + unat (pol_message (rc_policy c)) +
    (case m of SystemMsg _ \<Rightarrow> 0 | UserMsg _ bs \<Rightarrow> unat (pol_message_byte (rc_policy c)) * length bs)"
  using assms
  by (cases m)
    (auto simp: track_message_def arith_def result_elims message_bytes_price_def word_nat
       unat_of_nat take_bit_nat_eq_self dest!: charge_paid update_balance_paid)

end

subsection \<open>The two kinds of account\<close>

interpretation amount_account: balance_account amount_holder unat
  by unfold_locales
    (auto simp: amount_holder_def try_sub_assign_def try_add_assign_def word_nat split: option.splits)

lemma sources_balance_from:
  "try_fold try_add a ss = Ok b \<Longrightarrow> unat b = unat a + sum_list (map unat ss)"
  by (induction ss arbitrary: a) (auto simp: result_elims word_nat)

lemma sources_balance_overflow:
  "try_fold try_add (a :: amount) ss = Err e \<Longrightarrow> 2 ^ 128 \<le> unat a + sum_list (map unat ss)"
proof (induction ss arbitrary: a)
  case (Cons s ss)
  show ?case
  proof (cases "try_add a s")
    case (Ok b)
    with Cons.prems Cons.IH [of b] show ?thesis by (simp add: try_add_Ok)
  qed (simp add: try_add_Err)
qed simp

lemma sources_sub_funds:
  "sources_try_sub_assign ss x = (ss', r) \<Longrightarrow>
    (case r of Ok _ \<Rightarrow> sum_list (map unat ss) = sum_list (map unat ss') + unat x
             | Err e \<Rightarrow> sum_list (map unat ss) < unat x \<and> e = Underflow \<and> ss' = replicate (length ss) 0)"
proof (induction ss x arbitrary: ss' r rule: sources_try_sub_assign.induct)
  case (1 x)
  then show ?case by (auto simp: word_less_nat_alt unat_eq_0)
next
  case (2 s ss x)
  show ?case
  proof (cases "checked_sub s x")
    case None
    then have "s < x" by (simp add: checked_sub_None word_less_nat_alt)
    obtain ss1 r1 where rec: "sources_try_sub_assign ss (x - s) = (ss1, r1)" by fastforce
    from 2(2) None rec have [simp]: "ss' = 0 # ss1" "r = r1" by auto
    from 2(1) [OF None rec] \<open>s < x\<close> show ?thesis
      by (auto simp: unat_sub word_less_nat_alt order.strict_implies_order split: result.splits)
  next
    case (Some d)
    with 2(2) have "ss' = d # ss" "r = Ok ()" by auto
    moreover from Some have "unat s = unat d + unat x" by (simp add: checked_sub_Some)
    ultimately show ?thesis by simp
  qed
qed

lemma sources_add_funds:
  assumes "sources_try_add_assign ss x = (ss', Ok u)"
  shows "sum_list (map unat ss') = sum_list (map unat ss) + unat x"
  using assms
  by (cases ss rule: rev_cases)
    (auto simp: sources_try_add_assign_def try_add_assign_def word_nat split: option.splits)

interpretation sources_account: balance_account sources_holder "\<lambda>ss. sum_list (map unat ss)"
proof
  fix a b :: sources and x :: amount and e u
  show "bh_balance sources_holder a = Ok x \<Longrightarrow> unat x = sum_list (map unat a)"
    by (auto simp: sources_holder_def sources_balance_def dest: sources_balance_from)
  show "bh_balance sources_holder a = Err e \<Longrightarrow> 2 ^ 128 \<le> sum_list (map unat a)"
    by (auto simp: sources_holder_def sources_balance_def dest: sources_balance_overflow)
  show "bh_sub sources_holder a x = (b, Ok u) \<Longrightarrow> sum_list (map unat a) = sum_list (map unat b) + unat x"
    using sources_sub_funds [of a x b "Ok u"] by (simp add: sources_holder_def)
  show "bh_sub sources_holder a x = (b, Err e) \<Longrightarrow> sum_list (map unat a) < unat x"
    using sources_sub_funds [of a x b "Err e"] by (simp add: sources_holder_def)
  show "bh_add sources_holder a x = (b, Ok u) \<Longrightarrow> sum_list (map unat b) = sum_list (map unat a) + unat x"
    by (auto simp: sources_holder_def dest: sources_add_funds)
qed

subsection \<open>Properties\<close>



text \<open>
  \<^bold>\<open>C23\<close>. Charging an operation takes the price of an operation and, for a user
  operation, the price of its bytes, from the paying accounts: nothing more and
  nothing less, however the amount is spread over the accounts.
\<close>

theorem track_operation_exact:
  assumes "track_operation sources_holder c op = Ok c'"
    and "\<And>a bs. op = UserOp a bs \<Longrightarrow> length bs < 2 ^ 64"
  shows "sum_list (map unat (rc_account c)) =
    sum_list (map unat (rc_account c')) + unat (pol_operation (rc_policy c)) +
    (case op of SystemOp _ \<Rightarrow> 0 | UserOp _ bs \<Rightarrow> unat (pol_operation_byte (rc_policy c)) * length bs)"
  by (rule sources_account.track_operation_paid [OF assms(1)]) (rule assms(2))

theorem track_operation_exact_witness:
  "\<exists>c c'. track_operation sources_holder c (UserOp 1 [7, 8]) = Ok c' \<and>
    sum_list (map unat (rc_account c)) =
    sum_list (map unat (rc_account c')) + unat (pol_operation (rc_policy c)) +
      unat (pol_operation_byte (rc_policy c)) * 2"
proof -
  let ?p = "no_fees\<lparr> pol_operation := 4, pol_operation_byte := 3 \<rparr>"
  let ?c = "\<lparr> rc_policy = ?p, rc_tracker = tracker_default, rc_account = [6, 100 :: amount] \<rparr>"
  have "\<exists>c'. track_operation sources_holder ?c (UserOp 1 [7, 8]) = Ok c'"
    by (simp add: track_operation_def update_balance_def charge_def arith_def sources_holder_def
        tracker_default_def no_fees_def try_add_one_def try_add_def try_mul_def checked_add_def
        checked_sub_def checked_mul_def operation_bytes_price_def)
  then obtain c' where "track_operation sources_holder ?c (UserOp 1 [7, 8]) = Ok c'" ..
  moreover from track_operation_exact [OF this] have
    "sum_list (map unat (rc_account ?c)) =
      sum_list (map unat (rc_account c')) + unat (pol_operation (rc_policy ?c)) +
      unat (pol_operation_byte (rc_policy ?c)) * 2"
    by simp
  ultimately show ?thesis by blast
qed

text \<open>
  \<^bold>\<open>C31\<close>. A charge that the accounts cannot cover is refused, and the balance the error
  reports is zero whatever the accounts held: the failed subtraction has already
  emptied them when the balance is read.
\<close>

theorem fees_exceed_funding_reports_zero:
  assumes "sum_list (map unat (rc_account c)) < unat fees"
  shows "update_balance sources_holder c fees = Err (FeesExceedFunding fees 0)"
proof -
  obtain ss r where sub: "sources_try_sub_assign (rc_account c) fees = (ss, r)" by fastforce
  with sources_sub_funds [OF this] assms obtain e where "r = Err e" "ss = replicate (length (rc_account c)) 0"
    by (cases r) auto
  moreover have "sources_balance (replicate n 0) = Ok 0" for n
  proof (induction n)
    case (Suc n)
    moreover have "try_add (0 :: amount) 0 = Ok 0" by (simp add: try_add_Ok)
    ultimately show ?case by (simp add: sources_balance_def)
  qed (simp add: sources_balance_def)
  ultimately show ?thesis
    using sub by (simp add: update_balance_def sources_holder_def balance_or_max_def)
qed

theorem fees_exceed_funding_reports_zero_witness:
  "update_balance sources_holder
      \<lparr> rc_policy = testnet, rc_tracker = tracker_default, rc_account = [3, 5] \<rparr> 9 = Err (FeesExceedFunding 9 0)"
  by (rule fees_exceed_funding_reports_zero) simp



end
