(* ===== verification/Tracker.thy ===== *)
theory Tracker
  imports Operations
begin

text \<open>
  The transaction tracker (\<open>linera-execution/src/transaction_tracker.rs\<close>): the messages, events,
  blobs and oracle responses one transaction produces, and the replay of recorded oracle
  responses. A failed operation aborts the transaction and its tracker is dropped, so errors
  carry no tracker.
\<close>

section \<open>The model\<close>

type_synonym app_stream_updates = "(chain_id \<times> stream_id, u32 \<times> u32) btree_map"

record stream_update =
  su_chain_id :: chain_id
  su_stream_id :: stream_id
  su_previous_index :: u32
  su_next_index :: u32

record tracker =
  tt_replaying :: "oracle_response list option"
  tt_oracle_responses :: "oracle_response list"
  tt_outgoing_messages :: "outgoing_message list"
  tt_local_time :: timestamp
  tt_transaction_index :: u32
  tt_next_application_index :: u32
  tt_next_chain_index :: u32
  tt_events :: "event list"
  tt_blobs :: "(blob_id, blob_content) btree_map"
  tt_previously_created_blobs :: "(blob_id, blob_content) btree_map"
  tt_operation_result :: "bytes option"
  tt_streams_to_process :: "(application_id, app_stream_updates) btree_map"
  tt_blobs_published :: "blob_id btree_set"

record transaction_outcome =
  to_oracle_responses :: "oracle_response list"
  to_outgoing_messages :: "outgoing_message list"
  to_next_application_index :: u32
  to_next_chain_index :: u32
  to_events :: "event list"
  to_blobs :: "blob list"
  to_operation_result :: bytes
  to_blobs_published :: "blob_id btree_set"

definition TransactionTracker_new ::
  "timestamp \<Rightarrow> u32 \<Rightarrow> u32 \<Rightarrow> u32 \<Rightarrow> oracle_response list option \<Rightarrow> blob list list \<Rightarrow> tracker" where
  "TransactionTracker_new local_time transaction_index app_index chain_index responses blobs =
    \<lparr> tt_replaying = responses, tt_oracle_responses = [], tt_outgoing_messages = [],
      tt_local_time = local_time, tt_transaction_index = transaction_index,
      tt_next_application_index = app_index, tt_next_chain_index = chain_index,
      tt_events = [], tt_blobs = [],
      tt_previously_created_blobs = fold (\<lambda>b. btm_insert (blob_id_of b) (blob_content b)) (concat blobs) [],
      tt_operation_result = None, tt_streams_to_process = [], tt_blobs_published = [] \<rparr>"

definition with_blobs :: "tracker \<Rightarrow> (blob_id, blob_content) btree_map \<Rightarrow> tracker" where
  "with_blobs t blobs = t\<lparr> tt_blobs := blobs \<rparr>"

definition set_local_time :: "tracker \<Rightarrow> timestamp \<Rightarrow> tracker" where
  "set_local_time t local_time = t\<lparr> tt_local_time := local_time \<rparr>"

definition next_application_index :: "tracker \<Rightarrow> tracker \<times> u32" where
  "next_application_index t =
    (t\<lparr> tt_next_application_index := tt_next_application_index t + 1 \<rparr>, tt_next_application_index t)"

definition next_chain_index :: "tracker \<Rightarrow> tracker \<times> u32" where
  "next_chain_index t = (t\<lparr> tt_next_chain_index := tt_next_chain_index t + 1 \<rparr>, tt_next_chain_index t)"

definition add_outgoing_message :: "tracker \<Rightarrow> outgoing_message \<Rightarrow> tracker" where
  "add_outgoing_message t m = t\<lparr> tt_outgoing_messages := tt_outgoing_messages t @ [m] \<rparr>"

definition add_outgoing_messages :: "tracker \<Rightarrow> outgoing_message list \<Rightarrow> tracker" where
  "add_outgoing_messages t ms = foldl add_outgoing_message t ms"

definition add_event :: "tracker \<Rightarrow> stream_id \<Rightarrow> u32 \<Rightarrow> bytes \<Rightarrow> tracker" where
  "add_event t stream index v =
    t\<lparr> tt_events := tt_events t @ [\<lparr> event_stream_id = stream, event_index = index, event_value = v \<rparr>] \<rparr>"

definition get_blob_content :: "tracker \<Rightarrow> blob_id \<Rightarrow> blob_content option" where
  "get_blob_content t bid =
    (case btm_get (tt_blobs t) bid of
       Some content \<Rightarrow> Some content
     | None \<Rightarrow> btm_get (tt_previously_created_blobs t) bid)"

definition add_created_blob :: "tracker \<Rightarrow> blob \<Rightarrow> tracker" where
  "add_created_blob t b = t\<lparr> tt_blobs := btm_insert (blob_id_of b) (blob_content b) (tt_blobs t) \<rparr>"

definition add_published_blob :: "tracker \<Rightarrow> blob_id \<Rightarrow> tracker" where
  "add_published_blob t bid = t\<lparr> tt_blobs_published := bts_insert bid (tt_blobs_published t) \<rparr>"

definition add_operation_result :: "tracker \<Rightarrow> bytes option \<Rightarrow> tracker" where
  "add_operation_result t r = t\<lparr> tt_operation_result := r \<rparr>"

definition next_replayed_oracle_response :: "tracker \<Rightarrow> (tracker \<times> oracle_response option, execution_error) result" where
  "next_replayed_oracle_response t =
    (case tt_replaying t of
       None \<Rightarrow> Ok (t, None)
     | Some [] \<Rightarrow> Err MissingOracleResponse
     | Some (r # rest) \<Rightarrow> Ok (t\<lparr> tt_replaying := Some rest \<rparr>, Some r))"

definition tracker_oracle ::
  "tracker \<Rightarrow> (oracle_response, execution_error) result \<Rightarrow> (tracker \<times> oracle_response, execution_error) result" where
  "tracker_oracle t f =
    and_then (next_replayed_oracle_response t) (\<lambda>(t, replayed).
    and_then (case replayed of Some r \<Rightarrow> Ok r | None \<Rightarrow> f) (\<lambda>r.
    Ok (t\<lparr> tt_oracle_responses := tt_oracle_responses t @ [r] \<rparr>, r)))"

definition replay_oracle_response :: "tracker \<Rightarrow> oracle_response \<Rightarrow> (tracker \<times> bool, execution_error) result" where
  "replay_oracle_response t r =
    and_then (next_replayed_oracle_response t) (\<lambda>(t, recorded).
    and_then (case recorded of
                Some r' \<Rightarrow> and_then (ensure (r' = r) OracleResponseMismatch) (\<lambda>_. Ok True)
              | None \<Rightarrow> Ok False) (\<lambda>replaying.
    Ok (t\<lparr> tt_oracle_responses := tt_oracle_responses t @ [r] \<rparr>, replaying)))"

definition add_stream_to_process ::
  "tracker \<Rightarrow> application_id \<Rightarrow> chain_id \<Rightarrow> stream_id \<Rightarrow> u32 \<Rightarrow> u32 \<Rightarrow> tracker" where
  "add_stream_to_process t app chain stream previous_index next_index =
    (if next_index = previous_index then t
     else
       let streams = (case btm_get (tt_streams_to_process t) app of None \<Rightarrow> [] | Some s \<Rightarrow> s);
           entry = (case btm_get streams (chain, stream) of
                      Some (pi, ni) \<Rightarrow> (min pi previous_index, max ni next_index)
                    | None \<Rightarrow> (previous_index, next_index))
       in t\<lparr> tt_streams_to_process :=
              btm_insert app (btm_insert (chain, stream) entry streams) (tt_streams_to_process t) \<rparr>)"

definition remove_stream_to_process :: "tracker \<Rightarrow> application_id \<Rightarrow> chain_id \<Rightarrow> stream_id \<Rightarrow> tracker" where
  "remove_stream_to_process t app chain stream =
    (case btm_get (tt_streams_to_process t) app of
       None \<Rightarrow> t
     | Some streams \<Rightarrow>
        let rest = btm_remove (chain, stream) streams in
        if btm_get streams (chain, stream) \<noteq> None \<and> rest = []
        then t\<lparr> tt_streams_to_process := btm_remove app (tt_streams_to_process t) \<rparr>
        else t\<lparr> tt_streams_to_process := btm_insert app rest (tt_streams_to_process t) \<rparr>)"

definition take_streams_to_process :: "tracker \<Rightarrow> tracker \<times> (application_id, stream_update list) btree_map" where
  "take_streams_to_process t =
    (t\<lparr> tt_streams_to_process := [] \<rparr>,
     map (\<lambda>(app, streams). (app,
       map (\<lambda>((chain, stream), (pi, ni)).
         \<lparr> su_chain_id = chain, su_stream_id = stream, su_previous_index = pi, su_next_index = ni \<rparr>) streams))
       (tt_streams_to_process t))"

definition into_outcome :: "tracker \<Rightarrow> (transaction_outcome, execution_error) result" where
  "into_outcome t =
    and_then (ensure (tt_streams_to_process t = []) UnprocessedStreams) (\<lambda>_.
    and_then (case tt_replaying t of
                None \<Rightarrow> Ok () | Some rs \<Rightarrow> ensure (rs = []) UnexpectedOracleResponse) (\<lambda>_.
    Ok \<lparr> to_oracle_responses = tt_oracle_responses t, to_outgoing_messages = tt_outgoing_messages t,
         to_next_application_index = tt_next_application_index t, to_next_chain_index = tt_next_chain_index t,
         to_events = tt_events t,
         to_blobs = map (\<lambda>(bid, content). \<lparr> blob_hash = id_hash bid, blob_content = content \<rparr>) (tt_blobs t),
         to_operation_result = (case tt_operation_result t of None \<Rightarrow> [] | Some r \<Rightarrow> r),
         to_blobs_published = tt_blobs_published t \<rparr>))"

lemma add_outgoing_messages_eq:
  "add_outgoing_messages t ms = t\<lparr> tt_outgoing_messages := tt_outgoing_messages t @ ms \<rparr>"
  by (induction ms arbitrary: t) (simp_all add: add_outgoing_messages_def add_outgoing_message_def)

end
