(* ===== verification/Committee.thy ===== *)
theory Committee
  imports Policy
begin

text \<open>
  Committees of validators (\<open>linera-execution/src/committee.rs\<close>): the voting rights, the
  quorum and validity thresholds computed on 64-bit integers, the two serialised
  forms, and the intersection property the consensus rests on. The additions of
  \<open>Committee::new\<close> wrap around, as in an optimised build.
\<close>

type_synonym validator_public_key = "264 word"

datatype account_public_key = Ed25519Key "256 word" | Secp256k1Key "264 word" | EvmSecp256k1Key "264 word"

record validator_state =
  network_address :: string
  votes :: u64
  account_public_key :: account_public_key

record committee =
  validators :: "(validator_public_key, validator_state) btree_map"
  total_votes :: u64
  quorum_threshold :: u64
  validity_threshold :: u64
  committee_policy :: resource_control_policy

definition div_ceil :: "'a::len word \<Rightarrow> 'a word \<Rightarrow> 'a word" where
  "div_ceil a b = (if a mod b = 0 then a div b else a div b + 1)"

definition Committee_new ::
  "(validator_public_key, validator_state) btree_map \<Rightarrow> resource_control_policy \<Rightarrow> committee" where
  "Committee_new vs p =
    (let total = foldl (\<lambda>s st. s + votes st) 0 (map snd vs)
     in \<lparr> validators = vs, total_votes = total, quorum_threshold = 2 * total div 3 + 1,
          validity_threshold = div_ceil total 3, committee_policy = p \<rparr>)"

definition weight :: "committee \<Rightarrow> validator_public_key \<Rightarrow> u64" where
  "weight c author = (case btm_get (validators c) author of Some st \<Rightarrow> votes st | None \<Rightarrow> 0)"

definition keys_and_weights :: "committee \<Rightarrow> (validator_public_key \<times> u64) list" where
  "keys_and_weights c = map (\<lambda>(name, st). (name, votes st)) (validators c)"

definition account_keys_and_weights :: "committee \<Rightarrow> (account_public_key \<times> u64) list" where
  "account_keys_and_weights c = map (\<lambda>(_, st). (account_public_key st, votes st)) (validators c)"

definition committee_network_address :: "committee \<Rightarrow> validator_public_key \<Rightarrow> string option" where
  "committee_network_address c author = map_option network_address (btm_get (validators c) author)"

definition validator_addresses :: "committee \<Rightarrow> (validator_public_key \<times> string) list" where
  "validator_addresses c = map (\<lambda>(name, st). (name, network_address st)) (validators c)"

subsection \<open>Serialised forms\<close>

record committee_full =
  full_validators :: "(validator_public_key, validator_state) btree_map"
  full_total_votes :: u64
  full_quorum_threshold :: u64
  full_validity_threshold :: u64
  full_policy :: resource_control_policy

record committee_minimal =
  min_validators :: "(validator_public_key, validator_state) btree_map"
  min_policy :: resource_control_policy

datatype committee_error = InvalidTotalVotes u64 u64 | InvalidQuorumThreshold u64 u64 | InvalidValidityThreshold u64 u64

definition committee_try_from_full :: "committee_full \<Rightarrow> (committee, committee_error) result" where
  "committee_try_from_full f =
    (let c = Committee_new (full_validators f) (full_policy f) in
     if full_total_votes f \<noteq> total_votes c
     then Err (InvalidTotalVotes (full_total_votes f) (total_votes c))
     else if full_quorum_threshold f \<noteq> quorum_threshold c
     then Err (InvalidQuorumThreshold (full_quorum_threshold f) (quorum_threshold c))
     else if full_validity_threshold f \<noteq> validity_threshold c
     then Err (InvalidValidityThreshold (full_validity_threshold f) (validity_threshold c))
     else Ok c)"

definition full_from_committee :: "committee \<Rightarrow> committee_full" where
  "full_from_committee c =
    \<lparr> full_validators = validators c, full_total_votes = total_votes c,
      full_quorum_threshold = quorum_threshold c, full_validity_threshold = validity_threshold c,
      full_policy = committee_policy c \<rparr>"

definition committee_from_minimal :: "committee_minimal \<Rightarrow> committee" where
  "committee_from_minimal m = Committee_new (min_validators m) (min_policy m)"

definition minimal_from_committee :: "committee \<Rightarrow> committee_minimal" where
  "minimal_from_committee c = \<lparr> min_validators = validators c, min_policy = committee_policy c \<rparr>"

subsection \<open>Thresholds\<close>

definition committee_members :: "committee \<Rightarrow> validator_public_key set" where
  "committee_members c = set (btm_keys (validators c))"

definition total_weight :: "(validator_public_key, validator_state) btree_map \<Rightarrow> nat" where
  "total_weight vs = sum_list (map (\<lambda>(_, st). unat (votes st)) vs)"

text \<open>
  A committee built by \<open>Committee::new\<close> whose voting rights add up to less than
  \<open>2\<^sup>6\<^sup>3\<close>, so that neither the sum nor its double wraps around.
\<close>

definition committee_ok :: "committee \<Rightarrow> bool" where
  "committee_ok c \<longleftrightarrow> btm_ok (validators c) \<and>
    c = Committee_new (validators c) (committee_policy c) \<and> total_weight (validators c) < 2 ^ 63"

lemma unat_add_small:
  "unat a + unat b < 2 ^ LENGTH('a) \<Longrightarrow> unat (a + b) = unat a + unat b" for a b :: "'a::len word"
  by (simp add: unat_word_ariths)

lemma foldl_votes:
  assumes "unat a + total_weight vs < 2 ^ 64"
  shows "unat (foldl (\<lambda>s st. s + votes st) a (map snd vs)) = unat a + total_weight vs"
  using assms
proof (induction vs arbitrary: a)
  case (Cons e vs)
  have eq: "total_weight (e # vs) = unat (votes (snd e)) + total_weight vs"
    by (simp add: total_weight_def case_prod_unfold)
  have "unat a + unat (votes (snd e)) < 2 ^ 64" using Cons.prems eq by simp
  then have "unat (a + votes (snd e)) = unat a + unat (votes (snd e))"
    by (simp add: unat_word_ariths)
  then show ?case using Cons.IH [of "a + votes (snd e)"] Cons.prems eq by simp
qed (simp add: total_weight_def)

lemma committee_ok_total:
  assumes "committee_ok c"
  shows "unat (total_votes c) = total_weight (validators c)"
proof -
  have "total_votes c = foldl (\<lambda>s st. s + votes st) 0 (map snd (validators c))"
    using assms unfolding committee_ok_def
    by (metis (no_types, lifting) Committee_new_def committee.select_convs(2))
  moreover have "total_weight (validators c) < 2 ^ 64" using assms by (simp add: committee_ok_def)
  ultimately show ?thesis using foldl_votes [of 0 "validators c"] by simp
qed

lemma unat_quorum:
  assumes "unat t < 2 ^ 63"
  shows "unat (2 * t div 3 + 1 :: u64) = 2 * unat t div 3 + 1"
proof -
  have "unat (2 * t) = 2 * unat t" using assms by (simp add: unat_word_ariths)
  then have d: "unat (2 * t div 3) = 2 * unat t div 3" by (simp add: unat_div)
  have "unat (2 * t div 3) + unat (1 :: u64) < 2 ^ 64" unfolding d using assms by simp
  then show ?thesis using unat_add_small [of "2 * t div 3" 1] by (simp only: d unsigned_1 len_of_numeral_defs) simp
qed

lemma unat_div_ceil:
  "unat (div_ceil t 3 :: u64) = (unat t + 2) div 3"
proof -
  have m: "t mod 3 = 0 \<longleftrightarrow> unat t mod 3 = 0"
    by (simp add: word_unat_eq_iff unat_mod)
  have "unat t div 3 + 1 < 2 ^ 64" using unat_lt [of t] by simp
  then have "unat (t div 3 + 1) = unat t div 3 + 1"
    by (simp add: unat_word_ariths unat_div)
  then show ?thesis
    by (cases "t mod 3 = 0") (simp_all add: div_ceil_def m unat_div, presburger+)
qed

lemma committee_ok_fields:
  assumes "committee_ok c"
  shows "unat (quorum_threshold c) = 2 * total_weight (validators c) div 3 + 1"
    and "unat (validity_threshold c) = (total_weight (validators c) + 2) div 3"
proof -
  have "quorum_threshold c = 2 * total_votes c div 3 + 1" "validity_threshold c = div_ceil (total_votes c) 3"
    using assms unfolding committee_ok_def
    by (metis (no_types, lifting) Committee_new_def committee.select_convs(2-4))+
  then show "unat (quorum_threshold c) = 2 * total_weight (validators c) div 3 + 1"
    and "unat (validity_threshold c) = (total_weight (validators c) + 2) div 3"
    using assms committee_ok_total [OF assms] unat_quorum [of "total_votes c"]
    by (simp_all add: unat_div_ceil committee_ok_def)
qed

lemma weight_eq: "btm_ok (validators c) \<Longrightarrow> (k, st) \<in> set (validators c) \<Longrightarrow> weight c k = votes st"
  by (simp add: weight_def btm_get_iff_mem [symmetric])

lemma sum_weight_members:
  assumes "btm_ok (validators c)"
  shows "(\<Sum>k \<in> committee_members c. unat (weight c k)) = total_weight (validators c)"
proof -
  let ?vs = "validators c"
  have "(\<Sum>k \<in> committee_members c. unat (weight c k)) = sum_list (map (\<lambda>k. unat (weight c k)) (btm_keys ?vs))"
    unfolding committee_members_def
    using assms by (intro sum.distinct_set_conv_list btm_ok_distinct)
  also have "\<dots> = sum_list (map (\<lambda>e. unat (weight c (fst e))) ?vs)" by (simp add: comp_def)
  also have "\<dots> = total_weight ?vs"
    unfolding total_weight_def
    by (intro arg_cong [where f = sum_list] map_cong) (auto simp: weight_eq [OF assms])
  finally show ?thesis .
qed

lemma thirds:
  assumes "0 < (N :: nat)"
  shows "2 * N div 3 + 1 = N - (N - 1) div 3 \<and> (N + 2) div 3 = (N - 1) div 3 + 1 \<and> 3 * ((N - 1) div 3) + 1 \<le> N"
proof -
  obtain f k where N: "N = 3 * f + 1 + k" and k: "k < 3"
    using assms that [of "(N - 1) div 3" "(N - 1) mod 3"] by simp
  have "(N - 1) div 3 = f" using N k by (simp add: div_nat_eqI)
  moreover have "2 * N div 3 = 2 * f + k" using N k by (intro div_nat_eqI) simp_all
  moreover have "(N + 2) div 3 = f + 1" using N k by (intro div_nat_eqI) simp_all
  ultimately show ?thesis using N k by simp
qed

subsection \<open>Quorums\<close>

text \<open>
  What the consensus needs from a committee: quorums weigh more than two thirds of
  the members. Two quorums then share more weight than the faulty validators have,
  as long as these hold less than a third.
\<close>

locale quorum_system =
  fixes members :: "'c \<Rightarrow> 'v set"
    and weight_of :: "'c \<Rightarrow> 'v \<Rightarrow> nat"
    and quorum :: "'c \<Rightarrow> nat"
    and ok :: "'c \<Rightarrow> bool"
  assumes finite_members: "ok c \<Longrightarrow> finite (members c)"
    and two_thirds: "ok c \<Longrightarrow> 2 * sum (weight_of c) (members c) < 3 * quorum c"
begin

definition tolerates :: "'c \<Rightarrow> 'v set \<Rightarrow> bool" where
  "tolerates c F \<longleftrightarrow> 3 * sum (weight_of c) (members c \<inter> F) < sum (weight_of c) (members c)"

definition is_quorum :: "'c \<Rightarrow> 'v set \<Rightarrow> bool" where
  "is_quorum c Q \<longleftrightarrow> Q \<subseteq> members c \<and> quorum c \<le> sum (weight_of c) Q"

lemma quorums_share:
  assumes "ok c" and "is_quorum c Q" and "is_quorum c R"
  shows "2 * quorum c \<le> sum (weight_of c) (members c) + sum (weight_of c) (Q \<inter> R)"
proof -
  let ?w = "weight_of c"
  have sub: "Q \<subseteq> members c" "R \<subseteq> members c" and fin: "finite Q" "finite R"
    using assms finite_members by (auto simp: is_quorum_def intro: finite_subset)
  have "sum ?w Q + sum ?w R = sum ?w (Q \<union> R) + sum ?w (Q \<inter> R)"
    using sum.union_inter [OF fin, of ?w] by simp
  moreover have "sum ?w (Q \<union> R) \<le> sum ?w (members c)"
    using sub finite_members [OF assms(1)] by (intro sum_mono2) auto
  ultimately show ?thesis using assms(2,3) by (simp add: is_quorum_def)
qed

lemma quorums_meet:
  assumes "ok c" and "tolerates c F" and "is_quorum c Q" and "is_quorum c R"
  shows "\<exists>v. v \<in> Q \<and> v \<in> R \<and> v \<in> members c \<and> v \<notin> F"
proof (rule ccontr)
  assume "\<not> ?thesis"
  then have "Q \<inter> R \<subseteq> members c \<inter> F" using assms(3) by (auto simp: is_quorum_def)
  then have "sum (weight_of c) (Q \<inter> R) \<le> sum (weight_of c) (members c \<inter> F)"
    using finite_members [OF assms(1)] by (intro sum_mono2) auto
  with quorums_share [OF assms(1,3,4)] two_thirds [OF assms(1)] assms(2)
  show False by (simp add: tolerates_def)
qed

lemma quorum_has_correct:
  assumes "ok c" and "tolerates c F" and "is_quorum c Q"
  shows "\<exists>v. v \<in> Q \<and> v \<in> members c \<and> v \<notin> F"
  using quorums_meet [OF assms assms(3)] by blast

end

abbreviation weight_nat :: "committee \<Rightarrow> validator_public_key \<Rightarrow> nat" where
  "weight_nat c k \<equiv> unat (weight c k)"

interpretation committee_quorums: quorum_system committee_members weight_nat
  "\<lambda>c. unat (quorum_threshold c)" committee_ok
proof
  fix c
  assume ok: "committee_ok c"
  show "finite (committee_members c)" by (simp add: committee_members_def)
  show "2 * sum (weight_nat c) (committee_members c) < 3 * unat (quorum_threshold c)"
    using ok committee_ok_fields(1) [OF ok] by (simp add: sum_weight_members committee_ok_def)
qed

text \<open>
  \<^bold>\<open>C12\<close>. The thresholds of a committee are the ones of the comment in \<open>Committee::new\<close>: for
  \<open>N\<close> voting rights and \<open>f = (N - 1) div 3\<close>, the quorum threshold is \<open>N - f\<close> and the
  validity threshold \<open>f + 1\<close>. Two quorums share at least the validity threshold of
  voting rights, so a member outside every set of faulty members of weight at most
  \<open>f\<close>.
\<close>

theorem committee_thresholds:
  assumes "committee_ok c" and "0 < total_weight (validators c)"
    and "Q \<subseteq> committee_members c" and "unat (quorum_threshold c) \<le> sum (weight_nat c) Q"
    and "R \<subseteq> committee_members c" and "unat (quorum_threshold c) \<le> sum (weight_nat c) R"
  shows "let N = total_weight (validators c); f = (N - 1) div 3 in
    unat (total_votes c) = N \<and> unat (quorum_threshold c) = N - f \<and> unat (validity_threshold c) = f + 1 \<and>
    f + 1 \<le> sum (weight_nat c) (Q \<inter> R)"
proof -
  let ?N = "total_weight (validators c)"
  have "2 * unat (quorum_threshold c) \<le> ?N + sum (weight_nat c) (Q \<inter> R)"
    using committee_quorums.quorums_share [OF assms(1), of Q R] assms
    by (simp add: committee_quorums.is_quorum_def sum_weight_members committee_ok_def)
  moreover define f where "f = (?N - 1) div 3"
  have "2 * ?N div 3 + 1 = ?N - f" "(?N + 2) div 3 = f + 1" "3 * f + 1 \<le> ?N"
    using thirds [OF assms(2)] unfolding f_def by blast+
  then have q: "unat (quorum_threshold c) = ?N - f" and v: "unat (validity_threshold c) = f + 1"
    using committee_ok_fields [OF assms(1)] by (simp_all only:)
  moreover from \<open>3 * f + 1 \<le> ?N\<close> calculation have "f + 1 \<le> sum (weight_nat c) (Q \<inter> R)"
    by simp
  ultimately show ?thesis
    using committee_ok_total [OF assms(1)] unfolding Let_def f_def [symmetric] by blast
qed

definition demo_committee :: committee where
  "demo_committee = Committee_new
    (map (\<lambda>k. (k, \<lparr> network_address = '''', votes = 100, account_public_key = Ed25519Key 0 \<rparr>)) [1, 2, 3, 4])
    no_fees"

lemma demo_committee_ok: "committee_ok demo_committee"
  by (simp add: committee_ok_def demo_committee_def Committee_new_def btm_ok_def total_weight_def)

theorem committee_thresholds_witness:
  "let N = total_weight (validators demo_committee); f = (N - 1) div 3 in
    unat (total_votes demo_committee) = N \<and> unat (quorum_threshold demo_committee) = N - f \<and>
    unat (validity_threshold demo_committee) = f + 1 \<and>
    f + 1 \<le> sum (weight_nat demo_committee) ({1, 2, 3} \<inter> {2, 3, 4})"
  by (rule committee_thresholds)
    (simp_all add: demo_committee_ok, simp_all add: demo_committee_def Committee_new_def
      total_weight_def committee_members_def weight_def)




end
