(* ===== verification/System.thy ===== *)
theory System
  imports Tracker Resources Committee
begin

text \<open>
  The execution state of the system application (\<open>linera-execution/src/system.rs\<close>): balances,
  ownership, committees, used blobs and event subscriptions of a chain, system operations
  and system messages. What the runtime context reads from storage (blobs, events, committees and
  the network description) is the record \<open>exec_ctx\<close>; BCS encodings and the hash of a blob
  are the record \<open>codec\<close>; both are parameters. An error aborts the block and its changes are
  rolled back, so errors carry no state.
\<close>

section \<open>The model\<close>

record event_subscriptions =
  es_next_index :: u32
  es_applications :: "application_id btree_set"

record system_state =
  sy_description :: "chain_description option"
  sy_epoch :: epoch
  sy_admin_id :: "chain_id option"
  sy_committees :: "(epoch, committee) btree_map"
  sy_ownership :: chain_ownership
  sy_balance :: amount
  sy_balances :: "(account_owner, amount) btree_map"
  sy_timestamp :: timestamp
  sy_closed :: bool
  sy_application_permissions :: application_permissions
  sy_used_blobs :: "blob_id btree_set"
  sy_event_subscriptions :: "(chain_id \<times> stream_id, event_subscriptions) btree_map"

record exec_ctx =
  xc_chain_id :: chain_id
  xc_get_blob :: "blob_id \<Rightarrow> blob_content option"
  xc_contains_blob :: "blob_id \<Rightarrow> bool"
  xc_get_event :: "event_id \<Rightarrow> bytes option"
  xc_contains_event :: "event_id \<Rightarrow> bool"
  xc_committees_for :: "epoch \<Rightarrow> epoch \<Rightarrow> ((epoch, committee) btree_map, execution_error) result"
  xc_admin_chain_id :: "chain_id option"

record codec =
  cd_content_hash :: "blob_content \<Rightarrow> crypto_hash"
  cd_encode_chain :: "chain_description \<Rightarrow> bytes"
  cd_decode_chain :: "bytes \<Rightarrow> chain_description option"
  cd_encode_application :: "application_description \<Rightarrow> bytes"
  cd_decode_application :: "bytes \<Rightarrow> application_description option"
  cd_decode_committee :: "bytes \<Rightarrow> committee option"
  cd_encode_hash :: "crypto_hash \<Rightarrow> bytes"
  cd_decode_hash :: "bytes \<Rightarrow> crypto_hash option"

definition EPOCH_STREAM_NAME :: bytes where "EPOCH_STREAM_NAME = [0]"
definition REMOVED_EPOCH_STREAM_NAME :: bytes where "REMOVED_EPOCH_STREAM_NAME = [1]"

definition StreamId_system :: "bytes \<Rightarrow> stream_id" where
  "StreamId_system name = StreamId System_app name"

definition account_owner_of_application :: "application_id \<Rightarrow> account_owner" where
  "account_owner_of_application a = Address32 a"

subsection \<open>Hashes of descriptions\<close>

text \<open>The last 12 bytes of a hash, which is read as a big-endian number, are cleared.\<close>

definition make_evm_compatible :: "crypto_hash \<Rightarrow> crypto_hash" where
  "make_evm_compatible h = push_bit 96 (drop_bit 96 h)"

definition content_new_application_description :: "codec \<Rightarrow> application_description \<Rightarrow> blob_content" where
  "content_new_application_description cd d =
    \<lparr> content_blob_type = ApplicationDescriptionBlob, content_bytes = cd_encode_application cd d \<rparr>"

definition content_new_chain_description :: "codec \<Rightarrow> chain_description \<Rightarrow> blob_content" where
  "content_new_chain_description cd d =
    \<lparr> content_blob_type = ChainDescriptionBlob, content_bytes = cd_encode_chain cd d \<rparr>"

definition application_id_of :: "codec \<Rightarrow> application_description \<Rightarrow> application_id" where
  "application_id_of cd d =
    (let hash = cd_content_hash cd (content_new_application_description cd d) in
     case mod_vm_runtime (ad_module_id d) of Evm \<Rightarrow> make_evm_compatible hash | Wasm \<Rightarrow> hash)"

definition chain_id_of :: "codec \<Rightarrow> chain_description \<Rightarrow> chain_id" where
  "chain_id_of cd d = cd_content_hash cd (content_new_chain_description cd d)"

definition Blob_new :: "codec \<Rightarrow> blob_content \<Rightarrow> blob option" where
  "Blob_new cd content =
    (let hash = cd_content_hash cd content in
     if content_blob_type content = ApplicationDescriptionBlob then
       case cd_decode_application cd (content_bytes content) of
         None \<Rightarrow> None
       | Some d \<Rightarrow> Some \<lparr> blob_hash = (case mod_vm_runtime (ad_module_id d) of
                                       Evm \<Rightarrow> make_evm_compatible hash | Wasm \<Rightarrow> hash),
                          blob_content = content \<rparr>
     else Some \<lparr> blob_hash = hash, blob_content = content \<rparr>)"

definition description_blob_id :: "application_id \<Rightarrow> blob_id" where
  "description_blob_id a = BlobId ApplicationDescriptionBlob a"

subsection \<open>Paying for resources from the accounts of the chain\<close>

definition with_state_and_grant ::
  "system_state \<Rightarrow> amount option \<Rightarrow> account_owner option resource_controller
    \<Rightarrow> (sources resource_controller \<Rightarrow> sources tracked)
    \<Rightarrow> (system_state \<times> amount option \<times> account_owner option resource_controller, execution_error) result" where
  "with_state_and_grant s grant rc f =
    (let first = (case grant of Some g \<Rightarrow> g | None \<Rightarrow> sy_balance s);
         owned = Option.bind (rc_account rc) (\<lambda>owner. map_option (Pair owner) (btm_get (sy_balances s) owner));
         sources = first # (case owned of None \<Rightarrow> [] | Some (_, b) \<Rightarrow> [b])
     in and_then (f \<lparr> rc_policy = rc_policy rc, rc_tracker = rc_tracker rc, rc_account = sources \<rparr>) (\<lambda>rc'.
        let paid = rc_account rc';
            s = (case owned of
                   None \<Rightarrow> s | Some (owner, _) \<Rightarrow> s\<lparr> sy_balances := btm_insert owner (paid ! 1) (sy_balances s) \<rparr>);
            rc = rc\<lparr> rc_tracker := rc_tracker rc' \<rparr>
        in Ok (case grant of
                 Some _ \<Rightarrow> (s, Some (paid ! 0), rc)
               | None \<Rightarrow> (s\<lparr> sy_balance := paid ! 0 \<rparr>, None, rc))))"

definition with_state ::
  "system_state \<Rightarrow> account_owner option resource_controller \<Rightarrow> (sources resource_controller \<Rightarrow> sources tracked)
    \<Rightarrow> (system_state \<times> account_owner option resource_controller, execution_error) result" where
  "with_state s rc f = and_then (with_state_and_grant s None rc f) (\<lambda>(s, _, rc). Ok (s, rc))"

subsection \<open>Committees\<close>

definition current_committee :: "system_state \<Rightarrow> (epoch \<times> committee) option" where
  "current_committee s = map_option (Pair (sy_epoch s)) (btm_get (sy_committees s) (sy_epoch s))"

definition system_is_active :: "system_state \<Rightarrow> bool" where
  "system_is_active s \<longleftrightarrow>
    sy_description s \<noteq> None \<and> ownership_is_active (sy_ownership s) \<and> current_committee s \<noteq> None \<and> sy_admin_id s \<noteq> None"

definition ctx_get_event :: "exec_ctx \<Rightarrow> event_id \<Rightarrow> (bytes, execution_error) result" where
  "ctx_get_event cx e = ok_or (xc_get_event cx e) (EventsNotFound [e])"

definition check_next_epoch :: "system_state \<Rightarrow> epoch \<Rightarrow> (unit, execution_error) result" where
  "check_next_epoch s provided =
    and_then (map_err ArithmeticError (try_add_one (sy_epoch s))) (\<lambda>expected.
    ensure (provided = expected) (InvalidCommitteeEpoch provided expected))"

subsection \<open>Balances\<close>

definition credit :: "system_state \<Rightarrow> account_owner \<Rightarrow> amount \<Rightarrow> system_state" where
  "credit s owner a =
    (if owner = CHAIN then s\<lparr> sy_balance := saturating_add (sy_balance s) a \<rparr>
     else
       let balance = (case btm_get (sy_balances s) owner of None \<Rightarrow> 0 | Some b \<Rightarrow> b)
       in s\<lparr> sy_balances := btm_insert owner (saturating_add balance a) (sy_balances s) \<rparr>)"

definition debit :: "system_state \<Rightarrow> account_owner \<Rightarrow> amount \<Rightarrow> (system_state, execution_error) result" where
  "debit s account a =
    (if account = CHAIN then
       case try_sub_assign (sy_balance s) a of
         (b, Err _) \<Rightarrow> Err (InsufficientBalance b account)
       | (b, Ok _) \<Rightarrow> Ok (s\<lparr> sy_balance := b \<rparr>)
     else
       and_then (ok_or (btm_get (sy_balances s) account) (InsufficientBalance 0 account)) (\<lambda>balance.
       case try_sub_assign balance a of
         (b, Err _) \<Rightarrow> Err (InsufficientBalance b account)
       | (b, Ok _) \<Rightarrow>
          Ok (if b = 0 then s\<lparr> sy_balances := btm_remove account (sy_balances s) \<rparr>
              else s\<lparr> sy_balances := btm_insert account b (sy_balances s) \<rparr>)))"

definition credit_or_send_message ::
  "exec_ctx \<Rightarrow> system_state \<Rightarrow> account_owner \<Rightarrow> account \<Rightarrow> amount \<Rightarrow> system_state \<times> outgoing_message option" where
  "credit_or_send_message cx s source recipient a =
    (if account_chain_id recipient = xc_chain_id cx then (credit s (account_owner recipient) a, None)
     else (s, Some (with_kind
            (OutgoingMessage_new (account_chain_id recipient) (SystemMsg (Credit (account_owner recipient) a source)))
            Tracked)))"

definition transfer ::
  "exec_ctx \<Rightarrow> system_state \<Rightarrow> account_owner option \<Rightarrow> application_id option \<Rightarrow> account_owner \<Rightarrow> account \<Rightarrow> amount
    \<Rightarrow> (system_state \<times> outgoing_message option, execution_error) result" where
  "transfer cx s authenticated_signer authenticated_application_id source recipient a =
    and_then
      (if source = CHAIN
       then ensure (case authenticated_signer of
                      None \<Rightarrow> False | Some signer \<Rightarrow> ownership_verify_owner (sy_ownership s) signer)
              UnauthenticatedTransferOwner
       else ensure (authenticated_signer = Some source \<or>
                    map_option account_owner_of_application authenticated_application_id = Some source)
              UnauthenticatedTransferOwner) (\<lambda>_.
    and_then (ensure (0 < a) IncorrectTransferAmount) (\<lambda>_.
    and_then (debit s source a) (\<lambda>s.
    Ok (credit_or_send_message cx s source recipient a))))"

definition claim ::
  "exec_ctx \<Rightarrow> system_state \<Rightarrow> account_owner option \<Rightarrow> application_id option \<Rightarrow> account_owner \<Rightarrow> chain_id \<Rightarrow> account \<Rightarrow> amount
    \<Rightarrow> (system_state \<times> outgoing_message option, execution_error) result" where
  "claim cx s authenticated_signer authenticated_application_id source target_id recipient a =
    and_then (ensure (authenticated_signer = Some source \<or>
                      map_option account_owner_of_application authenticated_application_id = Some source)
                UnauthenticatedClaimOwner) (\<lambda>_.
    and_then (ensure (0 < a) IncorrectClaimAmount) (\<lambda>_.
    if target_id = xc_chain_id cx then
      and_then (debit s source a) (\<lambda>s. Ok (credit_or_send_message cx s source recipient a))
    else
      Ok (s, Some (with_authenticated_signer
            (OutgoingMessage_new target_id (SystemMsg (Withdraw source a recipient))) authenticated_signer))))"

definition system_execute_message ::
  "exec_ctx \<Rightarrow> system_state \<Rightarrow> message_context \<Rightarrow> system_message
    \<Rightarrow> (system_state \<times> outgoing_message list, execution_error) result" where
  "system_execute_message cx s context m =
    (case m of
       Credit target a source \<Rightarrow>
        let receiver = (if mctx_is_bouncing context then source else target)
        in Ok (credit s receiver a, [])
     | Withdraw owner a recipient \<Rightarrow>
        and_then (debit s owner a) (\<lambda>s.
        case credit_or_send_message cx s owner recipient a of
          (s, Some message) \<Rightarrow> Ok (s, [message])
        | (s, None) \<Rightarrow> Ok (s, [])))"

definition handle_system_query :: "system_state \<Rightarrow> chain_id \<Rightarrow> chain_id \<times> amount" where
  "handle_system_query s chain = (chain, sy_balance s)"

subsection \<open>Blobs\<close>

definition blob_used :: "system_state \<Rightarrow> tracker \<Rightarrow> blob_id \<Rightarrow> (system_state \<times> tracker \<times> bool, execution_error) result" where
  "blob_used s t bid =
    (if List.member (sy_used_blobs s) bid then Ok (s, t, False)
     else
       let s = s\<lparr> sy_used_blobs := bts_insert bid (sy_used_blobs s) \<rparr> in
       and_then (replay_oracle_response t (OracleBlob bid)) (\<lambda>(t, _). Ok (s, t, True)))"

fun blobs_used :: "system_state \<Rightarrow> tracker \<Rightarrow> blob_id list \<Rightarrow> (system_state \<times> tracker, execution_error) result" where
  "blobs_used s t [] = Ok (s, t)"
| "blobs_used s t (bid # bids) = and_then (blob_used s t bid) (\<lambda>(s, t, _). blobs_used s t bids)"

definition blob_published :: "system_state \<Rightarrow> tracker \<Rightarrow> blob_id \<Rightarrow> system_state \<times> tracker" where
  "blob_published s t bid =
    (s\<lparr> sy_used_blobs := bts_insert bid (sy_used_blobs s) \<rparr>, add_published_blob t bid)"

definition read_blob_content :: "exec_ctx \<Rightarrow> blob_id \<Rightarrow> (blob_content, execution_error) result" where
  "read_blob_content cx bid = ok_or (xc_get_blob cx bid) (BlobsNotFound [bid])"

definition assert_blob_exists :: "exec_ctx \<Rightarrow> blob_id \<Rightarrow> (unit, execution_error) result" where
  "assert_blob_exists cx bid = ensure (xc_contains_blob cx bid) (BlobsNotFound [bid])"

definition check_bytecode_blobs :: "exec_ctx \<Rightarrow> module_id \<Rightarrow> tracker \<Rightarrow> (blob_id list, execution_error) result" where
  "check_bytecode_blobs cx m t =
    (let blob_ids = bytecode_blob_ids m;
         missing = filter (\<lambda>bid. btm_get (tt_blobs t) bid = None \<and> \<not> xc_contains_blob cx bid) blob_ids
     in and_then (ensure (missing = []) (BlobsNotFound missing)) (\<lambda>_. Ok blob_ids))"

subsection \<open>Applications\<close>

text \<open>
  The description of an application, after the same checks on the applications it requires. The
  recursion of the source follows the required applications; \<open>fuel\<close> bounds its depth.
\<close>

fun describe_application ::
  "nat \<Rightarrow> codec \<Rightarrow> exec_ctx \<Rightarrow> system_state \<Rightarrow> tracker \<Rightarrow> application_id
    \<Rightarrow> (system_state \<times> tracker \<times> application_description, execution_error) result"
and check_required_applications ::
  "nat \<Rightarrow> codec \<Rightarrow> exec_ctx \<Rightarrow> system_state \<Rightarrow> tracker \<Rightarrow> application_id list
    \<Rightarrow> (system_state \<times> tracker, execution_error) result" where
  "describe_application 0 cd cx s t app = Err (RuntimeError ''stack overflow'')"
| "describe_application (Suc fuel) cd cx s t app =
    (let bid = description_blob_id app in
     and_then (case btm_get (tt_blobs t) bid of
                 Some content \<Rightarrow> Ok content
               | None \<Rightarrow> read_blob_content cx bid) (\<lambda>content.
     and_then (blob_used s t bid) (\<lambda>(s, t, _).
     and_then (ok_or (cd_decode_application cd (content_bytes content)) BcsError) (\<lambda>d.
     and_then (check_bytecode_blobs cx (ad_module_id d) t) (\<lambda>bids.
     and_then (blobs_used s t bids) (\<lambda>(s, t).
     and_then (check_required_applications fuel cd cx s t (ad_required_application_ids d)) (\<lambda>(s, t).
     Ok (s, t, d))))))))"
| "check_required_applications fuel cd cx s t [] = Ok (s, t)"
| "check_required_applications fuel cd cx s t (app # apps) =
    and_then (describe_application fuel cd cx s t app) (\<lambda>(s, t, _).
    check_required_applications fuel cd cx s t apps)"

text \<open>
  The loop of \<open>find_dependencies\<close>. The top of the stack is the head of the list; an iteration
  takes one unit of the fuel.
\<close>

fun dependency_loop ::
  "nat \<Rightarrow> nat \<Rightarrow> codec \<Rightarrow> exec_ctx \<Rightarrow> system_state \<Rightarrow> tracker
    \<Rightarrow> application_id list \<Rightarrow> application_id list \<Rightarrow> application_id list \<Rightarrow> application_id list
    \<Rightarrow> (system_state \<times> tracker \<times> application_id list, execution_error) result" where
  "dependency_loop 0 depth cd cx s t stack finished seen res = Err (RuntimeError ''out of fuel'')"
| "dependency_loop (Suc fuel) depth cd cx s t stack finished seen res =
    (case stack of
       [] \<Rightarrow> Ok (s, t, res)
     | app # stack \<Rightarrow>
        if List.member finished app then dependency_loop fuel depth cd cx s t stack finished seen res
        else if List.member seen app then
          dependency_loop fuel depth cd cx s t stack (app # finished) seen (res @ [app])
        else
          let seen = app # seen in
          and_then (describe_application depth cd cx s t app) (\<lambda>(s, t, d).
          dependency_loop fuel depth cd cx s t
            (filter (\<lambda>child. \<not> List.member seen child) (ad_required_application_ids d) @ app # stack) finished seen res))"

definition find_dependencies ::
  "nat \<Rightarrow> nat \<Rightarrow> codec \<Rightarrow> exec_ctx \<Rightarrow> system_state \<Rightarrow> tracker \<Rightarrow> application_id list
    \<Rightarrow> (system_state \<times> tracker \<times> application_id list, execution_error) result" where
  "find_dependencies fuel depth cd cx s t stack = dependency_loop fuel depth cd cx s t (rev stack) [] [] []"

definition create_application ::
  "nat \<Rightarrow> codec \<Rightarrow> exec_ctx \<Rightarrow> system_state \<Rightarrow> tracker \<Rightarrow> chain_id \<Rightarrow> block_height \<Rightarrow> module_id \<Rightarrow> bytes
    \<Rightarrow> application_id list \<Rightarrow> (system_state \<times> tracker \<times> application_id, execution_error) result" where
  "create_application depth cd cx s t chain height module_id parameters required =
    (case next_application_index t of (t, index) \<Rightarrow>
     and_then (check_bytecode_blobs cx module_id t) (\<lambda>bids.
     and_then (blobs_used s t bids) (\<lambda>(s, t).
     let d = \<lparr> ad_module_id = module_id, ad_creator_chain_id = chain, ad_block_height = height,
               ad_application_index = index, ad_parameters = parameters, ad_required_application_ids = required \<rparr> in
     and_then (check_required_applications depth cd cx s t required) (\<lambda>(s, t).
     and_then (ok_or (Blob_new cd (content_new_application_description cd d)) (RuntimeError ''panic'')) (\<lambda>b.
     Ok (s\<lparr> sy_used_blobs := bts_insert (blob_id_of b) (sy_used_blobs s) \<rparr>, add_created_blob t b,
         application_id_of cd d))))))"

subsection \<open>Chains\<close>

definition min_epoch :: "epoch list \<Rightarrow> epoch" where
  "min_epoch es = (case es of [] \<Rightarrow> 0 | e # es \<Rightarrow> foldl min e es)"

definition max_epoch :: "epoch list \<Rightarrow> epoch" where
  "max_epoch es = (case es of [] \<Rightarrow> 0 | e # es \<Rightarrow> foldl max e es)"

definition child_description ::
  "system_state \<Rightarrow> open_chain_config \<Rightarrow> chain_id \<Rightarrow> block_height \<Rightarrow> u32 \<Rightarrow> timestamp \<Rightarrow> chain_description" where
  "child_description s config parent_id height index timestamp =
    (let epochs = btm_keys (sy_committees s)
     in \<lparr> cd_origin = Child parent_id height index, cd_timestamp = timestamp,
          cd_config = init_chain_config config (sy_epoch s) (min_epoch epochs) (max_epoch epochs) \<rparr>)"

definition open_chain ::
  "codec \<Rightarrow> system_state \<Rightarrow> tracker \<Rightarrow> open_chain_config \<Rightarrow> chain_id \<Rightarrow> block_height \<Rightarrow> timestamp
    \<Rightarrow> (system_state \<times> tracker \<times> chain_id, execution_error) result" where
  "open_chain cd s t config parent_id height timestamp =
    (case next_chain_index t of (t, index) \<Rightarrow>
     let d = child_description s config parent_id height index timestamp
     in and_then (debit s CHAIN (occ_balance config)) (\<lambda>s.
        and_then (ok_or (Blob_new cd (content_new_chain_description cd d)) (RuntimeError ''panic'')) (\<lambda>b.
        Ok (s, add_created_blob t b, chain_id_of cd d))))"

definition close_chain :: "system_state \<Rightarrow> system_state" where
  "close_chain s = s\<lparr> sy_closed := True \<rparr>"

definition initialize_chain :: "codec \<Rightarrow> exec_ctx \<Rightarrow> system_state \<Rightarrow> chain_id \<Rightarrow> (system_state \<times> bool, execution_error) result" where
  "initialize_chain cd cx s chain =
    (if sy_description s \<noteq> None then Ok (s, True)
     else
       and_then (read_blob_content cx (BlobId ChainDescriptionBlob chain)) (\<lambda>content.
       and_then (ok_or (cd_decode_chain cd (content_bytes content)) BcsError) (\<lambda>d.
       let c = cd_config d;
           s = s\<lparr> sy_timestamp := cd_timestamp d, sy_description := Some d, sy_epoch := icc_epoch c \<rparr> in
       and_then (xc_committees_for cx (icc_min_active_epoch c) (icc_max_active_epoch c)) (\<lambda>committees.
       and_then (ok_or (xc_admin_chain_id cx) NoNetworkDescriptionFound) (\<lambda>admin.
       Ok (s\<lparr> sy_committees := committees, sy_admin_id := Some admin, sy_ownership := icc_ownership c,
              sy_balance := icc_balance c, sy_application_permissions := icc_application_permissions c \<rparr>, False))))))"

subsection \<open>Operations\<close>

fun update_streams ::
  "exec_ctx \<Rightarrow> system_state \<Rightarrow> tracker \<Rightarrow> event_id list \<Rightarrow> (chain_id \<times> stream_id \<times> u32) list
    \<Rightarrow> (system_state \<times> tracker \<times> event_id list, execution_error) result" where
  "update_streams cx s t missing [] = Ok (s, t, missing)"
| "update_streams cx s t missing ((chain, stream, next_index) # streams) =
    (let subscriptions = (case btm_get (sy_event_subscriptions s) (chain, stream) of
           Some e \<Rightarrow> e | None \<Rightarrow> \<lparr> es_next_index = 0, es_applications = [] \<rparr>) in
     and_then (ensure (es_next_index subscriptions < next_index) OutdatedUpdateStreams) (\<lambda>_.
     let t = foldl (\<lambda>t app. add_stream_to_process t app chain stream (es_next_index subscriptions) next_index)
               t (es_applications subscriptions);
         s = s\<lparr> sy_event_subscriptions := btm_insert (chain, stream) (subscriptions\<lparr> es_next_index := next_index \<rparr>)
               (sy_event_subscriptions s) \<rparr> in
     and_then (map_err ArithmeticError (ok_or (checked_sub next_index 1) Underflow)) (\<lambda>index.
     let event_id = \<lparr> event_chain_id = chain, event_id_stream = stream, event_id_index = index \<rparr>;
         missing = (if tt_replaying t = None \<and> \<not> xc_contains_event cx event_id then missing @ [event_id] else missing) in
     and_then (tracker_oracle t (Ok (OracleEventExists event_id))) (\<lambda>(t, _).
     update_streams cx s t missing streams))))"

definition to_event :: "oracle_response \<Rightarrow> event_id \<Rightarrow> (bytes, execution_error) result" where
  "to_event r e =
    (case r of
       OracleEvent recorded v \<Rightarrow> if recorded = e then Ok v else Err OracleResponseMismatch
     | _ \<Rightarrow> Err OracleResponseMismatch)"

definition create_committee ::
  "codec \<Rightarrow> exec_ctx \<Rightarrow> system_state \<Rightarrow> tracker \<Rightarrow> epoch \<Rightarrow> crypto_hash \<Rightarrow> (system_state \<times> tracker, execution_error) result" where
  "create_committee cd cx s t ep h =
    (let bid = BlobId CommitteeBlob h in
     and_then (read_blob_content cx bid) (\<lambda>content.
     and_then (ok_or (cd_decode_committee cd (content_bytes content)) BcsError) (\<lambda>committee.
     and_then (blob_used s t bid) (\<lambda>(s, t, _).
     Ok (s\<lparr> sy_committees := btm_insert ep committee (sy_committees s), sy_epoch := ep \<rparr>, t)))))"

definition remove_committee :: "system_state \<Rightarrow> epoch \<Rightarrow> (system_state, execution_error) result" where
  "remove_committee s ep =
    and_then (ensure (btm_get (sy_committees s) ep \<noteq> None) InvalidCommitteeRemoval) (\<lambda>_.
    Ok (s\<lparr> sy_committees := btm_remove ep (sy_committees s) \<rparr>))"

definition system_execute_operation ::
  "nat \<Rightarrow> codec \<Rightarrow> exec_ctx \<Rightarrow> system_state \<Rightarrow> tracker \<Rightarrow> account_owner option resource_controller
    \<Rightarrow> operation_context \<Rightarrow> system_operation
    \<Rightarrow> (system_state \<times> tracker \<times> account_owner option resource_controller \<times> (application_id \<times> bytes) option,
        execution_error) result" where
  "system_execute_operation depth cd cx s t rc context op =
    (case op of
       OpenChain config \<Rightarrow>
        and_then (open_chain cd s t config (octx_chain_id context) (octx_height context) (octx_timestamp context))
          (\<lambda>(s, t, _). Ok (s, t, rc, None))
     | ChangeOwnership supers ows multi is_open timeouts \<Rightarrow>
        Ok (s\<lparr> sy_ownership := \<lparr> super_owners = bts_of_list supers, owners = btm_of_list ows,
               multi_leader_rounds = multi, open_multi_leader_rounds = is_open, timeout_config = timeouts \<rparr> \<rparr>, t, rc, None)
     | ChangeApplicationPermissions p \<Rightarrow> Ok (s\<lparr> sy_application_permissions := p \<rparr>, t, rc, None)
     | CloseChain \<Rightarrow> Ok (close_chain s, t, rc, None)
     | Transfer owner recipient a \<Rightarrow>
        and_then (transfer cx s (octx_authenticated_signer context) None owner recipient a) (\<lambda>(s, m).
        Ok (s, add_outgoing_messages t (case m of None \<Rightarrow> [] | Some m \<Rightarrow> [m]), rc, None))
     | Claim owner target_id recipient a \<Rightarrow>
        and_then (claim cx s (octx_authenticated_signer context) None owner target_id recipient a) (\<lambda>(s, m).
        Ok (s, add_outgoing_messages t (case m of None \<Rightarrow> [] | Some m \<Rightarrow> [m]), rc, None))
     | Admin admin_op \<Rightarrow>
        and_then (ensure (sy_admin_id s = Some (octx_chain_id context)) AdminOperationOnNonAdminChain) (\<lambda>_.
        case admin_op of
          PublishCommitteeBlob h \<Rightarrow>
           (case blob_published s t (BlobId CommitteeBlob h) of (s, t) \<Rightarrow> Ok (s, t, rc, None))
        | CreateCommittee ep h \<Rightarrow>
           and_then (check_next_epoch s ep) (\<lambda>_.
           and_then (create_committee cd cx s t ep h) (\<lambda>(s, t).
           Ok (s, add_event t (StreamId_system EPOCH_STREAM_NAME) ep (cd_encode_hash cd h), rc, None)))
        | RemoveCommittee ep \<Rightarrow>
           and_then (remove_committee s ep) (\<lambda>s.
           Ok (s, add_event t (StreamId_system REMOVED_EPOCH_STREAM_NAME) ep [], rc, None)))
     | PublishModule m \<Rightarrow>
        (case foldl (\<lambda>(s, t) bid. blob_published s t bid) (s, t) (bytecode_blob_ids m) of (s, t) \<Rightarrow> Ok (s, t, rc, None))
     | CreateApplication m parameters argument required \<Rightarrow>
        and_then (create_application depth cd cx s t (octx_chain_id context) (octx_height context) m parameters required)
          (\<lambda>(s, t, app). Ok (s, t, rc, Some (app, argument)))
     | PublishDataBlob h \<Rightarrow> (case blob_published s t (BlobId Data h) of (s, t) \<Rightarrow> Ok (s, t, rc, None))
     | VerifyBlob bid \<Rightarrow>
        and_then (assert_blob_exists cx bid) (\<lambda>_.
        and_then (with_state s rc (\<lambda>r. track_blob_read sources_holder r 0)) (\<lambda>(s, rc).
        and_then (blob_used s t bid) (\<lambda>(s, t, _). Ok (s, t, rc, None))))
     | ProcessNewEpoch ep \<Rightarrow>
        and_then (check_next_epoch s ep) (\<lambda>_.
        and_then (ok_or (sy_admin_id s) (InactiveChainError (octx_chain_id context))) (\<lambda>admin.
        let e = \<lparr> event_chain_id = admin, event_id_stream = StreamId_system EPOCH_STREAM_NAME, event_id_index = ep \<rparr> in
        and_then (tracker_oracle t (and_then (ctx_get_event cx e) (\<lambda>v. Ok (OracleEvent e v)))) (\<lambda>(t, r).
        and_then (to_event r e) (\<lambda>v.
        and_then (ok_or (cd_decode_hash cd v) BcsError) (\<lambda>h.
        and_then (create_committee cd cx s t ep h) (\<lambda>(s, t). Ok (s, t, rc, None)))))))
     | ProcessRemovedEpoch ep \<Rightarrow>
        and_then (remove_committee s ep) (\<lambda>s.
        and_then (ok_or (sy_admin_id s) (InactiveChainError (octx_chain_id context))) (\<lambda>admin.
        let e = \<lparr> event_chain_id = admin, event_id_stream = StreamId_system REMOVED_EPOCH_STREAM_NAME,
                  event_id_index = ep \<rparr> in
        and_then (tracker_oracle t (and_then (ctx_get_event cx e) (\<lambda>v. Ok (OracleEvent e v)))) (\<lambda>(t, _).
        Ok (s, t, rc, None))))
     | UpdateStreams streams \<Rightarrow>
        and_then (update_streams cx s t [] streams) (\<lambda>(s, t, missing).
        and_then (ensure (missing = []) (EventsNotFound missing)) (\<lambda>_. Ok (s, t, rc, None))))"

section \<open>What using blobs leaves alone\<close>

text \<open>
  Marking blobs as used changes the set of used blobs, the recorded oracle responses and the
  responses left to replay. Everything else a client reads from the state is a projection that
  these updates keep, and then describing applications keeps it too.
\<close>

locale blob_frame =
  fixes f :: "system_state \<times> tracker \<Rightarrow> 'a"
  assumes used: "f (s\<lparr> sy_used_blobs := v \<rparr>, t) = f (s, t)"
    and responses: "f (s, t\<lparr> tt_oracle_responses := rs \<rparr>) = f (s, t)"
    and replaying: "f (s, t\<lparr> tt_replaying := rs' \<rparr>) = f (s, t)"
begin

lemma next_replayed_frame: "next_replayed_oracle_response t = Ok (t', r) \<Longrightarrow> f (s, t') = f (s, t)"
  by (auto simp: next_replayed_oracle_response_def replaying split: option.splits list.splits)

lemma oracle_frame: "tracker_oracle t g = Ok (t', r) \<Longrightarrow> f (s, t') = f (s, t)"
  by (auto simp: tracker_oracle_def and_then_Ok responses dest: next_replayed_frame)

lemma blob_used_frame: "blob_used s t bid = Ok (s', t', b) \<Longrightarrow> f (s', t') = f (s, t)"
  by (auto simp: blob_used_def replay_oracle_response_def Let_def and_then_Ok used responses
      dest: next_replayed_frame split: if_splits)

lemma blobs_used_frame: "blobs_used s t bids = Ok (s', t') \<Longrightarrow> f (s', t') = f (s, t)"
  by (induction bids arbitrary: s t) (auto simp: and_then_Ok dest!: blob_used_frame)

lemma required_frame:
  assumes "\<And>s t app s' t' d. describe_application fuel cd cx s t app = Ok (s', t', d) \<Longrightarrow> f (s', t') = f (s, t)"
  shows "check_required_applications fuel cd cx s t apps = Ok (s', t') \<Longrightarrow> f (s', t') = f (s, t)"
  by (induction apps arbitrary: s t) (auto simp: and_then_Ok dest!: assms)

lemma describe_frame: "describe_application fuel cd cx s t app = Ok (s', t', d) \<Longrightarrow> f (s', t') = f (s, t)"
proof (induction fuel arbitrary: s t app s' t' d)
  case (Suc fuel)
  have "f (s', t') = f (s, t)" if "check_required_applications fuel cd cx s t apps = Ok (s', t')" for s t apps s' t'
    by (rule required_frame [OF _ that]) (rule Suc.IH)
  with Suc.prems show ?case
    by (auto simp: Let_def and_then_Ok dest!: blob_used_frame blobs_used_frame)
qed simp

lemma check_required_frame: "check_required_applications fuel cd cx s t apps = Ok (s', t') \<Longrightarrow> f (s', t') = f (s, t)"
  by (rule required_frame) (rule describe_frame)

end

interpretation funds_frame: blob_frame "\<lambda>(s, t). (sy_balance s, sy_balances s, tt_outgoing_messages t)"
  by unfold_locales simp_all

interpretation committees_frame: blob_frame "\<lambda>(s, t). (sy_committees s, sy_epoch s)"
  by unfold_locales simp_all

interpretation created_frame: blob_frame "\<lambda>(s, t). tt_blobs t"
  by unfold_locales simp_all

end
