(* ===== verification/Balances.thy ===== *)
theory Balances
  imports System
begin

text \<open>
  Tokens are neither created nor lost by the system application: what the operations and
  messages of \<open>System\<close> do to the balances of one chain, and a network of chains that
  exchange messages.
\<close>

section \<open>The balances of a chain\<close>

definition balance_of :: "system_state \<Rightarrow> account_owner \<Rightarrow> nat" where
  "balance_of s owner =
    (if owner = CHAIN then unat (sy_balance s)
     else case btm_get (sy_balances s) owner of None \<Rightarrow> 0 | Some b \<Rightarrow> unat b)"

definition total_balance :: "system_state \<Rightarrow> nat" where
  "total_balance s = unat (sy_balance s) + sum_list (map (unat \<circ> snd) (sy_balances s))"

lemma sum_btm_insert:
  "btm_ok m \<Longrightarrow> sum_list (map (f \<circ> snd) (btm_insert k v m)) + (case btm_get m k of None \<Rightarrow> 0 | Some b \<Rightarrow> f b) =
    sum_list (map (f \<circ> snd) m) + (f v :: nat)"
proof (induction k v m rule: btm_insert.induct)
  case (2 k v k' v' m)
  have "k < k' \<Longrightarrow> btm_get m k = None"
    using "2.prems" by (auto simp: btm_ok_Cons map_of_eq_None_iff)
  with 2 show ?case by (cases k k' rule: linorder_cases) (auto simp: btm_ok_Cons)
qed simp

lemma sum_btm_remove:
  "btm_ok m \<Longrightarrow> sum_list (map (f \<circ> snd) (btm_remove k m)) + (case btm_get m k of None \<Rightarrow> 0 | Some b \<Rightarrow> f b) =
    (sum_list (map (f \<circ> snd) m) :: nat)"
proof (induction m)
  case (Cons e m)
  then have "fst e = k \<Longrightarrow> filter (\<lambda>e. fst e \<noteq> k) m = m"
    by (auto simp: btm_ok_Cons filter_id_conv)
  with Cons show ?case by (cases e) (auto simp: btm_ok_Cons btm_remove_def split: option.splits)
qed (simp add: btm_remove_def)

lemma balance_le_total: "btm_ok (sy_balances s) \<Longrightarrow> balance_of s owner \<le> total_balance s"
  using sum_btm_remove [of "sy_balances s" unat owner]
  by (auto simp: balance_of_def total_balance_def split: option.splits)

lemma saturating_add_exact:
  "unat a + unat b < 2 ^ LENGTH('a) \<Longrightarrow> unat (saturating_add a b) = unat a + unat b" for a b :: "'a::len word"
  by (simp add: saturating_add_def checked_add_def unat_add_small)

lemma credit_keeps [simp]:
  "btm_ok (sy_balances s) \<Longrightarrow> btm_ok (sy_balances (credit s owner a))"
  by (simp add: credit_def Let_def)

lemma credit_total:
  assumes "btm_ok (sy_balances s)" "total_balance s + unat a < 2 ^ 128"
  shows "total_balance (credit s owner a) = total_balance s + unat a"
proof (cases "owner = CHAIN")
  case True
  with assms show ?thesis by (simp add: credit_def total_balance_def saturating_add_exact)
next
  case False
  let ?b = "case btm_get (sy_balances s) owner of None \<Rightarrow> 0 | Some b \<Rightarrow> b"
  have b: "unat ?b = balance_of s owner" using False by (simp add: balance_of_def split: option.split)
  then have "unat (saturating_add ?b a) = balance_of s owner + unat a"
    using balance_le_total [OF assms(1), of owner] assms(2) by (simp add: saturating_add_exact)
  then show ?thesis
    using False sum_btm_insert [OF assms(1), of unat owner "saturating_add ?b a"]
    by (simp add: credit_def total_balance_def balance_of_def Let_def split: option.splits)
qed

lemma credit_balance:
  assumes "btm_ok (sy_balances s)" "total_balance s + unat a < 2 ^ 128"
  shows "balance_of (credit s owner a) o' = balance_of s o' + (if o' = owner then unat a else 0)"
proof -
  have "balance_of s owner + unat a < 2 ^ 128"
    using balance_le_total [OF assms(1), of owner] assms(2) by simp
  then show ?thesis
    using assms(1)
    by (auto simp: balance_of_def credit_def Let_def saturating_add_exact split: option.splits)
qed

lemma debit_Ok:
  assumes "btm_ok (sy_balances s)" "debit s owner a = Ok s'"
  shows "btm_ok (sy_balances s')" "total_balance s' + unat a = total_balance s" "unat a \<le> balance_of s owner"
    "balance_of s' o' = balance_of s o' - (if o' = owner then unat a else 0)"
proof -
  have sub: "checked_sub b a = Some c \<longleftrightarrow> a \<le> b \<and> c = b - a" for b c :: amount
    by (auto simp: checked_sub_def)
  show "btm_ok (sy_balances s')" "total_balance s' + unat a = total_balance s" "unat a \<le> balance_of s owner"
    "balance_of s' o' = balance_of s o' - (if o' = owner then unat a else 0)"
    using assms sum_btm_remove [OF assms(1), of unat owner]
      sum_btm_insert [OF assms(1), of unat owner "the (btm_get (sy_balances s) owner) - a"]
    by (auto simp: debit_def try_sub_assign_def sub and_then_Ok ok_or_Ok total_balance_def balance_of_def
        word_le_nat_alt unat_sub split: if_splits option.splits)
qed

section \<open>What an operation does to the balances\<close>

definition message_value :: "outgoing_message \<Rightarrow> nat" where
  "message_value m = (case om_message m of SystemMsg (Credit _ a _) \<Rightarrow> unat a | _ \<Rightarrow> 0)"

definition messages_value :: "outgoing_message list \<Rightarrow> nat" where
  "messages_value ms = sum_list (map message_value ms)"

definition opened_value :: "system_operation \<Rightarrow> nat" where
  "opened_value op = (case op of OpenChain c \<Rightarrow> unat (occ_balance c) | _ \<Rightarrow> 0)"

text \<open>Steps that touch neither the balances nor the outgoing messages.\<close>

definition quiet :: "system_state \<times> tracker \<Rightarrow> system_state \<times> tracker \<Rightarrow> bool" where
  "quiet x y \<longleftrightarrow> sy_balance (fst y) = sy_balance (fst x) \<and> sy_balances (fst y) = sy_balances (fst x) \<and>
    tt_outgoing_messages (snd y) = tt_outgoing_messages (snd x)"

lemma quiet_refl [simp]: "quiet x x" and quiet_trans: "quiet x y \<Longrightarrow> quiet y z \<Longrightarrow> quiet x z"
  by (simp_all add: quiet_def)

lemma quiet_frame:
  "quiet x y \<longleftrightarrow> (\<lambda>(s, t). (sy_balance s, sy_balances s, tt_outgoing_messages t)) y =
    (\<lambda>(s, t). (sy_balance s, sy_balances s, tt_outgoing_messages t)) x"
  by (auto simp: quiet_def split: prod.splits)

lemmas blob_used_quiet = funds_frame.blob_used_frame [folded quiet_frame]
lemmas blobs_used_quiet = funds_frame.blobs_used_frame [folded quiet_frame]
lemmas check_required_quiet = funds_frame.check_required_frame [folded quiet_frame]
lemmas oracle_quiet = funds_frame.oracle_frame [folded quiet_frame]

lemma create_application_quiet:
  "create_application depth cd cx s t ch h m ps req = Ok (s', t', app) \<Longrightarrow> quiet (s, t) (s', t')"
proof -
  assume "create_application depth cd cx s t ch h m ps req = Ok (s', t', app)"
  then obtain t1 bids s2 t2 s3 t3 b where 1: "t1 = fst (next_application_index t)" "blobs_used s t1 bids = Ok (s2, t2)"
    "check_required_applications depth cd cx s2 t2 req = Ok (s3, t3)"
    "s' = s3\<lparr> sy_used_blobs := bts_insert (blob_id_of b) (sy_used_blobs s3) \<rparr>" "t' = add_created_blob t3 b"
    by (auto simp: create_application_def next_application_index_def Let_def and_then_Ok)
  have "quiet (s, t) (s, t1)" "quiet (s3, t3) (s', t')"
    using 1(1,4,5) by (simp_all add: quiet_def next_application_index_def add_created_blob_def)
  with blobs_used_quiet [OF 1(2)] check_required_quiet [OF 1(3)] show ?thesis by (blast intro: quiet_trans)
qed

lemma create_committee_quiet: "create_committee cd cx s t ep h = Ok (s', t') \<Longrightarrow> quiet (s, t) (s', t')"
  by (auto simp: create_committee_def Let_def and_then_Ok quiet_def dest!: blob_used_quiet)

lemma remove_committee_funds: "remove_committee s ep = Ok s' \<Longrightarrow> quiet (s, t) (s', t)"
  by (auto simp: remove_committee_def and_then_Ok quiet_def)

lemma add_stream_messages:
  "tt_outgoing_messages (add_stream_to_process t app ch st p n) = tt_outgoing_messages t"
  by (simp add: add_stream_to_process_def Let_def)

lemma update_streams_quiet: "update_streams cx s t missing streams = Ok (s', t', m) \<Longrightarrow> quiet (s, t) (s', t')"
proof (induction streams arbitrary: s t missing)
  case (Cons e streams)
  obtain chain stream next_index where e: "e = (chain, stream, next_index)" by (cases e)
  have fold: "tt_outgoing_messages (foldl (\<lambda>t app. add_stream_to_process t app chain stream i j) t apps) =
      tt_outgoing_messages t" for i j apps and t :: tracker
    by (induction apps arbitrary: t) (simp_all add: add_stream_messages)
  from Cons.prems show ?case
    unfolding e update_streams.simps Let_def
    by (auto simp: and_then_Ok quiet_def fold dest!: oracle_quiet [where s = s] Cons.IH)
qed simp

abbreviation option_value :: "outgoing_message option \<Rightarrow> nat" where
  "option_value m \<equiv> (case m of None \<Rightarrow> 0 | Some m \<Rightarrow> message_value m)"

lemma credit_or_send_total:
  assumes "btm_ok (sy_balances s)" "total_balance s + unat a < 2 ^ 128" "credit_or_send_message cx s source r a = (s', m)"
  shows "btm_ok (sy_balances s')" "total_balance s' + option_value m = total_balance s + unat a"
    "balance_of s owner \<le> balance_of s' owner"
  using assms credit_total [OF assms(1,2)] credit_balance [OF assms(1,2)]
  by (auto simp: credit_or_send_message_def message_value_def with_kind_def OutgoingMessage_new_def split: if_splits)

lemma debit_credit_total:
  assumes "btm_ok (sy_balances s)" "total_balance s < 2 ^ 128" "debit s source a = Ok s1"
    and "credit_or_send_message cx s1 source r a = (s', m)"
  shows "btm_ok (sy_balances s')" "total_balance s' + option_value m = total_balance s"
    "owner \<noteq> source \<Longrightarrow> balance_of s owner \<le> balance_of s' owner"
proof -
  note d = debit_Ok [OF assms(1,3)]
  have lt: "total_balance s1 + unat a < 2 ^ 128" using d(2) assms(2) by simp
  note c = credit_or_send_total [OF d(1) lt assms(4)]
  show "btm_ok (sy_balances s')" "total_balance s' + option_value m = total_balance s" using c d(2) by simp_all
  show "owner \<noteq> source \<Longrightarrow> balance_of s owner \<le> balance_of s' owner" using c(3) [of owner] d(4) [of owner] by simp
qed

lemma transfer_total:
  assumes "btm_ok (sy_balances s)" "total_balance s < 2 ^ 128" "transfer cx s signer app source r a = Ok (s', m)"
  shows "btm_ok (sy_balances s')" "total_balance s' + option_value m = total_balance s"
    "balance_of s' owner < balance_of s owner \<Longrightarrow> owner = source"
    "source = CHAIN \<Longrightarrow> \<exists>o'. signer = Some o' \<and> ownership_verify_owner (sy_ownership s) o'"
    "source \<noteq> CHAIN \<Longrightarrow> signer = Some source \<or> map_option account_owner_of_application app = Some source"
proof -
  obtain s1 where s1: "debit s source a = Ok s1" "credit_or_send_message cx s1 source r a = (s', m)"
    using assms(3) by (auto simp: transfer_def and_then_Ok)
  note * = debit_credit_total [OF assms(1,2) s1]
  show "btm_ok (sy_balances s')" "total_balance s' + option_value m = total_balance s"
    "balance_of s' owner < balance_of s owner \<Longrightarrow> owner = source"
    using *(1,2) *(3) [of owner] by (auto dest: leD)
  show "source = CHAIN \<Longrightarrow> \<exists>o'. signer = Some o' \<and> ownership_verify_owner (sy_ownership s) o'"
    "source \<noteq> CHAIN \<Longrightarrow> signer = Some source \<or> map_option account_owner_of_application app = Some source"
    using assms(3) by (auto simp: transfer_def and_then_Ok ensure_Ok split: if_splits option.splits)
qed

lemma claim_total:
  assumes "btm_ok (sy_balances s)" "total_balance s < 2 ^ 128" "claim cx s signer app source target r a = Ok (s', m)"
  shows "btm_ok (sy_balances s')" "total_balance s' + option_value m = total_balance s"
    "balance_of s' owner < balance_of s owner \<Longrightarrow> owner = source"
    "signer = Some source \<or> map_option account_owner_of_application app = Some source"
proof -
  show "signer = Some source \<or> map_option account_owner_of_application app = Some source"
    using assms(3) by (auto simp: claim_def and_then_Ok ensure_Ok split: if_splits)
  have "s' = s \<and> option_value m = 0 \<or>
    (\<exists>s1. debit s source a = Ok s1 \<and> credit_or_send_message cx s1 source r a = (s', m))"
    using assms(3)
    by (auto simp: claim_def and_then_Ok message_value_def with_authenticated_signer_def OutgoingMessage_new_def
        split: if_splits)
  then show "btm_ok (sy_balances s')" "total_balance s' + option_value m = total_balance s"
    "balance_of s' owner < balance_of s owner \<Longrightarrow> owner = source"
    using debit_credit_total [OF assms(1,2), of source a _ cx r s' m] assms(1) by (auto, metis leD)
qed

lemma quiet_total:
  "quiet (s, t) (s', t') \<Longrightarrow> btm_ok (sy_balances s') = btm_ok (sy_balances s) \<and>
    total_balance s' = total_balance s \<and> balance_of s' = balance_of s \<and>
    messages_value (tt_outgoing_messages t') = messages_value (tt_outgoing_messages t)"
  by (auto simp: quiet_def total_balance_def balance_of_def fun_eq_iff)

lemma messages_value_add:
  "messages_value (tt_outgoing_messages (add_outgoing_messages t ms)) =
    messages_value (tt_outgoing_messages t) + messages_value ms"
  by (simp add: add_outgoing_messages_eq messages_value_def)

lemma published_quiet: "blob_published s t bid = (s', t') \<Longrightarrow> quiet (s, t) (s', t')"
  by (auto simp: quiet_def blob_published_def add_published_blob_def)

lemma publish_all_quiet:
  "foldl (\<lambda>(s, t) bid. blob_published s t bid) (s, t) bids = (s', t') \<Longrightarrow> quiet (s, t) (s', t')"
proof (induction bids arbitrary: s t)
  case (Cons bid bids)
  obtain s1 t1 where 1: "blob_published s t bid = (s1, t1)" by fastforce
  from Cons.prems have "quiet (s1, t1) (s', t')" by (intro Cons.IH) (simp add: 1)
  with published_quiet [OF 1] show ?case by (rule quiet_trans)
qed simp

lemma quiet_event [simp]: "quiet x (s', add_event t' st i v) = quiet x (s', t')"
  by (simp add: quiet_def add_event_def)

lemma admin_quiet:
  assumes "system_execute_operation depth cd cx s t rc context (Admin admin_op) = Ok (s', t', rc', na)"
  shows "quiet (s, t) (s', t')"
proof (cases admin_op)
  case (PublishCommitteeBlob h)
  with assms show ?thesis
    by (auto simp: system_execute_operation_def and_then_Ok split: prod.splits intro: published_quiet)
next
  case (CreateCommittee ep h)
  with assms show ?thesis
    by (auto simp: system_execute_operation_def and_then_Ok intro: create_committee_quiet)
next
  case (RemoveCommittee ep)
  with assms show ?thesis
    by (auto simp: system_execute_operation_def and_then_Ok intro: remove_committee_funds)
qed

lemma process_new_epoch_quiet:
  assumes "system_execute_operation depth cd cx s t rc context (ProcessNewEpoch ep) = Ok (s', t', rc', na)"
  shows "quiet (s, t) (s', t')"
proof -
  from assms obtain f t1 r h where "tracker_oracle t f = Ok (t1, r)" "create_committee cd cx s t1 ep h = Ok (s', t')"
    by (auto simp: system_execute_operation_def and_then_Ok Let_def)
  with oracle_quiet create_committee_quiet show ?thesis by (blast intro: quiet_trans)
qed

lemma process_removed_epoch_quiet:
  assumes "system_execute_operation depth cd cx s t rc context (ProcessRemovedEpoch ep) = Ok (s', t', rc', na)"
  shows "quiet (s, t) (s', t')"
proof -
  from assms obtain f r where "remove_committee s ep = Ok s'" "tracker_oracle t f = Ok (t', r)"
    by (auto simp: system_execute_operation_def and_then_Ok Let_def)
  with oracle_quiet [of t f t' r s'] remove_committee_funds [of s ep s' t] show ?thesis by (blast intro: quiet_trans)
qed

definition moves_tokens :: "system_operation \<Rightarrow> bool" where
  "moves_tokens op =
    (case op of Transfer _ _ _ \<Rightarrow> True | Claim _ _ _ _ \<Rightarrow> True | OpenChain _ \<Rightarrow> True | VerifyBlob _ \<Rightarrow> True | _ \<Rightarrow> False)"

lemma system_operation_quiet:
  assumes "system_execute_operation depth cd cx s t rc context op = Ok (s', t', rc', na)" "\<not> moves_tokens op"
  shows "quiet (s, t) (s', t')"
proof (cases op)
  case (Admin admin_op)
  with assms(1) show ?thesis by (blast intro: admin_quiet)
next
  case (ProcessNewEpoch ep)
  with assms(1) show ?thesis by (blast intro: process_new_epoch_quiet)
next
  case (ProcessRemovedEpoch ep)
  with assms(1) show ?thesis by (blast intro: process_removed_epoch_quiet)
next
  case (UpdateStreams streams)
  with assms(1) show ?thesis
    by (auto simp: system_execute_operation_def and_then_Ok intro: update_streams_quiet)
next
  case (CreateApplication m ps arg req)
  with assms(1) show ?thesis
    by (auto simp: system_execute_operation_def and_then_Ok intro: create_application_quiet)
next
  case (PublishModule m)
  with assms(1) show ?thesis
    by (auto simp: system_execute_operation_def split: prod.splits intro: publish_all_quiet)
next
  case (PublishDataBlob h)
  with assms(1) show ?thesis
    by (auto simp: system_execute_operation_def split: prod.splits intro: published_quiet)
qed (use assms in \<open>auto simp: moves_tokens_def system_execute_operation_def quiet_def close_chain_def\<close>)

lemma messages_value_option: "messages_value (case m of None \<Rightarrow> [] | Some m \<Rightarrow> [m]) = option_value m"
  by (simp add: messages_value_def split: option.split)

lemma system_operation_total:
  assumes ok: "btm_ok (sy_balances s)" "total_balance s < 2 ^ 128"
    and run: "system_execute_operation depth cd cx s t rc context op = Ok (s', t', rc', na)"
    and free: "\<And>bid. op \<noteq> VerifyBlob bid"
  shows "btm_ok (sy_balances s') \<and>
    total_balance s' + messages_value (tt_outgoing_messages t') + opened_value op =
      total_balance s + messages_value (tt_outgoing_messages t)"
proof (cases "moves_tokens op")
  case False
  from quiet_total [OF system_operation_quiet [OF run False]] ok(1) False show ?thesis
    by (simp add: opened_value_def moves_tokens_def split: system_operation.splits)
next
  case True
  then consider (transfer) owner recipient a where "op = Transfer owner recipient a"
    | (claim) owner target recipient a where "op = Claim owner target recipient a"
    | (opened) config where "op = OpenChain config"
    using free by (auto simp: moves_tokens_def split: system_operation.splits)
  then show ?thesis
  proof cases
    case transfer
    with run obtain m where m: "transfer cx s (octx_authenticated_signer context) None owner recipient a = Ok (s', m)"
      "t' = add_outgoing_messages t (case m of None \<Rightarrow> [] | Some m \<Rightarrow> [m])"
      by (auto simp: system_execute_operation_def and_then_Ok)
    from transfer_total(1,2) [OF ok m(1)] show ?thesis
      by (simp add: m(2) messages_value_add messages_value_option opened_value_def transfer)
  next
    case claim
    with run obtain m where m: "claim cx s (octx_authenticated_signer context) None owner target recipient a = Ok (s', m)"
      "t' = add_outgoing_messages t (case m of None \<Rightarrow> [] | Some m \<Rightarrow> [m])"
      by (auto simp: system_execute_operation_def and_then_Ok)
    from claim_total(1,2) [OF ok m(1)] show ?thesis
      by (simp add: m(2) messages_value_add messages_value_option opened_value_def claim)
  next
    case opened
    with run obtain ch where "open_chain cd s t config (octx_chain_id context) (octx_height context)
        (octx_timestamp context) = Ok (s', t', ch)"
      by (auto simp: system_execute_operation_def and_then_Ok)
    then have d: "debit s CHAIN (occ_balance config) = Ok s'" "tt_outgoing_messages t' = tt_outgoing_messages t"
      by (auto simp: open_chain_def next_chain_index_def Let_def and_then_Ok add_created_blob_def)
    with debit_Ok(1,2) [OF ok(1) d(1)] opened show ?thesis by (simp add: opened_value_def)
  qed
qed

lemma system_message_total:
  assumes ok: "btm_ok (sy_balances s)"
    and bound: "total_balance s + (case m of Credit _ a _ \<Rightarrow> unat a | Withdraw _ _ _ \<Rightarrow> 0) < 2 ^ 128"
    and run: "system_execute_message cx s context m = Ok (s', ms)"
  shows "btm_ok (sy_balances s') \<and>
    total_balance s' + messages_value ms = total_balance s + (case m of Credit _ a _ \<Rightarrow> unat a | Withdraw _ _ _ \<Rightarrow> 0)"
proof (cases m)
  case (Credit target a source)
  with credit_total [OF ok] bound ok run show ?thesis
    by (auto simp: system_execute_message_def Let_def messages_value_def)
next
  case (Withdraw owner a recipient)
  with run obtain s1 where s1: "debit s owner a = Ok s1" by (auto simp: system_execute_message_def and_then_Ok)
  obtain s2 m' where m': "credit_or_send_message cx s1 owner recipient a = (s2, m')" by fastforce
  with Withdraw run s1 have 1: "debit s owner a = Ok s1" "credit_or_send_message cx s1 owner recipient a = (s', m')"
    "ms = (case m' of None \<Rightarrow> [] | Some m \<Rightarrow> [m])"
    by (auto simp: system_execute_message_def split: option.splits)
  from debit_credit_total(1,2) [OF ok _ 1(1,2)] bound Withdraw show ?thesis
    by (simp add: 1(3) messages_value_option)
qed

lemma with_state_balance:
  assumes "btm_ok (sy_balances s)" "with_state s rc f = Ok (s', rc')" "owner \<noteq> CHAIN" "rc_account rc \<noteq> Some owner"
  shows "balance_of s' owner = balance_of s owner"
  using assms
  by (auto simp: with_state_def with_state_and_grant_def Let_def and_then_Ok balance_of_def
      split: option.splits bind_splits)

text \<open>
  \<^bold>\<open>C33\<close>. Only its owner can spend from an account: when a system operation lowers the balance of
  an account other than the one of the chain, the block is authenticated by the owner of
  that account, or the operation is the fee for reading a blob and the block charges its fees to
  that account.
\<close>

theorem only_owner_spends:
  assumes ok: "btm_ok (sy_balances s)" "total_balance s < 2 ^ 128"
    and run: "system_execute_operation depth cd cx s t rc context op = Ok (s', t', rc', na)"
    and spent: "balance_of s' owner < balance_of s owner" "owner \<noteq> CHAIN"
  shows "octx_authenticated_signer context = Some owner \<or> rc_account rc = Some owner \<and> (\<exists>bid. op = VerifyBlob bid)"
proof (cases "moves_tokens op")
  case False
  from quiet_total [OF system_operation_quiet [OF run False]] spent(1) show ?thesis by simp
next
  case True
  then consider (transfer) source recipient a where "op = Transfer source recipient a"
    | (claim) source target recipient a where "op = Claim source target recipient a"
    | (opened) config where "op = OpenChain config" | (verify) bid where "op = VerifyBlob bid"
    by (auto simp: moves_tokens_def split: system_operation.splits)
  then show ?thesis
  proof cases
    case transfer
    with run obtain m where m: "transfer cx s (octx_authenticated_signer context) None source recipient a = Ok (s', m)"
      by (auto simp: system_execute_operation_def and_then_Ok)
    from transfer_total(3,5) [OF ok m] spent show ?thesis by auto
  next
    case claim
    with run obtain m where m: "claim cx s (octx_authenticated_signer context) None source target recipient a = Ok (s', m)"
      by (auto simp: system_execute_operation_def and_then_Ok)
    from claim_total(3,4) [OF ok m] spent show ?thesis by auto
  next
    case opened
    with run have "debit s CHAIN (occ_balance config) = Ok s'"
      by (auto simp: system_execute_operation_def open_chain_def next_chain_index_def Let_def and_then_Ok)
    from debit_Ok(4) [OF ok(1) this, of owner] spent show ?thesis by simp
  next
    case verify
    with run obtain s1 rc1 b where s1: "with_state s rc (\<lambda>r. track_blob_read sources_holder r 0) = Ok (s1, rc1)"
      and used: "blob_used s1 t bid = Ok (s', t', b)"
      by (auto simp: system_execute_operation_def and_then_Ok)
    have "balance_of s' owner = balance_of s1 owner" using quiet_total [OF blob_used_quiet [OF used]] by simp
    with with_state_balance [OF ok(1) s1 spent(2)] spent(1) verify show ?thesis by auto
  qed
qed

text \<open>A chain with two owners that hold tokens, and a context without blobs and events.\<close>

definition demo_system :: system_state where
  "demo_system =
    \<lparr> sy_description = None, sy_epoch = 0, sy_admin_id = Some 7, sy_committees = [],
      sy_ownership = single (Address20 1), sy_balance = 1000,
      sy_balances = [(Address20 1, 50), (Address20 2, 30)], sy_timestamp = 0, sy_closed = False,
      sy_application_permissions = permissions_default, sy_used_blobs = [], sy_event_subscriptions = [] \<rparr>"

definition demo_ctx :: "chain_id \<Rightarrow> exec_ctx" where
  "demo_ctx chain =
    \<lparr> xc_chain_id = chain, xc_get_blob = (\<lambda>_. None), xc_contains_blob = (\<lambda>_. False), xc_get_event = (\<lambda>_. None),
      xc_contains_event = (\<lambda>_. False), xc_committees_for = (\<lambda>_ _. Ok []), xc_admin_chain_id = Some 7 \<rparr>"

definition demo_codec :: codec where
  "demo_codec =
    \<lparr> cd_content_hash = (\<lambda>c. of_nat (length (content_bytes c))), cd_encode_chain = (\<lambda>_. [1]), cd_decode_chain = (\<lambda>_. None),
      cd_encode_application = (\<lambda>_. [2]), cd_decode_application = (\<lambda>_. None), cd_decode_committee = (\<lambda>_. None),
      cd_encode_hash = (\<lambda>h. [ucast h]), cd_decode_hash = (\<lambda>v. Some (ucast (hd v))) \<rparr>"

definition demo_context :: "chain_id \<Rightarrow> account_owner option \<Rightarrow> operation_context" where
  "demo_context chain signer =
    \<lparr> octx_chain_id = chain, octx_authenticated_signer = signer, octx_height = 3, octx_round = None, octx_timestamp = 100 \<rparr>"

definition demo_tracker :: tracker where
  "demo_tracker = TransactionTracker_new 100 0 0 0 None []"

definition demo_controller :: "account_owner option \<Rightarrow> account_owner option resource_controller" where
  "demo_controller owner = \<lparr> rc_policy = no_fees, rc_tracker = tracker_default, rc_account = owner \<rparr>"

lemma demo_system_ok: "btm_ok (sy_balances demo_system)" "total_balance demo_system < 2 ^ 128"
  by (simp_all add: demo_system_def btm_ok_Cons total_balance_def less_account_owner_def)

theorem only_owner_spends_witness:
  "\<exists>s' t' rc' na. system_execute_operation 0 demo_codec (demo_ctx 5) demo_system demo_tracker (demo_controller None)
      (demo_context 5 (Some (Address20 1))) (Transfer (Address20 1) (Account 9 (Address20 4)) 20) = Ok (s', t', rc', na) \<and>
    balance_of s' (Address20 1) < balance_of demo_system (Address20 1) \<and>
    octx_authenticated_signer (demo_context 5 (Some (Address20 1))) = Some (Address20 1)"
proof -
  let ?run = "system_execute_operation 0 demo_codec (demo_ctx 5) demo_system demo_tracker (demo_controller None)
      (demo_context 5 (Some (Address20 1))) (Transfer (Address20 1) (Account 9 (Address20 4)) 20)"
  obtain s' t' rc' na where run: "?run = Ok (s', t', rc', na)" and
    less: "balance_of s' (Address20 1) < balance_of demo_system (Address20 1)"
    by (simp add: system_execute_operation_def transfer_def demo_context_def CHAIN_def debit_def demo_system_def
        try_sub_assign_def checked_sub_def credit_or_send_message_def demo_ctx_def less_account_owner_def
        balance_of_def ensure_def ok_or_def)
  from only_owner_spends [OF demo_system_ok run less] run less show ?thesis by (simp add: CHAIN_def demo_controller_def)
qed

end
