(* ===== verification/Lifecycle.thy ===== *)
theory Lifecycle
  imports Balances
begin

text \<open>
  Facts that span several system operations: the replay of recorded oracle responses, the
  migration of a chain to the committee of a new epoch, and the life of a chain from the
  operation that opens it to its initialization.
\<close>

section \<open>Replaying recorded oracle responses\<close>

abbreviation replay_with :: "timestamp \<Rightarrow> tracker \<Rightarrow> oracle_response list \<Rightarrow> tracker" where
  "replay_with lt t rs \<equiv> t\<lparr> tt_local_time := lt, tt_replaying := Some rs \<rparr>"

text \<open>From one tracker to a later one of the same recording, the responses recorded between them.\<close>

definition records :: "tracker \<Rightarrow> oracle_response list \<Rightarrow> tracker \<Rightarrow> bool" where
  "records t rs t' \<longleftrightarrow> tt_replaying t = None \<and> tt_replaying t' = None \<and>
    tt_oracle_responses t' = tt_oracle_responses t @ rs"

lemma records_refl: "tt_replaying t = None \<Longrightarrow> records t [] t"
  by (simp add: records_def)

lemma records_trans: "records t rs t' \<Longrightarrow> records t' rs' t'' \<Longrightarrow> records t (rs @ rs') t''"
  by (simp add: records_def)

lemma tracker_oracle_replays:
  assumes "tracker_oracle t f = Ok (t', r)" "tt_replaying t = None"
  shows "records t [r] t' \<and> (\<forall>g rest. tracker_oracle (replay_with lt t (r # rest)) g = Ok (replay_with lt t' rest, r))"
  using assms by (auto simp: tracker_oracle_def next_replayed_oracle_response_def and_then_Ok records_def)

lemma replay_oracle_response_replays:
  assumes "replay_oracle_response t r = Ok (t', b)" "tt_replaying t = None"
  shows "records t [r] t' \<and>
    (\<forall>rest. replay_oracle_response (replay_with lt t (r # rest)) r = Ok (replay_with lt t' rest, True))"
  using assms by (auto simp: replay_oracle_response_def next_replayed_oracle_response_def and_then_Ok records_def)

lemma blob_used_replays:
  assumes "blob_used s t bid = Ok (s', t', b)" "tt_replaying t = None"
  obtains rs where "records t rs t'" "\<And>rest. blob_used s (replay_with lt t (rs @ rest)) bid = Ok (s', replay_with lt t' rest, b)"
proof (cases "List.member (sy_used_blobs s) bid")
  case True
  with assms that [of "[]"] show ?thesis by (simp add: blob_used_def records_refl)
next
  case False
  with assms obtain b' where "replay_oracle_response t (OracleBlob bid) = Ok (t', b')"
    and eq: "s' = s\<lparr> sy_used_blobs := bts_insert bid (sy_used_blobs s) \<rparr>" "b"
    by (auto simp: blob_used_def Let_def and_then_Ok)
  from replay_oracle_response_replays [OF this(1) assms(2)] that [of "[OracleBlob bid]"] False eq
  show ?thesis by (simp add: blob_used_def Let_def)
qed

lemma blobs_used_replays:
  assumes "blobs_used s t bids = Ok (s', t')" "tt_replaying t = None"
  shows "\<exists>rs. records t rs t' \<and> (\<forall>rest. blobs_used s (replay_with lt t (rs @ rest)) bids = Ok (s', replay_with lt t' rest))"
  using assms
proof (induction bids arbitrary: s t)
  case Nil
  then show ?case by (intro exI [of _ "[]"]) (auto simp: records_refl)
next
  case (Cons bid bids)
  then obtain s1 t1 b where 1: "blob_used s t bid = Ok (s1, t1, b)" "blobs_used s1 t1 bids = Ok (s', t')"
    by (auto simp: and_then_Ok)
  from blob_used_replays [OF 1(1) Cons.prems(2)] obtain rs where
    rs: "records t rs t1" "\<And>rest. blob_used s (replay_with lt t (rs @ rest)) bid = Ok (s1, replay_with lt t1 rest, b)" by blast
  from Cons.IH [OF 1(2)] rs(1) obtain rs' where
    "records t1 rs' t'" "\<And>rest. blobs_used s1 (replay_with lt t1 (rs' @ rest)) bids = Ok (s', replay_with lt t' rest)"
    by (auto simp: records_def)
  with rs records_trans [OF rs(1)] show ?case by (intro exI [of _ "rs @ rs'"]) auto
qed

text \<open>Two contexts that see the same blobs; they may differ in the events they know.\<close>

definition same_blobs :: "exec_ctx \<Rightarrow> exec_ctx \<Rightarrow> bool" where
  "same_blobs cx cx' \<longleftrightarrow> xc_chain_id cx' = xc_chain_id cx \<and> xc_get_blob cx' = xc_get_blob cx \<and>
    xc_contains_blob cx' = xc_contains_blob cx"

lemma same_blobs_reads:
  assumes "same_blobs cx cx'"
  shows "read_blob_content cx' bid = read_blob_content cx bid" "assert_blob_exists cx' bid = assert_blob_exists cx bid"
    "check_bytecode_blobs cx' m (replay_with lt t rs) = check_bytecode_blobs cx m t"
    "credit_or_send_message cx' s source r a = credit_or_send_message cx s source r a"
    "transfer cx' s signer app source r a = transfer cx s signer app source r a"
    "claim cx' s signer app source target r a = claim cx s signer app source target r a"
  using assms
  by (simp_all add: same_blobs_def read_blob_content_def assert_blob_exists_def check_bytecode_blobs_def
      credit_or_send_message_def transfer_def claim_def)

lemma required_replays:
  assumes "\<And>s t app s' t' d. describe_application fuel cd cx s t app = Ok (s', t', d) \<Longrightarrow> tt_replaying t = None \<Longrightarrow>
      \<exists>rs. records t rs t' \<and> (\<forall>rest. describe_application fuel cd cx' s (replay_with lt t (rs @ rest)) app = Ok (s', replay_with lt t' rest, d))"
    and "check_required_applications fuel cd cx s t apps = Ok (s', t')" "tt_replaying t = None"
  shows "\<exists>rs. records t rs t' \<and>
    (\<forall>rest. check_required_applications fuel cd cx' s (replay_with lt t (rs @ rest)) apps = Ok (s', replay_with lt t' rest))"
  using assms(2,3)
proof (induction apps arbitrary: s t)
  case Nil
  then show ?case by (intro exI [of _ "[]"]) (auto simp: records_refl)
next
  case (Cons app apps)
  then obtain s1 t1 d where 1: "describe_application fuel cd cx s t app = Ok (s1, t1, d)"
    "check_required_applications fuel cd cx s1 t1 apps = Ok (s', t')"
    by (auto simp: and_then_Ok)
  from assms(1) [OF 1(1) Cons.prems(2)] obtain rs where rs: "records t rs t1"
    "\<And>rest. describe_application fuel cd cx' s (replay_with lt t (rs @ rest)) app = Ok (s1, replay_with lt t1 rest, d)" by blast
  from Cons.IH [OF 1(2)] rs(1) obtain rs' where "records t1 rs' t'"
    "\<And>rest. check_required_applications fuel cd cx' s1 (replay_with lt t1 (rs' @ rest)) apps = Ok (s', replay_with lt t' rest)"
    by (auto simp: records_def)
  with rs records_trans [OF rs(1)] show ?case by (intro exI [of _ "rs @ rs'"]) auto
qed

lemma describe_replays:
  assumes "same_blobs cx cx'" "describe_application fuel cd cx s t app = Ok (s', t', d)" "tt_replaying t = None"
  shows "\<exists>rs. records t rs t' \<and>
    (\<forall>rest. describe_application fuel cd cx' s (replay_with lt t (rs @ rest)) app = Ok (s', replay_with lt t' rest, d))"
  using assms(2,3)
proof (induction fuel arbitrary: s t app s' t' d)
  case (Suc fuel)
  note same = same_blobs_reads [OF assms(1)]
  let ?bid = "description_blob_id app"
  from Suc.prems(1) obtain content s1 t1 b bids s2 t2 where
    1: "(case btm_get (tt_blobs t) ?bid of Some content \<Rightarrow> Ok content | None \<Rightarrow> read_blob_content cx ?bid) = Ok content"
    and 2: "blob_used s t ?bid = Ok (s1, t1, b)"
    and 3: "ok_or (cd_decode_application cd (content_bytes content)) BcsError = Ok d"
    and 4: "check_bytecode_blobs cx (ad_module_id d) t1 = Ok bids" and 5: "blobs_used s1 t1 bids = Ok (s2, t2)"
    and 6: "check_required_applications fuel cd cx s2 t2 (ad_required_application_ids d) = Ok (s', t')"
    by (auto simp: Let_def and_then_Ok)
  from blob_used_replays [OF 2 Suc.prems(2)] obtain rs1 where
    r1: "records t rs1 t1" "\<And>rest. blob_used s (replay_with lt t (rs1 @ rest)) ?bid = Ok (s1, replay_with lt t1 rest, b)" by blast
  from blobs_used_replays [OF 5] r1(1) obtain rs2 where
    r2: "records t1 rs2 t2" "\<And>rest. blobs_used s1 (replay_with lt t1 (rs2 @ rest)) bids = Ok (s2, replay_with lt t2 rest)"
    by (auto simp: records_def)
  have "tt_replaying t2 = None" using r2(1) by (simp add: records_def)
  from required_replays [OF Suc.IH 6 this] obtain rs3 where r3: "records t2 rs3 t'"
    "\<And>rest. check_required_applications fuel cd cx' s2 (replay_with lt t2 (rs3 @ rest)) (ad_required_application_ids d) =
      Ok (s', replay_with lt t' rest)" by blast
  have "describe_application (Suc fuel) cd cx' s (replay_with lt t ((rs1 @ rs2 @ rs3) @ rest)) app = Ok (s', replay_with lt t' rest, d)" for rest
    using 1 3 4 r1(2) [of "rs2 @ rs3 @ rest"] r2(2) [of "rs3 @ rest"] r3(2) [of rest]
    by (simp add: Let_def same cong: option.case_cong)
  with records_trans [OF r1(1) records_trans [OF r2(1) r3(1)]] show ?case by blast
qed simp

lemma create_committee_replays:
  assumes "same_blobs cx cx'" "create_committee cd cx s t ep h = Ok (s', t')" "tt_replaying t = None"
  shows "\<exists>rs. records t rs t' \<and>
    (\<forall>rest. create_committee cd cx' s (replay_with lt t (rs @ rest)) ep h = Ok (s', replay_with lt t' rest))"
proof -
  from assms(2) obtain content c s1 b where 1: "read_blob_content cx (BlobId CommitteeBlob h) = Ok content"
    "ok_or (cd_decode_committee cd (content_bytes content)) BcsError = Ok c"
    "blob_used s t (BlobId CommitteeBlob h) = Ok (s1, t', b)"
    "s' = s1\<lparr> sy_committees := btm_insert ep c (sy_committees s1), sy_epoch := ep \<rparr>"
    by (auto simp: create_committee_def Let_def and_then_Ok)
  from blob_used_replays [OF 1(3) assms(3)] obtain rs where "records t rs t'"
    "\<And>rest. blob_used s (replay_with lt t (rs @ rest)) (BlobId CommitteeBlob h) = Ok (s1, replay_with lt t' rest, b)" by blast
  with 1 same_blobs_reads(1) [OF assms(1)] show ?thesis
    by (intro exI [of _ rs]) (simp add: create_committee_def Let_def)
qed

lemma create_application_replays:
  assumes "same_blobs cx cx'" "create_application depth cd cx s t ch ht m ps req = Ok (s', t', app)" "tt_replaying t = None"
  shows "\<exists>rs. records t rs t' \<and>
    (\<forall>rest. create_application depth cd cx' s (replay_with lt t (rs @ rest)) ch ht m ps req = Ok (s', replay_with lt t' rest, app))"
proof -
  define t0 where "t0 = t\<lparr> tt_next_application_index := tt_next_application_index t + 1 \<rparr>"
  define d where "d = \<lparr> ad_module_id = m, ad_creator_chain_id = ch, ad_block_height = ht,
      ad_application_index = tt_next_application_index t, ad_parameters = ps, ad_required_application_ids = req \<rparr>"
  from assms(2) obtain bids s2 t2 s3 t3 bl where 1: "check_bytecode_blobs cx m t0 = Ok bids"
    and 2: "blobs_used s t0 bids = Ok (s2, t2)" and 3: "check_required_applications depth cd cx s2 t2 req = Ok (s3, t3)"
    and 4: "ok_or (Blob_new cd (content_new_application_description cd d)) (RuntimeError ''panic'') = Ok bl"
    and 5: "s' = s3\<lparr> sy_used_blobs := bts_insert (blob_id_of bl) (sy_used_blobs s3) \<rparr>" "t' = add_created_blob t3 bl"
      "app = application_id_of cd d"
    by (auto simp: create_application_def next_application_index_def Let_def and_then_Ok t0_def d_def)
  have t0: "tt_replaying t0 = None" "tt_oracle_responses t0 = tt_oracle_responses t"
    using assms(3) by (simp_all add: t0_def)
  from blobs_used_replays [OF 2 t0(1)] obtain rs2 where
    r2: "records t0 rs2 t2" "\<And>rest. blobs_used s (replay_with lt t0 (rs2 @ rest)) bids = Ok (s2, replay_with lt t2 rest)" by blast
  from required_replays [OF describe_replays [OF assms(1)] 3] r2(1) obtain rs3 where r3: "records t2 rs3 t3"
    "\<And>rest. check_required_applications depth cd cx' s2 (replay_with lt t2 (rs3 @ rest)) req = Ok (s3, replay_with lt t3 rest)"
    by (auto simp: records_def)
  have "next_application_index (replay_with lt t rs) = (replay_with lt t0 rs, tt_next_application_index t)" for rs
    by (simp add: next_application_index_def t0_def)
  moreover have "add_created_blob (replay_with lt t3 rs) bl = replay_with lt t' rs" for rs
    by (simp add: 5(2) add_created_blob_def)
  ultimately have "create_application depth cd cx' s (replay_with lt t ((rs2 @ rs3) @ rest)) ch ht m ps req =
      Ok (s', replay_with lt t' rest, app)" for rest
    using r2(2) [of "rs3 @ rest"] r3(2) [of rest] 1 4 5(1,3)
    by (simp add: create_application_def Let_def same_blobs_reads [OF assms(1)] d_def [symmetric])
  moreover have "records t (rs2 @ rs3) t'"
    using records_trans [OF r2(1) r3(1)] t0(2) assms(3) by (simp add: records_def 5(2) add_created_blob_def)
  ultimately show ?thesis by blast
qed

lemma add_stream_replaying:
  "add_stream_to_process (t\<lparr> tt_replaying := r \<rparr>) app ch st i j = (add_stream_to_process t app ch st i j)\<lparr> tt_replaying := r \<rparr>"
  "tt_replaying (add_stream_to_process t app ch st i j) = tt_replaying t"
  "tt_oracle_responses (add_stream_to_process t app ch st i j) = tt_oracle_responses t"
  "add_stream_to_process (t\<lparr> tt_local_time := lt \<rparr>) app ch st i j = (add_stream_to_process t app ch st i j)\<lparr> tt_local_time := lt \<rparr>"
  by (simp_all add: add_stream_to_process_def Let_def)

lemma add_streams_replaying:
  "foldl (\<lambda>t app. add_stream_to_process t app ch st i j) (t\<lparr> tt_replaying := r \<rparr>) apps =
    (foldl (\<lambda>t app. add_stream_to_process t app ch st i j) t apps)\<lparr> tt_replaying := r \<rparr>"
  "tt_replaying (foldl (\<lambda>t app. add_stream_to_process t app ch st i j) t apps) = tt_replaying t"
  "tt_oracle_responses (foldl (\<lambda>t app. add_stream_to_process t app ch st i j) t apps) = tt_oracle_responses t"
  "foldl (\<lambda>t app. add_stream_to_process t app ch st i j) (t\<lparr> tt_local_time := lt \<rparr>) apps =
    (foldl (\<lambda>t app. add_stream_to_process t app ch st i j) t apps)\<lparr> tt_local_time := lt \<rparr>"
  by (induction apps arbitrary: t) (simp_all add: add_stream_replaying)

lemma update_streams_replays:
  assumes "update_streams cx s t missing streams = Ok (s', t', m)" "tt_replaying t = None"
  shows "\<exists>rs. records t rs t' \<and>
    (\<forall>rest missing'. update_streams cx' s (replay_with lt t (rs @ rest)) missing' streams = Ok (s', replay_with lt t' rest, missing'))"
  using assms
proof (induction streams arbitrary: s t missing)
  case Nil
  then show ?case by (intro exI [of _ "[]"]) (auto simp: records_refl)
next
  case (Cons e streams)
  obtain chain stream next_index where e: "e = (chain, stream, next_index)" by (cases e)
  define sub where "sub = (case btm_get (sy_event_subscriptions s) (chain, stream) of
           Some e \<Rightarrow> e | None \<Rightarrow> \<lparr> es_next_index = 0, es_applications = [] \<rparr>)"
  define t0 where "t0 = foldl (\<lambda>t app. add_stream_to_process t app chain stream (es_next_index sub) next_index) t (es_applications sub)"
  define s0 where "s0 = s\<lparr> sy_event_subscriptions := btm_insert (chain, stream) (sub\<lparr> es_next_index := next_index \<rparr>)
               (sy_event_subscriptions s) \<rparr>"
  from Cons.prems(1) obtain index t1 r m1 where 1: "es_next_index sub < next_index"
    "map_err ArithmeticError (ok_or (checked_sub next_index 1) Underflow) = Ok index"
    "tracker_oracle t0 (Ok (OracleEventExists \<lparr> event_chain_id = chain, event_id_stream = stream, event_id_index = index \<rparr>)) = Ok (t1, r)"
    "update_streams cx s0 t1 m1 streams = Ok (s', t', m)"
    unfolding e update_streams.simps Let_def sub_def [symmetric] t0_def [symmetric] s0_def [symmetric]
    by (auto simp: and_then_Ok ensure_Ok)
  have t0: "tt_replaying t0 = None" "records t [] t0"
    using Cons.prems(2) by (simp_all add: t0_def add_streams_replaying records_def)
  note r1 = tracker_oracle_replays [OF 1(3) t0(1)]
  then have "tt_replaying t1 = None" by (simp add: records_def)
  from Cons.IH [OF 1(4) this] obtain rs where rs: "records t1 rs t'"
    "\<And>rest missing'. update_streams cx' s0 (replay_with lt t1 (rs @ rest)) missing' streams = Ok (s', replay_with lt t' rest, missing')"
    by blast
  have "update_streams cx' s (replay_with lt t ((r # rs) @ rest)) missing' (e # streams) = Ok (s', replay_with lt t' rest, missing')" for rest missing'
    unfolding e update_streams.simps Let_def sub_def [symmetric] add_streams_replaying(1,4) t0_def [symmetric] s0_def [symmetric]
    using 1(1,2) tracker_oracle_replays [OF 1(3) t0(1), of lt] rs(2) by (simp add: ensure_def)
  moreover have "records t (r # rs) t'"
    using records_trans [OF t0(2) records_trans [OF conjunct1 [OF r1] rs(1)]] by simp
  ultimately show ?case by blast
qed

lemma tracker_updates_replaying:
  "add_outgoing_messages (t\<lparr> tt_replaying := r \<rparr>) ms = (add_outgoing_messages t ms)\<lparr> tt_replaying := r \<rparr>"
  "add_event (t\<lparr> tt_replaying := r \<rparr>) st i v = (add_event t st i v)\<lparr> tt_replaying := r \<rparr>"
  "add_published_blob (t\<lparr> tt_replaying := r \<rparr>) bid = (add_published_blob t bid)\<lparr> tt_replaying := r \<rparr>"
  "add_outgoing_messages (t\<lparr> tt_local_time := lt \<rparr>) ms = (add_outgoing_messages t ms)\<lparr> tt_local_time := lt \<rparr>"
  "add_event (t\<lparr> tt_local_time := lt \<rparr>) st i v = (add_event t st i v)\<lparr> tt_local_time := lt \<rparr>"
  "add_published_blob (t\<lparr> tt_local_time := lt \<rparr>) bid = (add_published_blob t bid)\<lparr> tt_local_time := lt \<rparr>"
  "records t [] (add_outgoing_messages t ms) \<longleftrightarrow> tt_replaying t = None"
  "records t rs (add_event t' st i v) \<longleftrightarrow> records t rs t'"
  "records t rs (add_published_blob t' bid) \<longleftrightarrow> records t rs t'"
  by (simp_all add: add_outgoing_messages_eq add_event_def add_published_blob_def records_def)

lemma publish_all_replays:
  "foldl (\<lambda>(s, t) bid. blob_published s t bid) (s, t) bids = (s', t') \<Longrightarrow> tt_replaying t = None \<Longrightarrow>
    records t [] t' \<and> foldl (\<lambda>(s, t) bid. blob_published s t bid) (s, replay_with lt t rs) bids = (s', replay_with lt t' rs)"
proof (induction bids arbitrary: s t)
  case (Cons bid bids)
  then show ?case
    using Cons.IH [of _ "add_published_blob t bid"]
    by (simp add: blob_published_def tracker_updates_replaying records_refl)
      (simp add: add_published_blob_def records_def)
qed (simp add: records_refl)

definition op_replays :: "timestamp \<Rightarrow> nat \<Rightarrow> codec \<Rightarrow> exec_ctx \<Rightarrow> system_state \<Rightarrow> tracker \<Rightarrow> account_owner option resource_controller
    \<Rightarrow> operation_context \<Rightarrow> system_operation \<Rightarrow>
    system_state \<Rightarrow> tracker \<Rightarrow> account_owner option resource_controller \<Rightarrow> (application_id \<times> bytes) option \<Rightarrow> bool" where
  "op_replays lt depth cd cx' s t rc context op s' t' rc' na \<longleftrightarrow>
    (\<exists>rs. records t rs t' \<and>
      (\<forall>rest. system_execute_operation depth cd cx' s (replay_with lt t (rs @ rest)) rc context op =
        Ok (s', replay_with lt t' rest, rc', na)))"

lemma admin_op_replays:
  assumes "same_blobs cx cx'" "tt_replaying t = None"
    "system_execute_operation depth cd cx s t rc context (Admin op) = Ok (s', t', rc', na)"
  shows "op_replays lt depth cd cx' s t rc context (Admin op) s' t' rc' na"
proof (cases op)
  case (PublishCommitteeBlob h)
  with assms show ?thesis
    by (auto simp: op_replays_def system_execute_operation_def and_then_Ok ensure_def blob_published_def
        tracker_updates_replaying records_refl intro!: exI [of _ "[]"] split: if_splits)
next
  case (CreateCommittee ep h)
  with assms(3) obtain t1 where 1: "sy_admin_id s = Some (octx_chain_id context)" "check_next_epoch s ep = Ok ()"
    "create_committee cd cx s t ep h = Ok (s', t1)" "rc' = rc" "na = None"
    "t' = add_event t1 (StreamId_system EPOCH_STREAM_NAME) ep (cd_encode_hash cd h)"
    by (auto simp: system_execute_operation_def and_then_Ok ensure_Ok)
  from create_committee_replays [OF assms(1) 1(3) assms(2), of lt] 1 CreateCommittee show ?thesis
    by (auto simp: op_replays_def system_execute_operation_def tracker_updates_replaying ensure_def)
next
  case (RemoveCommittee ep)
  with assms show ?thesis
    by (auto simp: op_replays_def system_execute_operation_def and_then_Ok ensure_def
        tracker_updates_replaying records_refl intro!: exI [of _ "[]"] split: if_splits)
qed

lemma process_new_epoch_replays:
  assumes "same_blobs cx cx'" "tt_replaying t = None"
    "system_execute_operation depth cd cx s t rc context (ProcessNewEpoch ep) = Ok (s', t', rc', na)"
  shows "op_replays lt depth cd cx' s t rc context (ProcessNewEpoch ep) s' t' rc' na"
proof -
  from assms(3) obtain admin f t1 r v h where 1: "check_next_epoch s ep = Ok ()" "sy_admin_id s = Some admin"
    "tracker_oracle t f = Ok (t1, r)"
    "to_event r \<lparr> event_chain_id = admin, event_id_stream = StreamId_system EPOCH_STREAM_NAME, event_id_index = ep \<rparr> = Ok v"
    "cd_decode_hash cd v = Some h" "create_committee cd cx s t1 ep h = Ok (s', t')" "rc' = rc" "na = None"
    by (auto simp: system_execute_operation_def and_then_Ok Let_def ok_or_Ok)
  note r1 = tracker_oracle_replays [OF 1(3) assms(2)]
  then have "tt_replaying t1 = None" by (simp add: records_def)
  from create_committee_replays [OF assms(1) 1(6) this] obtain rs where rs: "records t1 rs t'"
    "\<And>rest. create_committee cd cx' s (replay_with lt t1 (rs @ rest)) ep h = Ok (s', replay_with lt t' rest)" by blast
  from records_trans [OF conjunct1 [OF r1] rs(1)] r1 rs(2) 1 show ?thesis
    unfolding op_replays_def
    by (intro exI [of _ "r # rs"]) (simp add: system_execute_operation_def Let_def ok_or_def)
qed

lemma process_removed_epoch_replays:
  assumes "tt_replaying t = None"
    "system_execute_operation depth cd cx s t rc context (ProcessRemovedEpoch ep) = Ok (s', t', rc', na)"
  shows "op_replays lt depth cd cx' s t rc context (ProcessRemovedEpoch ep) s' t' rc' na"
proof -
  from assms(2) obtain admin f r where 1: "remove_committee s ep = Ok s'" "sy_admin_id s' = Some admin"
    "tracker_oracle t f = Ok (t', r)" "rc' = rc" "na = None"
    by (auto simp: system_execute_operation_def and_then_Ok Let_def ok_or_Ok)
  from tracker_oracle_replays [OF 1(3) assms(1)] 1 show ?thesis
    unfolding op_replays_def
    by (intro exI [of _ "[r]"]) (simp add: system_execute_operation_def Let_def ok_or_def)
qed

lemma other_op_replays:
  assumes "same_blobs cx cx'" "tt_replaying t = None"
    "system_execute_operation depth cd cx s t rc context op = Ok (s', t', rc', na)"
    and "case op of Transfer _ _ _ \<Rightarrow> True | Claim _ _ _ _ \<Rightarrow> True | CloseChain \<Rightarrow> True | ChangeOwnership _ _ _ _ _ \<Rightarrow> True
      | ChangeApplicationPermissions _ \<Rightarrow> True | PublishDataBlob _ \<Rightarrow> True | OpenChain _ \<Rightarrow> True | _ \<Rightarrow> False"
  shows "op_replays lt depth cd cx' s t rc context op s' t' rc' na"
  using assms(2-4) same_blobs_reads(5,6) [OF assms(1)]
  by (cases op)
    (auto simp: op_replays_def system_execute_operation_def and_then_Ok open_chain_def next_chain_index_def Let_def
      add_created_blob_def blob_published_def add_outgoing_messages_eq add_published_blob_def records_def intro!: exI [of _ "[]"])

lemma system_operation_replays:
  assumes "same_blobs cx cx'" "tt_replaying t = None"
    and run: "system_execute_operation depth cd cx s t rc context op = Ok (s', t', rc', na)"
  shows "op_replays lt depth cd cx' s t rc context op s' t' rc' na"
proof (cases op)
  case (Admin x)
  with admin_op_replays [OF assms(1,2)] run show ?thesis by blast
next
  case (ProcessNewEpoch x)
  with process_new_epoch_replays [OF assms(1,2)] run show ?thesis by blast
next
  case (ProcessRemovedEpoch x)
  with process_removed_epoch_replays [OF assms(2)] run show ?thesis by blast
next
  case (UpdateStreams streams)
  with run obtain m where "update_streams cx s t [] streams = Ok (s', t', m)" "rc' = rc" "na = None"
    by (auto simp: system_execute_operation_def and_then_Ok)
  with update_streams_replays [OF this(1) assms(2), of cx' lt] UpdateStreams show ?thesis
    by (auto simp: op_replays_def system_execute_operation_def)
next
  case (CreateApplication m ps arg req)
  with run obtain app where app: "create_application depth cd cx s t (octx_chain_id context) (octx_height context) m ps req
      = Ok (s', t', app)" "rc' = rc" "na = Some (app, arg)"
    by (auto simp: system_execute_operation_def and_then_Ok)
  from create_application_replays [OF assms(1) app(1) assms(2), of lt] app(2,3) CreateApplication show ?thesis
    by (auto simp: op_replays_def system_execute_operation_def)
next
  case (VerifyBlob bid)
  with run obtain s1 b where 1: "assert_blob_exists cx bid = Ok ()"
    "with_state s rc (\<lambda>r. track_blob_read sources_holder r 0) = Ok (s1, rc')" "blob_used s1 t bid = Ok (s', t', b)" "na = None"
    by (auto simp: system_execute_operation_def and_then_Ok)
  from blob_used_replays [OF 1(3) assms(2)] obtain rs where "records t rs t'"
    "\<And>rest. blob_used s1 (replay_with lt t (rs @ rest)) bid = Ok (s', replay_with lt t' rest, b)" by blast
  with 1 VerifyBlob same_blobs_reads(2) [OF assms(1)] show ?thesis
    unfolding op_replays_def by (intro exI [of _ rs]) (simp add: system_execute_operation_def)
next
  case (PublishModule m)
  with run obtain t1 where "foldl (\<lambda>(s, t) bid. blob_published s t bid) (s, t) (bytecode_blob_ids m) = (s', t')"
    "rc' = rc" "na = None"
    by (auto simp: system_execute_operation_def split: prod.splits)
  with publish_all_replays [OF this(1) assms(2)] PublishModule show ?thesis
    by (auto simp: op_replays_def system_execute_operation_def intro!: exI [of _ "[]"])
qed (use other_op_replays [OF assms(1,2)] run in \<open>simp_all\<close>)

definition demo_blob_ctx :: "chain_id \<Rightarrow> exec_ctx" where
  "demo_blob_ctx chain =
    (demo_ctx chain)\<lparr> xc_get_blob := \<lambda>bid. Some \<lparr> content_blob_type = id_blob_type bid, content_bytes = [3] \<rparr> \<rparr>"

definition demo_committee_codec :: codec where
  "demo_committee_codec = demo_codec\<lparr> cd_decode_committee := \<lambda>_. Some demo_committee \<rparr>"

lemmas demo_epoch_simps = system_execute_operation_def check_next_epoch_def try_add_one_def checked_add_def ok_or_def
  demo_system_def demo_context_def demo_blob_ctx_def demo_ctx_def demo_committee_codec_def demo_codec_def demo_tracker_def
  TransactionTracker_new_def tracker_oracle_def next_replayed_oracle_response_def ctx_get_event_def to_event_def
  create_committee_def read_blob_content_def blob_used_def replay_oracle_response_def ensure_def Let_def

section \<open>Migrating to a new epoch\<close>

lemma blob_used_records: "tt_replaying t = None \<Longrightarrow> \<exists>s' t' b. blob_used s t bid = Ok (s', t', b) \<and> tt_replaying t' = None"
  by (simp add: blob_used_def replay_oracle_response_def next_replayed_oracle_response_def Let_def) blast

lemma create_committee_Ok:
  assumes "create_committee cd cx s t ep h = Ok (s', t')" "btm_ok (sy_committees s)"
  shows "\<exists>content c. xc_get_blob cx (BlobId CommitteeBlob h) = Some content \<and>
    cd_decode_committee cd (content_bytes content) = Some c \<and> current_committee s' = Some (ep, c) \<and> sy_epoch s' = ep \<and>
    btm_ok (sy_committees s')"
proof -
  have same: "sy_committees s1 = sy_committees s" if "blob_used s t bid = Ok (s1, t1, b)" for s1 t1 b bid
    using committees_frame.blob_used_frame [OF that] by simp
  from assms show ?thesis
    by (auto simp: create_committee_def Let_def and_then_Ok ok_or_Ok read_blob_content_def current_committee_def
        dest!: same)
qed

lemma create_committee_runs:
  assumes "tt_replaying t = None" "xc_get_blob cx (BlobId CommitteeBlob h) = Some content"
    "cd_decode_committee cd (content_bytes content) = Some c"
  shows "\<exists>s' t'. create_committee cd cx s t ep h = Ok (s', t')"
  using blob_used_records [OF assms(1), of s "BlobId CommitteeBlob h"] assms(2,3)
  by (auto simp: create_committee_def Let_def read_blob_content_def ok_or_def)



section \<open>Opening and initializing a chain\<close>

text \<open>
  \<^bold>\<open>C36\<close>. Opening a chain moves tokens into it and fixes its configuration: after \<open>open_chain\<close>
  the parent has exactly the initial balance less, the blob it created is found under the
  identifier of the new chain, and the chain that is initialized from that blob has exactly this
  balance, the ownership, permissions and epoch of the configuration, and the committees of
  the epochs its parent trusted. A second initialization changes nothing.
\<close>

theorem opened_chain_initializes:
  assumes opened: "open_chain cd s t config parent_id height now = Ok (s', t', child)"
    and blobs: "btm_ok (tt_blobs t)" "\<And>bid. xc_get_blob cx bid = btm_get (tt_blobs t') bid"
    and roundtrip: "cd_decode_chain cd (cd_encode_chain cd (child_description s config parent_id height (tt_next_chain_index t) now)) =
      Some (child_description s config parent_id height (tt_next_chain_index t) now)"
    and known: "xc_committees_for cx (min_epoch (btm_keys (sy_committees s))) (max_epoch (btm_keys (sy_committees s))) = Ok committees"
      "xc_admin_chain_id cx = Some admin"
    and fresh: "sy_description c = None"
  shows "\<exists>c'. initialize_chain cd cx c child = Ok (c', False) \<and> initialize_chain cd cx c' child = Ok (c', True) \<and>
    sy_balance c' = occ_balance config \<and>
    unat (sy_balance s) = unat (sy_balance s') + unat (sy_balance c') \<and> sy_balances s' = sy_balances s \<and>
    sy_ownership c' = occ_ownership config \<and> sy_application_permissions c' = occ_application_permissions config \<and>
    sy_epoch c' = sy_epoch s \<and> sy_committees c' = committees \<and> sy_admin_id c' = Some admin \<and> sy_timestamp c' = now"
proof -
  define d where "d = child_description s config parent_id height (tt_next_chain_index t) now"
  let ?content = "content_new_chain_description cd d"
  have type: "content_blob_type ?content = ChainDescriptionBlob"
    by (simp add: content_new_chain_description_def)
  have blob: "Blob_new cd ?content = Some \<lparr> blob_hash = chain_id_of cd d, blob_content = ?content \<rparr>"
    by (simp add: Blob_new_def type chain_id_of_def Let_def)
  have child: "debit s CHAIN (occ_balance config) = Ok s'" "child = chain_id_of cd d"
    and t': "tt_blobs t' = btm_insert (BlobId ChainDescriptionBlob child) ?content (tt_blobs t)"
    using opened
    by (auto simp: open_chain_def next_chain_index_def Let_def and_then_Ok d_def [symmetric] blob ok_or_def type
        add_created_blob_def blob_id_of_def)
  have "xc_get_blob cx (BlobId ChainDescriptionBlob child) = Some ?content"
    using blobs by (simp add: t')
  then have "initialize_chain cd cx c child = Ok (c\<lparr> sy_timestamp := now, sy_description := Some d, sy_epoch := sy_epoch s,
      sy_committees := committees, sy_admin_id := Some admin, sy_ownership := occ_ownership config,
      sy_balance := occ_balance config, sy_application_permissions := occ_application_permissions config \<rparr>, False)"
    using fresh known roundtrip
    by (simp add: initialize_chain_def read_blob_content_def ok_or_def content_new_chain_description_def d_def
        child_description_def init_chain_config_def Let_def)
  moreover have "unat (sy_balance s) = unat (sy_balance s') + unat (occ_balance config)" "sy_balances s' = sy_balances s"
    using child(1) by (auto simp: debit_def try_sub_assign_def checked_sub_def unat_sub word_le_nat_alt split: if_splits)
  ultimately show ?thesis by (simp add: initialize_chain_def)
qed

theorem opened_chain_initializes_witness:
  "let config = \<lparr> occ_ownership = single (Address20 3), occ_balance = 400, occ_application_permissions = permissions_default \<rparr>;
       cd = demo_codec\<lparr> cd_decode_chain := \<lambda>_. Some (child_description demo_system config 5 3 0 100) \<rparr>
   in \<exists>s' t' child c'. open_chain cd demo_system demo_tracker config 5 3 100 = Ok (s', t', child) \<and>
     initialize_chain cd ((demo_ctx child)\<lparr> xc_get_blob := btm_get (tt_blobs t') \<rparr>) demo_system child = Ok (c', False) \<and>
     sy_balance c' = 400 \<and> unat (sy_balance s') = 600"
proof -
  let ?config = "\<lparr> occ_ownership = single (Address20 3), occ_balance = 400, occ_application_permissions = permissions_default \<rparr>"
  let ?cd = "demo_codec\<lparr> cd_decode_chain := \<lambda>_. Some (child_description demo_system ?config 5 3 0 100) \<rparr>"
  obtain s' t' child where opened: "open_chain ?cd demo_system demo_tracker ?config 5 3 100 = Ok (s', t', child)"
    by (simp add: open_chain_def next_chain_index_def demo_system_def debit_def try_sub_assign_def checked_sub_def
        Blob_new_def content_new_chain_description_def ok_or_def Let_def)
  have eq: "tt_next_chain_index demo_tracker = 0" "btm_ok (tt_blobs demo_tracker)" "sy_description demo_system = None"
    "sy_balance demo_system = 1000"
    by (simp_all add: demo_tracker_def TransactionTracker_new_def demo_system_def)
  from opened_chain_initializes [OF opened eq(2), of "(demo_ctx child)\<lparr> xc_get_blob := btm_get (tt_blobs t') \<rparr>" "[]" 7 demo_system]
  obtain c' where c': "initialize_chain ?cd ((demo_ctx child)\<lparr> xc_get_blob := btm_get (tt_blobs t') \<rparr>) demo_system child = Ok (c', False)"
    "unat (sy_balance demo_system) = unat (sy_balance s') + unat (sy_balance c')" "sy_balance c' = 400"
    by (auto simp: eq demo_ctx_def)
  then show ?thesis using opened eq(4) by (auto simp: Let_def)
qed

end
