(* ===== verification/Blocks.thy ===== *)
theory Blocks
  imports Operations
begin

text \<open>
  Blocks, proposals and their contents (\<open>linera-chain/src/data_types/mod.rs\<close>,
  \<open>linera-chain/src/block.rs\<close>) and the errors of the chain layer
  (\<open>linera-chain/src/lib.rs\<close>). Hashing is a parameter: a record with one function
  for each type the code hashes.
\<close>

subsection \<open>Messages and transactions\<close>

record posted_message =
  pm_authenticated_signer :: "account_owner option"
  pm_grant :: amount
  pm_refund_grant_to :: "account option"
  pm_kind :: message_kind
  pm_index :: u32
  pm_message :: message

definition into_posted :: "outgoing_message \<Rightarrow> u32 \<Rightarrow> posted_message" where
  "into_posted m index =
    \<lparr> pm_authenticated_signer = om_authenticated_signer m, pm_grant = om_grant m,
      pm_refund_grant_to = om_refund_grant_to m, pm_kind = om_kind m, pm_index = index,
      pm_message = om_message m \<rparr>"

definition message_is_skippable :: "posted_message \<Rightarrow> bool" where
  "message_is_skippable m =
    (case pm_kind m of Protected \<Rightarrow> False | Tracked \<Rightarrow> False | Simple \<Rightarrow> pm_grant m = 0 | Bouncing \<Rightarrow> pm_grant m = 0)"

definition message_is_protected :: "posted_message \<Rightarrow> bool" where
  "message_is_protected m \<longleftrightarrow> pm_kind m = Protected"

definition is_tracked :: "posted_message \<Rightarrow> bool" where
  "is_tracked m \<longleftrightarrow> pm_kind m = Tracked"

definition is_bouncing :: "posted_message \<Rightarrow> bool" where
  "is_bouncing m \<longleftrightarrow> pm_kind m = Bouncing"

record message_bundle =
  mb_height :: block_height
  mb_timestamp :: timestamp
  mb_certificate_hash :: crypto_hash
  mb_transaction_index :: u32
  mb_messages :: "posted_message list"

definition bundle_is_skippable :: "message_bundle \<Rightarrow> bool" where
  "bundle_is_skippable b = list_all message_is_skippable (mb_messages b)"

definition bundle_is_protected :: "message_bundle \<Rightarrow> bool" where
  "bundle_is_protected b = list_ex message_is_protected (mb_messages b)"

datatype message_action = Accept | Reject

record incoming_bundle =
  ib_origin :: chain_id
  ib_bundle :: message_bundle
  ib_action :: message_action

datatype transaction = ReceiveMessages incoming_bundle | ExecuteOperation operation

definition incoming_bundle_of :: "transaction \<Rightarrow> incoming_bundle option" where
  "incoming_bundle_of t = (case t of ReceiveMessages b \<Rightarrow> Some b | ExecuteOperation _ \<Rightarrow> None)"

definition operation_of :: "transaction \<Rightarrow> operation option" where
  "operation_of t = (case t of ExecuteOperation op \<Rightarrow> Some op | ReceiveMessages _ \<Rightarrow> None)"

definition operations_in :: "transaction list \<Rightarrow> operation list" where
  "operations_in ts = List.map_filter operation_of ts"

definition incoming_bundles_in :: "transaction list \<Rightarrow> incoming_bundle list" where
  "incoming_bundles_in ts = List.map_filter incoming_bundle_of ts"

subsection \<open>Proposed blocks and outcomes\<close>

record proposed_block =
  pb_chain_id :: chain_id
  pb_epoch :: epoch
  pb_transactions :: "transaction list"
  pb_height :: block_height
  pb_timestamp :: timestamp
  pb_authenticated_signer :: "account_owner option"
  pb_previous_block_hash :: "crypto_hash option"

definition pb_published_blob_ids :: "proposed_block \<Rightarrow> blob_id btree_set" where
  "pb_published_blob_ids b =
    bts_of_list (concat (map operation_published_blob_ids (operations_in (pb_transactions b))))"

definition has_only_rejected_messages :: "proposed_block \<Rightarrow> bool" where
  "has_only_rejected_messages b =
    list_all (\<lambda>t. case t of ReceiveMessages ib \<Rightarrow> ib_action ib = Reject | ExecuteOperation _ \<Rightarrow> False)
      (pb_transactions b)"

definition pb_incoming_messages :: "proposed_block \<Rightarrow> posted_message list" where
  "pb_incoming_messages b =
    concat (map (\<lambda>ib. mb_messages (ib_bundle ib)) (incoming_bundles_in (pb_transactions b)))"

definition message_count :: "proposed_block \<Rightarrow> nat" where
  "message_count b =
    sum_list (map (\<lambda>ib. length (mb_messages (ib_bundle ib))) (incoming_bundles_in (pb_transactions b)))"

record block_execution_outcome =
  beo_messages :: "outgoing_message list list"
  beo_previous_message_blocks :: "(chain_id, crypto_hash \<times> block_height) btree_map"
  beo_previous_event_blocks :: "(stream_id, crypto_hash \<times> block_height) btree_map"
  beo_state_hash :: crypto_hash
  beo_oracle_responses :: "oracle_response list list"
  beo_events :: "event list list"
  beo_blobs :: "blob list list"
  beo_operation_results :: "bytes list"

definition response_blob_id :: "oracle_response \<Rightarrow> blob_id option" where
  "response_blob_id r = (case r of OracleBlob b \<Rightarrow> Some b | _ \<Rightarrow> None)"

definition oracle_blob_ids_in :: "oracle_response list list \<Rightarrow> blob_id btree_set" where
  "oracle_blob_ids_in rss = bts_of_list (List.map_filter response_blob_id (concat rss))"

definition outcome_has_oracle_responses :: "block_execution_outcome \<Rightarrow> bool" where
  "outcome_has_oracle_responses out = list_ex (\<lambda>rs. rs \<noteq> []) (beo_oracle_responses out)"

definition created_blobs_ids :: "block_execution_outcome \<Rightarrow> blob_id btree_set" where
  "created_blobs_ids out = bts_of_list (map blob_id_of (concat (beo_blobs out)))"

subsection \<open>Blocks\<close>

record block_header =
  bh_chain_id :: chain_id
  bh_epoch :: epoch
  bh_height :: block_height
  bh_timestamp :: timestamp
  bh_state_hash :: crypto_hash
  bh_previous_block_hash :: "crypto_hash option"
  bh_authenticated_signer :: "account_owner option"
  bh_transactions_hash :: crypto_hash
  bh_messages_hash :: crypto_hash
  bh_previous_message_blocks_hash :: crypto_hash
  bh_previous_event_blocks_hash :: crypto_hash
  bh_oracle_responses_hash :: crypto_hash
  bh_events_hash :: crypto_hash
  bh_blobs_hash :: crypto_hash
  bh_operation_results_hash :: crypto_hash

record block_body =
  bb_transactions :: "transaction list"
  bb_messages :: "outgoing_message list list"
  bb_previous_message_blocks :: "(chain_id, crypto_hash \<times> block_height) btree_map"
  bb_previous_event_blocks :: "(stream_id, crypto_hash \<times> block_height) btree_map"
  bb_oracle_responses :: "oracle_response list list"
  bb_events :: "event list list"
  bb_blobs :: "blob list list"
  bb_operation_results :: "bytes list"

record block =
  b_header :: block_header
  b_body :: block_body

record timeout =
  to_chain_id :: chain_id
  to_height :: block_height
  to_epoch :: epoch

text \<open>\<open>CryptoHash::new\<close> at the types the code hashes.\<close>

record hashes =
  h_vec :: "crypto_hash list \<Rightarrow> crypto_hash"
  h_transaction :: "transaction \<Rightarrow> crypto_hash"
  h_message :: "outgoing_message \<Rightarrow> crypto_hash"
  h_previous_message_blocks :: "(chain_id, crypto_hash \<times> block_height) btree_map \<Rightarrow> crypto_hash"
  h_previous_event_blocks :: "(stream_id, crypto_hash \<times> block_height) btree_map \<Rightarrow> crypto_hash"
  h_oracle_response :: "oracle_response \<Rightarrow> crypto_hash"
  h_event :: "event \<Rightarrow> crypto_hash"
  h_blob :: "blob \<Rightarrow> crypto_hash"
  h_operation_result :: "bytes \<Rightarrow> crypto_hash"
  h_block :: "block \<Rightarrow> crypto_hash"
  h_timeout :: "timeout \<Rightarrow> crypto_hash"

definition hash_vec :: "hashes \<Rightarrow> ('a \<Rightarrow> crypto_hash) \<Rightarrow> 'a list \<Rightarrow> crypto_hash" where
  "hash_vec h f xs = h_vec h (map f xs)"

definition hash_vec_vec :: "hashes \<Rightarrow> ('a \<Rightarrow> crypto_hash) \<Rightarrow> 'a list list \<Rightarrow> crypto_hash" where
  "hash_vec_vec h f xss = h_vec h (map (hash_vec h f) xss)"

definition Block_new :: "hashes \<Rightarrow> proposed_block \<Rightarrow> block_execution_outcome \<Rightarrow> block" where
  "Block_new h pb out =
    \<lparr> b_header =
       \<lparr> bh_chain_id = pb_chain_id pb, bh_epoch = pb_epoch pb, bh_height = pb_height pb,
         bh_timestamp = pb_timestamp pb, bh_state_hash = beo_state_hash out,
         bh_previous_block_hash = pb_previous_block_hash pb,
         bh_authenticated_signer = pb_authenticated_signer pb,
         bh_transactions_hash = hash_vec h (h_transaction h) (pb_transactions pb),
         bh_messages_hash = hash_vec_vec h (h_message h) (beo_messages out),
         bh_previous_message_blocks_hash = h_previous_message_blocks h (beo_previous_message_blocks out),
         bh_previous_event_blocks_hash = h_previous_event_blocks h (beo_previous_event_blocks out),
         bh_oracle_responses_hash = hash_vec_vec h (h_oracle_response h) (beo_oracle_responses out),
         bh_events_hash = hash_vec_vec h (h_event h) (beo_events out),
         bh_blobs_hash = hash_vec_vec h (h_blob h) (beo_blobs out),
         bh_operation_results_hash = hash_vec h (h_operation_result h) (beo_operation_results out) \<rparr>,
      b_body =
       \<lparr> bb_transactions = pb_transactions pb, bb_messages = beo_messages out,
         bb_previous_message_blocks = beo_previous_message_blocks out,
         bb_previous_event_blocks = beo_previous_event_blocks out,
         bb_oracle_responses = beo_oracle_responses out, bb_events = beo_events out,
         bb_blobs = beo_blobs out, bb_operation_results = beo_operation_results out \<rparr> \<rparr>"

definition into_proposal :: "block \<Rightarrow> proposed_block \<times> block_execution_outcome" where
  "into_proposal b =
    (\<lparr> pb_chain_id = bh_chain_id (b_header b), pb_epoch = bh_epoch (b_header b),
       pb_transactions = bb_transactions (b_body b), pb_height = bh_height (b_header b),
       pb_timestamp = bh_timestamp (b_header b),
       pb_authenticated_signer = bh_authenticated_signer (b_header b),
       pb_previous_block_hash = bh_previous_block_hash (b_header b) \<rparr>,
     \<lparr> beo_messages = bb_messages (b_body b),
       beo_previous_message_blocks = bb_previous_message_blocks (b_body b),
       beo_previous_event_blocks = bb_previous_event_blocks (b_body b),
       beo_state_hash = bh_state_hash (b_header b),
       beo_oracle_responses = bb_oracle_responses (b_body b), beo_events = bb_events (b_body b),
       beo_blobs = bb_blobs (b_body b), beo_operation_results = bb_operation_results (b_body b) \<rparr>)"

definition matches_proposed_block :: "block \<Rightarrow> proposed_block \<Rightarrow> bool" where
  "matches_proposed_block b pb \<longleftrightarrow>
    pb_chain_id pb = bh_chain_id (b_header b) \<and>
    pb_epoch pb = bh_epoch (b_header b) \<and>
    pb_transactions pb = bb_transactions (b_body b) \<and>
    pb_height pb = bh_height (b_header b) \<and>
    pb_timestamp pb = bh_timestamp (b_header b) \<and>
    pb_authenticated_signer pb = bh_authenticated_signer (b_header b) \<and>
    pb_previous_block_hash pb = bh_previous_block_hash (b_header b)"

text \<open>Serialisation drops the hashes of the header; deserialisation recomputes them.\<close>

record serialized_header =
  sh_chain_id :: chain_id
  sh_epoch :: epoch
  sh_height :: block_height
  sh_timestamp :: timestamp
  sh_state_hash :: crypto_hash
  sh_previous_block_hash :: "crypto_hash option"
  sh_authenticated_signer :: "account_owner option"

definition block_serialize :: "block \<Rightarrow> serialized_header \<times> block_body" where
  "block_serialize b =
    (let hd = b_header b in
     (\<lparr> sh_chain_id = bh_chain_id hd, sh_epoch = bh_epoch hd, sh_height = bh_height hd,
        sh_timestamp = bh_timestamp hd, sh_state_hash = bh_state_hash hd,
        sh_previous_block_hash = bh_previous_block_hash hd,
        sh_authenticated_signer = bh_authenticated_signer hd \<rparr>, b_body b))"

definition block_deserialize :: "hashes \<Rightarrow> serialized_header \<times> block_body \<Rightarrow> block" where
  "block_deserialize h s =
    (case s of (sh, body) \<Rightarrow>
    \<lparr> b_header =
       \<lparr> bh_chain_id = sh_chain_id sh, bh_epoch = sh_epoch sh, bh_height = sh_height sh,
         bh_timestamp = sh_timestamp sh, bh_state_hash = sh_state_hash sh,
         bh_previous_block_hash = sh_previous_block_hash sh,
         bh_authenticated_signer = sh_authenticated_signer sh,
         bh_transactions_hash = hash_vec h (h_transaction h) (bb_transactions body),
         bh_messages_hash = hash_vec_vec h (h_message h) (bb_messages body),
         bh_previous_message_blocks_hash = h_previous_message_blocks h (bb_previous_message_blocks body),
         bh_previous_event_blocks_hash = h_previous_event_blocks h (bb_previous_event_blocks body),
         bh_oracle_responses_hash = hash_vec_vec h (h_oracle_response h) (bb_oracle_responses body),
         bh_events_hash = hash_vec_vec h (h_event h) (bb_events body),
         bh_blobs_hash = hash_vec_vec h (h_blob h) (bb_blobs body),
         bh_operation_results_hash = hash_vec h (h_operation_result h) (bb_operation_results body) \<rparr>,
      b_body = body \<rparr>)"

subsection \<open>Blobs and recipients of a block\<close>

definition block_published_blob_ids :: "block \<Rightarrow> blob_id btree_set" where
  "block_published_blob_ids b =
    bts_of_list (concat (map operation_published_blob_ids (operations_in (bb_transactions (b_body b)))))"

definition created_blob_ids :: "block \<Rightarrow> blob_id btree_set" where
  "created_blob_ids b = bts_of_list (map blob_id_of (concat (bb_blobs (b_body b))))"

definition created_blobs :: "block \<Rightarrow> (blob_id, blob) btree_map" where
  "created_blobs b = btm_of_list (map (\<lambda>x. (blob_id_of x, x)) (concat (bb_blobs (b_body b))))"

definition block_oracle_blob_ids :: "block \<Rightarrow> blob_id btree_set" where
  "block_oracle_blob_ids b = oracle_blob_ids_in (bb_oracle_responses (b_body b))"

definition required_blob_ids :: "block \<Rightarrow> blob_id btree_set" where
  "required_blob_ids b =
    (let ids = fold bts_insert (block_published_blob_ids b @ created_blob_ids b) (block_oracle_blob_ids b)
     in if bh_height (b_header b) = 0
        then bts_insert (BlobId ChainDescriptionBlob (bh_chain_id (b_header b))) ids else ids)"

definition requires_or_creates_blob :: "block \<Rightarrow> blob_id \<Rightarrow> bool" where
  "requires_or_creates_blob b blob_id \<longleftrightarrow>
    List.member (block_oracle_blob_ids b) blob_id \<or>
    List.member (block_published_blob_ids b) blob_id \<or>
    List.member (created_blob_ids b) blob_id \<or>
    (bh_height (b_header b) = 0 \<and>
      (id_blob_type blob_id = ChainDescriptionBlob \<and> id_hash blob_id = bh_chain_id (b_header b)))"

definition recipients :: "block \<Rightarrow> chain_id btree_set" where
  "recipients b = bts_of_list (concat (map (map om_destination) (bb_messages (b_body b))))"

definition block_has_oracle_responses :: "block \<Rightarrow> bool" where
  "block_has_oracle_responses b = list_ex (\<lambda>rs. rs \<noteq> []) (bb_oracle_responses (b_body b))"

subsection \<open>Message bundles\<close>

text \<open>The iterator \<open>(index..).zip(ms)\<close>, on 32-bit indices.\<close>

fun zip_from :: "u32 \<Rightarrow> 'a list \<Rightarrow> (u32 \<times> 'a) list" where
  "zip_from i [] = []"
| "zip_from i (x # xs) = (i, x) # zip_from (i + 1) xs"

fun bundles_from ::
  "block \<Rightarrow> chain_id \<Rightarrow> crypto_hash \<Rightarrow> u32 \<Rightarrow> u32 \<Rightarrow> outgoing_message list list \<Rightarrow> (epoch \<times> message_bundle) list" where
  "bundles_from b recipient cert_hash tx index [] = []"
| "bundles_from b recipient cert_hash tx index (txn_messages # rest) =
    (let messages = map (\<lambda>(idx, m). into_posted m idx)
           (filter (\<lambda>(_, m). om_destination m = recipient) (zip_from index txn_messages));
         tail = bundles_from b recipient cert_hash (tx + 1) (index + of_nat (length txn_messages)) rest
     in if messages = [] then tail
        else (bh_epoch (b_header b),
              \<lparr> mb_height = bh_height (b_header b), mb_timestamp = bh_timestamp (b_header b),
                mb_certificate_hash = cert_hash, mb_transaction_index = tx, mb_messages = messages \<rparr>) # tail)"

definition message_bundles_for :: "block \<Rightarrow> chain_id \<Rightarrow> crypto_hash \<Rightarrow> (epoch \<times> message_bundle) list" where
  "message_bundles_for b recipient cert_hash =
    bundles_from b recipient cert_hash 0 0 (bb_messages (b_body b))"

lemma zip_from_append:
  "zip_from i (xs @ ys) = zip_from i xs @ zip_from (i + of_nat (length xs)) ys"
  by (induction xs arbitrary: i) (simp_all add: algebra_simps)

lemma zip_from_nth:
  "k < length xs \<Longrightarrow> zip_from i xs ! k = (i + of_nat k, xs ! k)"
proof (induction xs arbitrary: i k)
  case (Cons x xs)
  then show ?case by (cases k) (simp_all add: algebra_simps)
qed simp

lemma length_zip_from [simp]: "length (zip_from i xs) = length xs"
  by (induction xs arbitrary: i) simp_all

lemma bundles_from_messages:
  "concat (map (mb_messages \<circ> snd) (bundles_from b recipient h tx index mss)) =
    map (\<lambda>(i, m). into_posted m i)
      (filter (\<lambda>(_, m). om_destination m = recipient) (zip_from index (concat mss)))"
  by (induction mss arbitrary: tx index) (simp_all add: Let_def zip_from_append)

lemma bundles_from_bundle:
  "(e, mb) \<in> set (bundles_from b recipient h tx index mss) \<Longrightarrow>
    e = bh_epoch (b_header b) \<and> mb_height mb = bh_height (b_header b) \<and>
    mb_timestamp mb = bh_timestamp (b_header b) \<and> mb_certificate_hash mb = h \<and> mb_messages mb \<noteq> []"
  by (induction mss arbitrary: tx index) (auto simp: Let_def split: if_splits)

lemma bundles_from_tx_ge:
  assumes "(e, mb) \<in> set (bundles_from b recipient h tx index mss)" and "unat tx + length mss \<le> 2 ^ 32"
  shows "unat tx \<le> unat (mb_transaction_index mb)"
  using assms
proof (induction mss arbitrary: tx index)
  case (Cons ms mss)
  from Cons.prems(1) consider "mb_transaction_index mb = tx"
    | "(e, mb) \<in> set (bundles_from b recipient h (tx + 1) (index + of_nat (length ms)) mss)"
    by (auto simp: Let_def split: if_splits)
  then show ?case
  proof cases
    case 2
    then have "mss \<noteq> []" by auto
    then have "unat (tx + 1) = unat tx + 1"
      using Cons.prems(2) by (cases mss) (simp_all add: unat_word_ariths)
    with Cons.IH [OF 2] Cons.prems(2) show ?thesis by simp
  qed simp
qed simp

lemma bundles_from_sorted:
  assumes "unat tx + length mss \<le> 2 ^ 32"
  shows "sorted_wrt (<) (map (mb_transaction_index \<circ> snd) (bundles_from b recipient h tx index mss))"
  using assms
proof (induction mss arbitrary: tx index)
  case (Cons ms mss)
  let ?tail = "bundles_from b recipient h (tx + 1) (index + of_nat (length ms)) mss"
  show ?case
  proof (cases "mss = []")
    case False
    then have suc: "unat (tx + 1) = unat tx + 1"
      using Cons.prems by (cases mss) (simp_all add: unat_word_ariths)
    have "tx < mb_transaction_index mb" if "(e, mb) \<in> set ?tail" for e mb
      using bundles_from_tx_ge [OF that] suc Cons.prems by (simp add: word_less_nat_alt)
    then show ?thesis
      using Cons.IH [of "tx + 1"] suc Cons.prems by (auto simp: Let_def)
  qed (simp add: Let_def)
qed simp

subsection \<open>Properties\<close>

text \<open>
  \<^bold>\<open>C21\<close>. A block built from a proposal and an outcome gives both back, matches exactly
  that proposal, and survives serialisation, which drops the header's hashes.
\<close>

theorem block_roundtrip:
  "into_proposal (Block_new h pb out) = (pb, out) \<and>
   (matches_proposed_block (Block_new h pb out) pb' \<longleftrightarrow> pb' = pb) \<and>
   block_deserialize h (block_serialize (Block_new h pb out)) = Block_new h pb out"
proof (intro conjI)
  show "into_proposal (Block_new h pb out) = (pb, out)"
    by (simp add: into_proposal_def Block_new_def)
  show "matches_proposed_block (Block_new h pb out) pb' \<longleftrightarrow> pb' = pb"
    by (cases pb; cases pb') (auto simp: matches_proposed_block_def Block_new_def)
  show "block_deserialize h (block_serialize (Block_new h pb out)) = Block_new h pb out"
    by (simp add: block_deserialize_def block_serialize_def Block_new_def Let_def)
qed

text \<open>
  \<^bold>\<open>C20\<close>. The bundles a block sends to a recipient carry exactly the messages addressed
  to it, in order and numbered by their position among all messages of the block; a
  bundle is never empty, carries the block's height, timestamp and certificate, and the
  transaction indices increase strictly.
\<close>

theorem message_bundles_complete:
  assumes "length (bb_messages (b_body b)) \<le> 2 ^ 32"
  shows "concat (map (mb_messages \<circ> snd) (message_bundles_for b recipient h)) =
      map (\<lambda>(i, m). into_posted m i)
        (filter (\<lambda>(_, m). om_destination m = recipient) (zip_from 0 (concat (bb_messages (b_body b))))) \<and>
    sorted_wrt (<) (map (mb_transaction_index \<circ> snd) (message_bundles_for b recipient h)) \<and>
    (\<forall>(e, mb) \<in> set (message_bundles_for b recipient h).
      e = bh_epoch (b_header b) \<and> mb_height mb = bh_height (b_header b) \<and>
      mb_timestamp mb = bh_timestamp (b_header b) \<and> mb_certificate_hash mb = h \<and> mb_messages mb \<noteq> [])"
  unfolding message_bundles_for_def
  using bundles_from_messages bundles_from_sorted [of 0 "bb_messages (b_body b)"] assms
  by (auto dest: bundles_from_bundle)

definition demo_outgoing :: "chain_id \<Rightarrow> outgoing_message" where
  "demo_outgoing c = OutgoingMessage_new c (UserMsg 9 [1])"

definition demo_proposed_block :: proposed_block where
  "demo_proposed_block =
    \<lparr> pb_chain_id = 1, pb_epoch = 0, pb_transactions = [], pb_height = 3, pb_timestamp = 8,
      pb_authenticated_signer = None, pb_previous_block_hash = Some 2 \<rparr>"

definition demo_outcome :: block_execution_outcome where
  "demo_outcome =
    \<lparr> beo_messages = [[demo_outgoing 5, demo_outgoing 7], [demo_outgoing 5], [demo_outgoing 7]],
      beo_previous_message_blocks = [], beo_previous_event_blocks = [], beo_state_hash = 4,
      beo_oracle_responses = [], beo_events = [], beo_blobs = [], beo_operation_results = [] \<rparr>"

text \<open>A concrete family of hash functions, for examples: enough to tell blocks apart by their state.\<close>

definition demo_hashes :: hashes where
  "demo_hashes =
    \<lparr> h_vec = (\<lambda>xs. of_nat (length xs)), h_transaction = (\<lambda>_. 0), h_message = (\<lambda>_. 0),
      h_previous_message_blocks = (\<lambda>_. 0), h_previous_event_blocks = (\<lambda>_. 0),
      h_oracle_response = (\<lambda>_. 0), h_event = (\<lambda>_. 0), h_blob = blob_hash,
      h_operation_result = (\<lambda>_. 0), h_block = (\<lambda>b. bh_state_hash (b_header b)),
      h_timeout = (\<lambda>t. ucast (to_height t)) \<rparr>"

theorem message_bundles_complete_witness:
  "concat (map (mb_messages \<circ> snd) (message_bundles_for (Block_new demo_hashes demo_proposed_block demo_outcome) 7 11)) =
    [into_posted (demo_outgoing 7) 1, into_posted (demo_outgoing 7) 3]"
proof -
  let ?b = "Block_new demo_hashes demo_proposed_block demo_outcome"
  have len: "length (bb_messages (b_body ?b)) \<le> 2 ^ 32"
    by (simp add: Block_new_def demo_outcome_def)
  from message_bundles_complete [OF len, of 7 11] show ?thesis
    by (simp add: Block_new_def demo_outcome_def demo_outgoing_def OutgoingMessage_new_def)
qed

text \<open>
  The two descriptions of the blobs a block needs agree: the membership test
  \<open>requires_or_creates_blob\<close> holds exactly on the set \<open>required_blob_ids\<close>.
\<close>

lemma required_blobs_agree:
  "requires_or_creates_blob b blob_id \<longleftrightarrow> blob_id \<in> set (required_blob_ids b)"
proof -
  have "set (fold bts_insert xs s) = set xs \<union> set s" for xs and s :: "blob_id btree_set"
    by (induction xs arbitrary: s) auto
  then show ?thesis
    by (cases blob_id) (auto simp: requires_or_creates_blob_def required_blob_ids_def Let_def)
qed

end
