(* ===== verification/Certificates.thy ===== *)
theory Certificates
  imports Committee Blocks "HOL-Library.Multiset"
begin

text \<open>
  Votes and certificates: \<open>linera-chain/src/data_types/mod.rs\<close> (votes, proposals, the
  signature aggregator, \<open>check_signatures\<close>) and \<open>linera-chain/src/certificate/\<close>.

  Signature verification is a parameter \<open>vf\<close>, which says whether a signature of a public
  key is valid for a vote value. The trait \<open>CertificateValue\<close> is a record of its items.
\<close>

type_synonym validator_signature = "512 word"

datatype certificate_kind = TimeoutKind | ValidatedKind | ConfirmedKind

datatype vote_value = VoteValue (vv_hash: crypto_hash) (vv_round: round) (vv_kind: certificate_kind)

type_synonym verifier = "validator_public_key \<Rightarrow> vote_value \<Rightarrow> validator_signature \<Rightarrow> bool"

datatype chain_execution_context = QueryContext | DescribeApplicationContext
  | IncomingBundleContext u32 | OperationContext u32 | BlockContext

datatype chain_error =
    CryptoError
  | ChainArithmeticError arithmetic_error
  | ChainExecutionError execution_error chain_execution_context
  | InactiveChain chain_id
  | MissingCrossChainUpdate chain_id chain_id block_height
  | UnexpectedMessage chain_id chain_id message_bundle message_bundle
  | IncorrectMessageOrder chain_id chain_id message_bundle block_height u32
  | CannotRejectMessage chain_id chain_id posted_message
  | CannotSkipMessage chain_id chain_id message_bundle
  | IncorrectBundleTimestamp chain_id timestamp timestamp
  | InvalidSigner
  | UnexpectedBlockHeight block_height block_height
  | UnexpectedPreviousBlockHash
  | BlockHeightOverflow
  | InvalidBlockTimestamp timestamp timestamp
  | InsufficientRound round
  | InsufficientRoundStrict round
  | WrongRound round
  | HasIncompatibleConfirmedVote block_height round
  | MustBeNewerThanLockingBlock block_height round
  | MissingEarlierBlocks block_height
  | CertificateValidatorReuse
  | CertificateRequiresQuorum
  | ChainInternalError string
  | BlockProposalTooLarge nat
  | ClosedChain
  | EmptyBlock
  | AuthorizedApplications "application_id list"
  | MissingMandatoryApplications "application_id list"
  | MissingOracleResponseList
  | RoundDoesNotTimeOut
  | NotTimedOutYet timestamp

subsection \<open>Certified values\<close>

record 't certificate_value =
  cv_kind :: certificate_kind
  cv_chain_id :: "'t \<Rightarrow> chain_id"
  cv_epoch :: "'t \<Rightarrow> epoch"
  cv_height :: "'t \<Rightarrow> block_height"
  cv_required_blob_ids :: "'t \<Rightarrow> blob_id btree_set"
  cv_hash :: "'t \<Rightarrow> crypto_hash"

definition timeout_value :: "hashes \<Rightarrow> timeout certificate_value" where
  "timeout_value h =
    \<lparr> cv_kind = TimeoutKind, cv_chain_id = to_chain_id, cv_epoch = to_epoch, cv_height = to_height,
      cv_required_blob_ids = (\<lambda>_. []), cv_hash = h_timeout h \<rparr>"

definition validated_value :: "hashes \<Rightarrow> block certificate_value" where
  "validated_value h =
    \<lparr> cv_kind = ValidatedKind, cv_chain_id = (\<lambda>b. bh_chain_id (b_header b)),
      cv_epoch = (\<lambda>b. bh_epoch (b_header b)), cv_height = (\<lambda>b. bh_height (b_header b)),
      cv_required_blob_ids = required_blob_ids, cv_hash = h_block h \<rparr>"

definition confirmed_value :: "hashes \<Rightarrow> block certificate_value" where
  "confirmed_value h =
    \<lparr> cv_kind = ConfirmedKind, cv_chain_id = (\<lambda>b. bh_chain_id (b_header b)),
      cv_epoch = (\<lambda>b. bh_epoch (b_header b)), cv_height = (\<lambda>b. bh_height (b_header b)),
      cv_required_blob_ids = required_blob_ids, cv_hash = h_block h \<rparr>"

subsection \<open>Votes\<close>

record lite_value =
  lv_value_hash :: crypto_hash
  lv_chain_id :: chain_id
  lv_kind :: certificate_kind

definition LiteValue_new :: "'t certificate_value \<Rightarrow> 't \<Rightarrow> lite_value" where
  "LiteValue_new T v = \<lparr> lv_value_hash = cv_hash T v, lv_chain_id = cv_chain_id T v, lv_kind = cv_kind T \<rparr>"

record 't vote =
  v_value :: 't
  v_round :: round
  v_signature :: validator_signature

record lite_vote =
  ltv_value :: lite_value
  ltv_round :: round
  ltv_signature :: validator_signature

text \<open>Signing with the validator's secret key: a parameter.\<close>

type_synonym signer = "vote_value \<Rightarrow> validator_signature"

definition Vote_new :: "'t certificate_value \<Rightarrow> 't \<Rightarrow> round \<Rightarrow> signer \<Rightarrow> 't vote" where
  "Vote_new T v r sign =
    \<lparr> v_value = v, v_round = r, v_signature = sign (VoteValue (cv_hash T v) r (cv_kind T)) \<rparr>"

definition vote_lite :: "'t certificate_value \<Rightarrow> 't vote \<Rightarrow> lite_vote" where
  "vote_lite T v = \<lparr> ltv_value = LiteValue_new T (v_value v), ltv_round = v_round v, ltv_signature = v_signature v \<rparr>"

definition LiteVote_new :: "lite_value \<Rightarrow> round \<Rightarrow> signer \<Rightarrow> lite_vote" where
  "LiteVote_new v r sign =
    \<lparr> ltv_value = v, ltv_round = r, ltv_signature = sign (VoteValue (lv_value_hash v) r (lv_kind v)) \<rparr>"

definition lite_vote_check :: "verifier \<Rightarrow> lite_vote \<Rightarrow> validator_public_key \<Rightarrow> (unit, chain_error) result" where
  "lite_vote_check vf v pk =
    ensure (vf pk (VoteValue (lv_value_hash (ltv_value v)) (ltv_round v) (lv_kind (ltv_value v))) (ltv_signature v))
      CryptoError"

definition lite_vote_with_value :: "'t certificate_value \<Rightarrow> lite_vote \<Rightarrow> 't \<Rightarrow> 't vote option" where
  "lite_vote_with_value T v x =
    (if lv_value_hash (ltv_value v) \<noteq> cv_hash T x then None
     else Some \<lparr> v_value = x, v_round = ltv_round v, v_signature = ltv_signature v \<rparr>)"

subsection \<open>Checking signatures\<close>

type_synonym signatures = "(validator_public_key \<times> validator_signature) list"

fun is_strictly_ordered :: "signatures \<Rightarrow> bool" where
  "is_strictly_ordered (a # b # rest) = (fst a < fst b \<and> is_strictly_ordered (b # rest))"
| "is_strictly_ordered _ = True"

definition quorum_step ::
  "committee \<Rightarrow> u64 \<times> validator_public_key list \<Rightarrow> validator_public_key \<times> validator_signature
    \<Rightarrow> (u64 \<times> validator_public_key list, chain_error) result" where
  "quorum_step c st e =
    (case (st, e) of ((wt, used), (validator, _)) \<Rightarrow>
      and_then (ensure (\<not> List.member used validator) CertificateValidatorReuse) (\<lambda>_.
        let voting_rights = weight c validator in
        and_then (ensure (0 < voting_rights) InvalidSigner) (\<lambda>_.
          Ok (wt + voting_rights, validator # used))))"

definition check_signatures ::
  "verifier \<Rightarrow> crypto_hash \<Rightarrow> certificate_kind \<Rightarrow> round \<Rightarrow> signatures \<Rightarrow> committee \<Rightarrow> (unit, chain_error) result" where
  "check_signatures vf value_hash kind r sigs c =
    and_then (try_fold (quorum_step c) (0, []) sigs) (\<lambda>(wt, used).
    and_then (ensure (quorum_threshold c \<le> wt) CertificateRequiresQuorum) (\<lambda>_.
    ensure (list_all (\<lambda>(k, s). vf k (VoteValue value_hash r kind) s) sigs) CryptoError))"

subsection \<open>Certificates\<close>

record 't certificate =
  c_value :: 't
  c_round :: round
  c_signatures :: signatures

record lite_certificate =
  lc_value :: lite_value
  lc_round :: round
  lc_signatures :: signatures

definition GenericCertificate_new :: "'t \<Rightarrow> round \<Rightarrow> signatures \<Rightarrow> 't certificate" where
  "GenericCertificate_new v r sigs = \<lparr> c_value = v, c_round = r, c_signatures = sort_key fst sigs \<rparr>"

text \<open>
  \<open>binary_search_by\<close> on a list sorted by key: the position of the key, or where to
  insert it.
\<close>

definition search_index :: "signatures \<Rightarrow> validator_public_key \<Rightarrow> nat" where
  "search_index sigs k = length (takeWhile (\<lambda>(name, _). name < k) sigs)"

definition add_signature :: "'t certificate \<Rightarrow> validator_public_key \<times> validator_signature \<Rightarrow> 't certificate" where
  "add_signature cert sg =
    (let i = search_index (c_signatures cert) (fst sg)
     in cert\<lparr> c_signatures := take i (c_signatures cert) @ sg # drop i (c_signatures cert) \<rparr>)"

definition is_signed_by :: "'t certificate \<Rightarrow> validator_public_key \<Rightarrow> bool" where
  "is_signed_by cert k =
    (let i = search_index (c_signatures cert) k
     in i < length (c_signatures cert) \<and> fst (c_signatures cert ! i) = k)"

definition certificate_check ::
  "verifier \<Rightarrow> 't certificate_value \<Rightarrow> 't certificate \<Rightarrow> committee \<Rightarrow> (unit, chain_error) result" where
  "certificate_check vf T cert c =
    check_signatures vf (cv_hash T (c_value cert)) (cv_kind T) (c_round cert) (c_signatures cert) c"

definition to_lite_certificate :: "'t certificate_value \<Rightarrow> 't certificate \<Rightarrow> lite_certificate" where
  "to_lite_certificate T cert =
    \<lparr> lc_value = LiteValue_new T (c_value cert), lc_round = c_round cert, lc_signatures = c_signatures cert \<rparr>"

definition LiteCertificate_new :: "lite_value \<Rightarrow> round \<Rightarrow> signatures \<Rightarrow> lite_certificate" where
  "LiteCertificate_new v r sigs = \<lparr> lc_value = v, lc_round = r, lc_signatures = sort_key fst sigs \<rparr>"

definition lite_certificate_check ::
  "verifier \<Rightarrow> lite_certificate \<Rightarrow> committee \<Rightarrow> (lite_value, chain_error) result" where
  "lite_certificate_check vf lc c =
    and_then (check_signatures vf (lv_value_hash (lc_value lc)) (lv_kind (lc_value lc)) (lc_round lc) (lc_signatures lc) c)
      (\<lambda>_. Ok (lc_value lc))"

definition check_value :: "'t certificate_value \<Rightarrow> lite_certificate \<Rightarrow> 't \<Rightarrow> bool" where
  "check_value T lc v \<longleftrightarrow>
    lv_chain_id (lc_value lc) = cv_chain_id T v \<and> cv_kind T = lv_kind (lc_value lc) \<and>
    lv_value_hash (lc_value lc) = cv_hash T v"

definition with_value :: "'t certificate_value \<Rightarrow> lite_certificate \<Rightarrow> 't \<Rightarrow> 't certificate option" where
  "with_value T lc v =
    (if lv_chain_id (lc_value lc) \<noteq> cv_chain_id T v \<or> cv_kind T \<noteq> lv_kind (lc_value lc) \<or>
        lv_value_hash (lc_value lc) \<noteq> cv_hash T v
     then None
     else Some (GenericCertificate_new v (lc_round lc) (lc_signatures lc)))"

fun collect_votes ::
  "lite_value \<Rightarrow> round \<Rightarrow> signatures \<Rightarrow> (validator_public_key \<times> lite_vote) list \<Rightarrow> signatures option" where
  "collect_votes v r sigs [] = Some sigs"
| "collect_votes v r sigs ((k, vote) # rest) =
    (if lv_value_hash (ltv_value vote) \<noteq> lv_value_hash v \<or> ltv_round vote \<noteq> r then None
     else collect_votes v r (sigs @ [(k, ltv_signature vote)]) rest)"

definition try_from_votes :: "(validator_public_key \<times> lite_vote) list \<Rightarrow> lite_certificate option" where
  "try_from_votes vs =
    (case vs of
       [] \<Rightarrow> None
     | (k, vote) # rest \<Rightarrow>
        map_option (LiteCertificate_new (ltv_value vote) (ltv_round vote))
          (collect_votes (ltv_value vote) (ltv_round vote) [(k, ltv_signature vote)] rest))"

subsection \<open>The signature aggregator\<close>

record 't aggregator =
  ag_committee :: committee
  ag_weight :: u64
  ag_used_validators :: "validator_public_key list"
  ag_partial :: "'t certificate"

definition SignatureAggregator_new :: "'t \<Rightarrow> round \<Rightarrow> committee \<Rightarrow> 't aggregator" where
  "SignatureAggregator_new v r c =
    \<lparr> ag_committee = c, ag_weight = 0, ag_used_validators = [], ag_partial = GenericCertificate_new v r [] \<rparr>"

definition aggregator_append ::
  "verifier \<Rightarrow> 't certificate_value \<Rightarrow> 't aggregator \<Rightarrow> validator_public_key \<Rightarrow> validator_signature
    \<Rightarrow> 't aggregator \<times> ('t certificate option, chain_error) result" where
  "aggregator_append vf T ag k s =
    (let vv = VoteValue (cv_hash T (c_value (ag_partial ag))) (c_round (ag_partial ag)) (cv_kind T) in
     if \<not> vf k vv s then (ag, Err CryptoError)
     else if List.member (ag_used_validators ag) k then (ag, Err CertificateValidatorReuse)
     else
       let ag = ag\<lparr> ag_used_validators := k # ag_used_validators ag \<rparr>;
           voting_rights = weight (ag_committee ag) k in
       if \<not> 0 < voting_rights then (ag, Err InvalidSigner)
       else
         let ag = ag\<lparr> ag_weight := ag_weight ag + voting_rights,
                     ag_partial := add_signature (ag_partial ag) (k, s) \<rparr> in
         if quorum_threshold (ag_committee ag) \<le> ag_weight ag
         then (ag\<lparr> ag_weight := 0 \<rparr>, Ok (Some (ag_partial ag)))
         else (ag, Ok None))"

subsection \<open>Proposals\<close>

datatype account_signature =
    Ed25519Sig "512 word" "256 word"
  | Secp256k1Sig "512 word" "264 word"
  | EvmSecp256k1Sig "520 word" "160 word"

datatype original_proposal = OriginalFast account_signature | OriginalRegular lite_certificate

record proposal_content =
  pc_block :: proposed_block
  pc_round :: round
  pc_outcome :: "block_execution_outcome option"

record block_proposal =
  bp_content :: proposal_content
  bp_signature :: account_signature
  bp_original_proposal :: "original_proposal option"

text \<open>The cryptographic functions the code calls.\<close>

record crypto =
  cr_hashes :: hashes
  cr_verify :: verifier
  cr_owner_of_key :: "account_public_key \<Rightarrow> account_owner"
  cr_account_verify :: "account_signature \<Rightarrow> proposal_content \<Rightarrow> bool"

definition proposal_owner :: "crypto \<Rightarrow> block_proposal \<Rightarrow> account_owner" where
  "proposal_owner cr p =
    (case bp_signature p of
       Ed25519Sig _ k \<Rightarrow> cr_owner_of_key cr (Ed25519Key k)
     | Secp256k1Sig _ k \<Rightarrow> cr_owner_of_key cr (Secp256k1Key k)
     | EvmSecp256k1Sig _ a \<Rightarrow> Address20 a)"

definition check_signature :: "crypto \<Rightarrow> block_proposal \<Rightarrow> (unit, chain_error) result" where
  "check_signature cr p = ensure (cr_account_verify cr (bp_signature p) (bp_content p)) CryptoError"

definition new_initial :: "(proposal_content \<Rightarrow> account_signature) \<Rightarrow> round \<Rightarrow> proposed_block \<Rightarrow> block_proposal" where
  "new_initial sign r b =
    (let content = \<lparr> pc_block = b, pc_round = r, pc_outcome = None \<rparr>
     in \<lparr> bp_content = content, bp_signature = sign content, bp_original_proposal = None \<rparr>)"

definition new_retry_fast :: "(proposal_content \<Rightarrow> account_signature) \<Rightarrow> round \<Rightarrow> block_proposal \<Rightarrow> block_proposal" where
  "new_retry_fast sign r old =
    (let content = \<lparr> pc_block = pc_block (bp_content old), pc_round = r, pc_outcome = None \<rparr>
     in \<lparr> bp_content = content, bp_signature = sign content,
          bp_original_proposal = Some (OriginalFast (bp_signature old)) \<rparr>)"

definition new_retry_regular ::
  "hashes \<Rightarrow> (proposal_content \<Rightarrow> account_signature) \<Rightarrow> round \<Rightarrow> block certificate \<Rightarrow> block_proposal" where
  "new_retry_regular h sign r cert =
    (case into_proposal (c_value cert) of (b, out) \<Rightarrow>
     let content = \<lparr> pc_block = b, pc_round = r, pc_outcome = Some out \<rparr>
     in \<lparr> bp_content = content, bp_signature = sign content,
          bp_original_proposal = Some (OriginalRegular (to_lite_certificate (validated_value h) cert)) \<rparr>)"

definition proposal_required_blob_ids :: "block_proposal \<Rightarrow> blob_id list" where
  "proposal_required_blob_ids p =
    pb_published_blob_ids (pc_block (bp_content p)) @
    (case pc_outcome (bp_content p) of
       None \<Rightarrow> [] | Some out \<Rightarrow> oracle_blob_ids_in (beo_oracle_responses out))"

definition proposal_expected_blob_ids :: "block_proposal \<Rightarrow> blob_id list" where
  "proposal_expected_blob_ids p =
    pb_published_blob_ids (pc_block (bp_content p)) @
    (case pc_outcome (bp_content p) of
       None \<Rightarrow> []
     | Some out \<Rightarrow> oracle_blob_ids_in (beo_oracle_responses out) @ map blob_id_of (concat (beo_blobs out)))"

datatype invariant_error = RoundNotGreater | OutcomeWithoutCertificate | CertificateMismatch

definition check_invariants :: "hashes \<Rightarrow> block_proposal \<Rightarrow> (unit, invariant_error) result" where
  "check_invariants h p =
    (let content = bp_content p in
     case (bp_original_proposal p, pc_outcome content) of
       (None, None) \<Rightarrow> Ok ()
     | (Some (OriginalFast _), None) \<Rightarrow> ensure (Fast < pc_round content) RoundNotGreater
     | (None, Some _) \<Rightarrow> Err OutcomeWithoutCertificate
     | (Some (OriginalFast _), Some _) \<Rightarrow> Err OutcomeWithoutCertificate
     | (Some (OriginalRegular _), None) \<Rightarrow> Err OutcomeWithoutCertificate
     | (Some (OriginalRegular cert), Some out) \<Rightarrow>
         and_then (ensure (lc_round cert < pc_round content) RoundNotGreater) (\<lambda>_.
         ensure (check_value (validated_value h) cert (Block_new h (pc_block content) out)) CertificateMismatch))"

subsection \<open>What a certificate check establishes\<close>

abbreviation signers :: "signatures \<Rightarrow> validator_public_key set" where
  "signers sigs \<equiv> fst ` set sigs"

definition sigs_weight :: "committee \<Rightarrow> signatures \<Rightarrow> nat" where
  "sigs_weight c sigs = sum_list (map (\<lambda>(k, _). weight_nat c k) sigs)"

lemma weight_pos_member: "0 < weight c k \<Longrightarrow> k \<in> committee_members c"
proof (cases "btm_get (validators c) k")
  case (Some st)
  assume "0 < weight c k"
  from map_of_SomeD [OF Some] show ?thesis by (force simp: committee_members_def)
qed (simp add: weight_def)

lemma sigs_weight_sum:
  "distinct (map fst sigs) \<Longrightarrow> sigs_weight c sigs = (\<Sum>k \<in> signers sigs. weight_nat c k)"
  by (simp add: sigs_weight_def sum.distinct_set_conv_list [of "map fst sigs", simplified] case_prod_unfold comp_def)

lemma sigs_weight_le_total:
  assumes "committee_ok c" and "distinct (map fst sigs)" and "\<forall>k \<in> signers sigs. 0 < weight c k"
  shows "sigs_weight c sigs < 2 ^ 63"
proof -
  have "signers sigs \<subseteq> committee_members c" using assms(3) weight_pos_member by blast
  then have "(\<Sum>k \<in> signers sigs. weight_nat c k) \<le> (\<Sum>k \<in> committee_members c. weight_nat c k)"
    by (intro sum_mono2) (simp_all add: committee_members_def)
  then show ?thesis
    using assms sum_weight_members [of c] by (simp add: sigs_weight_sum committee_ok_def)
qed

lemma quorum_fold_iff:
  "try_fold (quorum_step c) (wt, used) sigs = Ok (wt', used') \<longleftrightarrow>
    distinct (map fst sigs) \<and> signers sigs \<inter> set used = {} \<and> (\<forall>k \<in> signers sigs. 0 < weight c k) \<and>
    wt' = wt + sum_list (map (\<lambda>(k, _). weight c k) sigs) \<and> used' = rev (map fst sigs) @ used"
proof (induction sigs arbitrary: wt used)
  case (Cons e sigs)
  obtain k s where e: "e = (k, s)" by fastforce
  show ?case
  proof (cases "k \<in> set used \<or> \<not> 0 < weight c k")
    case True
    then show ?thesis by (auto simp: e quorum_step_def ensure_def)
  next
    case False
    then have "quorum_step c (wt, used) e = Ok (wt + weight c k, k # used)"
      by (simp add: e quorum_step_def)
    with False show ?thesis by (auto simp: e Cons.IH algebra_simps)
  qed
qed auto

lemma unat_sum_list:
  assumes "sum_list (map unat xs) < 2 ^ LENGTH('a)"
  shows "unat (sum_list xs :: 'a::len word) = sum_list (map unat xs)"
  using assms
proof (induction xs)
  case (Cons x xs)
  then have "unat (sum_list xs) = sum_list (map unat xs)" by simp
  with Cons.prems show ?case by (simp add: unat_add_small)
qed simp

lemma unat_sigs_weight:
  assumes "committee_ok c" and "distinct (map fst sigs)" and "\<forall>k \<in> signers sigs. 0 < weight c k"
  shows "unat (sum_list (map (\<lambda>(k, _). weight c k) sigs)) = sigs_weight c sigs"
proof -
  have "sum_list (map unat (map (\<lambda>(k, _). weight c k) sigs)) = sigs_weight c sigs"
    by (simp add: sigs_weight_def comp_def case_prod_unfold)
  with sigs_weight_le_total [OF assms] show ?thesis
    by (subst unat_sum_list) simp_all
qed

text \<open>The predicate the signature check decides.\<close>

definition certified ::
  "verifier \<Rightarrow> committee \<Rightarrow> vote_value \<Rightarrow> signatures \<Rightarrow> bool" where
  "certified vf c vv sigs \<longleftrightarrow>
    distinct (map fst sigs) \<and> (\<forall>k \<in> signers sigs. 0 < weight c k) \<and>
    unat (quorum_threshold c) \<le> sigs_weight c sigs \<and> (\<forall>(k, s) \<in> set sigs. vf k vv s)"

lemma check_signatures_certified:
  assumes "committee_ok c"
  shows "check_signatures vf value_hash kind r sigs c = Ok u \<longleftrightarrow> certified vf c (VoteValue value_hash r kind) sigs"
proof -
  have "check_signatures vf value_hash kind r sigs c = Ok u \<longleftrightarrow>
    distinct (map fst sigs) \<and> (\<forall>k \<in> signers sigs. 0 < weight c k) \<and>
    quorum_threshold c \<le> sum_list (map (\<lambda>(k, _). weight c k) sigs) \<and>
    list_all (\<lambda>(k, s). vf k (VoteValue value_hash r kind) s) sigs"
    unfolding check_signatures_def and_then_Ok
    by (auto simp: quorum_fold_iff result_elims)
  then show ?thesis
    unfolding certified_def word_le_nat_alt list_all_iff
    using unat_sigs_weight [OF assms] by auto
qed

lemma certified_quorum:
  assumes "committee_ok c" and "certified vf c vv sigs"
  shows "committee_quorums.is_quorum c (signers sigs)"
  using assms(2) weight_pos_member
  by (auto simp: committee_quorums.is_quorum_def certified_def sigs_weight_sum)

text \<open>
  \<^bold>\<open>C2\<close>. The certificate check decides exactly whether the signatures form a quorum: it
  accepts when no validator signs twice, every signer has voting rights, the rights add
  up to the quorum threshold and every signature verifies; and it accepts nothing else.
  In particular the 64-bit accumulation of the weights never wraps around.
\<close>

theorem check_signatures_exact:
  assumes "committee_ok c"
  shows "check_signatures vf value_hash kind r sigs c = Ok () \<longleftrightarrow>
    distinct (map fst sigs) \<and> (\<forall>k \<in> signers sigs. 0 < weight c k) \<and>
    unat (quorum_threshold c) \<le> (\<Sum>k \<in> signers sigs. weight_nat c k) \<and>
    (\<forall>(k, s) \<in> set sigs. vf k (VoteValue value_hash r kind) s)"
  using check_signatures_certified [OF assms] sigs_weight_sum [of sigs c] by (auto simp: certified_def)

theorem check_signatures_exact_witness:
  "check_signatures (\<lambda>k vv s. s = 7) 5 ConfirmedKind (MultiLeader 1) [(1, 7), (2, 7), (3, 7)] demo_committee = Ok ()"
proof -
  have "unat (quorum_threshold demo_committee) \<le> (\<Sum>k \<in> signers [(1, 7 :: validator_signature), (2, 7), (3, 7)]. weight_nat demo_committee k)"
    by (simp add: demo_committee_def Committee_new_def weight_def)
  moreover have "\<forall>k \<in> signers [(1, 7 :: validator_signature), (2, 7), (3, 7)]. 0 < weight demo_committee k"
    by (simp add: demo_committee_def Committee_new_def weight_def)
  ultimately show ?thesis
    using check_signatures_exact [OF demo_committee_ok, of "\<lambda>k vv s. s = 7" 5 ConfirmedKind "MultiLeader 1"]
    by simp
qed

subsection \<open>Aggregating signatures\<close>

lemma add_signature_set [simp]: "set (c_signatures (add_signature cert sg)) = insert sg (set (c_signatures cert))"
proof -
  have "set (take i xs @ y # drop i xs) = insert y (set xs)" for i and xs :: "'b list" and y
    by (metis append_take_drop_id list.set(2) set_append Un_insert_right)
  then show ?thesis by (simp add: add_signature_def Let_def)
qed

lemma add_signature_distinct:
  assumes "distinct (map fst (c_signatures cert))" and "fst sg \<notin> signers (c_signatures cert)"
  shows "distinct (map fst (c_signatures (add_signature cert sg)))"
proof -
  have "mset (c_signatures (add_signature cert sg)) = mset (sg # c_signatures cert)"
    unfolding add_signature_def Let_def
    by (simp, metis append_take_drop_id mset_append union_mset_add_mset_right)
  then have "mset (map fst (c_signatures (add_signature cert sg))) = mset (map fst (sg # c_signatures cert))"
    by (metis mset_map)
  then show ?thesis
    using assms by (metis distinct.simps(2) list.simps(9) mset_eq_imp_distinct_iff set_map)
qed

lemma add_signature_fields [simp]:
  "c_value (add_signature cert sg) = c_value cert" "c_round (add_signature cert sg) = c_round cert"
  by (simp_all add: add_signature_def Let_def)

definition ag_vote :: "'t certificate_value \<Rightarrow> 't aggregator \<Rightarrow> vote_value" where
  "ag_vote T ag = VoteValue (cv_hash T (c_value (ag_partial ag))) (c_round (ag_partial ag)) (cv_kind T)"

definition aggregator_inv :: "verifier \<Rightarrow> 't certificate_value \<Rightarrow> 't aggregator \<Rightarrow> bool" where
  "aggregator_inv vf T ag \<longleftrightarrow>
    (let sigs = c_signatures (ag_partial ag); c = ag_committee ag in
     distinct (map fst sigs) \<and> signers sigs \<subseteq> set (ag_used_validators ag) \<and>
     (\<forall>k \<in> signers sigs. 0 < weight c k) \<and> (\<forall>(k, s) \<in> set sigs. vf k (ag_vote T ag) s) \<and>
     unat (ag_weight ag) \<le> sigs_weight c sigs)"

text \<open>One line per branch of \<open>append\<close>.\<close>

lemma append_cases:
  assumes "aggregator_append vf T ag k s = (ag', res)"
  obtains
    (invalid) "ag' = ag" "res = Err CryptoError" "\<not> vf k (ag_vote T ag) s"
  | (reuse) "ag' = ag" "res = Err CertificateValidatorReuse" "k \<in> set (ag_used_validators ag)"
  | (nonmember) "ag' = ag\<lparr> ag_used_validators := k # ag_used_validators ag \<rparr>" "res = Err InvalidSigner"
      "weight (ag_committee ag) k = 0"
  | (quorum) "ag' = ag\<lparr> ag_used_validators := k # ag_used_validators ag, ag_weight := 0,
        ag_partial := add_signature (ag_partial ag) (k, s) \<rparr>"
      "res = Ok (Some (add_signature (ag_partial ag) (k, s)))"
      "quorum_threshold (ag_committee ag) \<le> ag_weight ag + weight (ag_committee ag) k"
      "vf k (ag_vote T ag) s" "k \<notin> set (ag_used_validators ag)" "0 < weight (ag_committee ag) k"
  | (partial) "ag' = ag\<lparr> ag_used_validators := k # ag_used_validators ag,
        ag_weight := ag_weight ag + weight (ag_committee ag) k,
        ag_partial := add_signature (ag_partial ag) (k, s) \<rparr>"
      "res = Ok None" "ag_weight ag + weight (ag_committee ag) k < quorum_threshold (ag_committee ag)"
      "vf k (ag_vote T ag) s" "k \<notin> set (ag_used_validators ag)" "0 < weight (ag_committee ag) k"
  using assms that
  unfolding aggregator_append_def Let_def ag_vote_def [symmetric]
  by (auto split: if_splits simp: not_le word_gt_0)

lemma sigs_weight_add:
  "sigs_weight c (c_signatures (add_signature cert (k, s))) = weight_nat c k + sigs_weight c (c_signatures cert)"
proof -
  let ?f = "\<lambda>(k, _). weight_nat c k"
  have "sum_list (map ?f (take i xs @ y # drop i xs)) = ?f y + sum_list (map ?f xs)" for i y xs
  proof -
    have "sum_list (map ?f xs) = sum_list (map ?f (take i xs)) + sum_list (map ?f (drop i xs))"
      using arg_cong [OF append_take_drop_id [of i xs, symmetric], of "\<lambda>l. sum_list (map ?f l)"]
      by (simp only: map_append sum_list_append)
    then show ?thesis by simp
  qed
  then show ?thesis by (simp add: add_signature_def Let_def sigs_weight_def)
qed

lemma aggregator_inv_add:
  assumes inv: "aggregator_inv vf T ag" and ok: "committee_ok (ag_committee ag)"
    and "vf k (ag_vote T ag) s" and "k \<notin> set (ag_used_validators ag)" and "0 < weight (ag_committee ag) k"
  defines "w \<equiv> ag_weight ag + weight (ag_committee ag) k"
  shows "aggregator_inv vf T (ag\<lparr> ag_used_validators := k # ag_used_validators ag, ag_weight := w,
      ag_partial := add_signature (ag_partial ag) (k, s) \<rparr>)"
    and "unat w = unat (ag_weight ag) + weight_nat (ag_committee ag) k"
proof -
  let ?c = "ag_committee ag" and ?p = "add_signature (ag_partial ag) (k, s)"
  have d: "distinct (map fst (c_signatures ?p))"
    using inv assms(4) by (intro add_signature_distinct) (auto simp: aggregator_inv_def Let_def)
  have pos: "\<forall>k \<in> signers (c_signatures ?p). 0 < weight ?c k"
    using inv assms(5) by (auto simp: aggregator_inv_def Let_def)
  have le: "unat (ag_weight ag) + weight_nat ?c k \<le> sigs_weight ?c (c_signatures ?p)"
    using inv by (simp add: sigs_weight_add aggregator_inv_def Let_def)
  moreover have "sigs_weight ?c (c_signatures ?p) < 2 ^ 63" by (rule sigs_weight_le_total [OF ok d pos])
  ultimately show "unat w = unat (ag_weight ag) + weight_nat ?c k"
    unfolding w_def by (intro unat_add_small) simp
  with d pos le inv assms(3)
  show "aggregator_inv vf T (ag\<lparr> ag_used_validators := k # ag_used_validators ag, ag_weight := w, ag_partial := ?p \<rparr>)"
    by (auto simp: aggregator_inv_def Let_def ag_vote_def)
qed

definition aggregator_run ::
  "verifier \<Rightarrow> 't certificate_value \<Rightarrow> 't aggregator \<Rightarrow> signatures \<Rightarrow> 't aggregator" where
  "aggregator_run vf T = foldl (\<lambda>ag (k, s). fst (aggregator_append vf T ag k s))"

lemma append_preserves:
  assumes "aggregator_append vf T ag k s = (ag', res)"
  shows "ag_committee ag' = ag_committee ag \<and> c_value (ag_partial ag') = c_value (ag_partial ag) \<and>
    c_round (ag_partial ag') = c_round (ag_partial ag) \<and>
    (committee_ok (ag_committee ag) \<and> aggregator_inv vf T ag \<longrightarrow> aggregator_inv vf T ag')"
  using assms
proof (cases rule: append_cases)
  case quorum
  then show ?thesis
    using aggregator_inv_add(1) [of vf T ag k s] by (auto simp: aggregator_inv_def Let_def ag_vote_def)
next
  case partial
  then show ?thesis using aggregator_inv_add(1) [of vf T ag k s] by auto
qed (auto simp: aggregator_inv_def Let_def ag_vote_def)

lemma run_preserves:
  assumes "committee_ok c"
  shows "let ag = aggregator_run vf T (SignatureAggregator_new v r c) sigs in
    ag_committee ag = c \<and> c_value (ag_partial ag) = v \<and> c_round (ag_partial ag) = r \<and> aggregator_inv vf T ag"
proof (induction sigs rule: rev_induct)
  case Nil
  show ?case
    by (simp add: aggregator_run_def SignatureAggregator_new_def GenericCertificate_new_def
        aggregator_inv_def sigs_weight_def Let_def)
next
  case (snoc e sigs)
  obtain k s where e: "e = (k, s)" by fastforce
  let ?ag = "aggregator_run vf T (SignatureAggregator_new v r c) sigs"
  obtain ag' res where ap: "aggregator_append vf T ?ag k s = (ag', res)" by fastforce
  then have "aggregator_run vf T (SignatureAggregator_new v r c) (sigs @ [e]) = ag'"
    by (simp add: aggregator_run_def e)
  with append_preserves [OF ap] snoc.IH assms show ?case by (auto simp: Let_def)
qed

text \<open>
  \<^bold>\<open>C3\<close>. The certificate the aggregator returns passes the certificate check, whatever
  signatures it was given before, valid or not; it certifies the aggregated value and
  round.
\<close>

theorem aggregator_sound:
  assumes "committee_ok c"
    and "aggregator_append vf T (aggregator_run vf T (SignatureAggregator_new v r c) sigs) k s = (ag', Ok (Some cert))"
  shows "certificate_check vf T cert c = Ok () \<and> c_value cert = v \<and> c_round cert = r"
proof -
  let ?ag = "aggregator_run vf T (SignatureAggregator_new v r c) sigs"
  have run: "ag_committee ?ag = c" "c_value (ag_partial ?ag) = v" "c_round (ag_partial ?ag) = r" "aggregator_inv vf T ?ag"
    using run_preserves [OF assms(1), of vf T v r sigs] by (simp_all add: Let_def)
  from assms(2) show ?thesis
  proof (cases rule: append_cases)
    case quorum
    then have cert: "cert = add_signature (ag_partial ?ag) (k, s)" by simp
    note inv = aggregator_inv_add [of vf T ?ag k s, unfolded run(1)] 
    have w: "unat (quorum_threshold c) \<le> unat (ag_weight ?ag + weight c k)"
      using quorum(3) run(1) by (simp add: word_le_nat_alt)
    have "certified vf c (ag_vote T ?ag) (c_signatures cert)"
      using inv(1) quorum(4-6) run(1,4) assms(1) w cert
      by (auto simp: certified_def aggregator_inv_def Let_def ag_vote_def)
    then show ?thesis
      using run cert unfolding certificate_check_def check_signatures_certified [OF assms(1)]
      by (simp add: ag_vote_def)
  qed simp_all
qed

definition demo_single :: committee where
  "demo_single = Committee_new [(1, \<lparr> network_address = [], votes = 100, account_public_key = Ed25519Key 0 \<rparr>)] no_fees"

theorem aggregator_sound_witness:
  "\<exists>ag' cert. aggregator_append (\<lambda>k vv s. s = 7) (validated_value demo_hashes)
      (aggregator_run (\<lambda>k vv s. s = 7) (validated_value demo_hashes)
        (SignatureAggregator_new (Block_new demo_hashes demo_proposed_block demo_outcome) (MultiLeader 0) demo_single)
        [(9, 7)]) 1 7 = (ag', Ok (Some cert)) \<and>
    certificate_check (\<lambda>k vv s. s = 7) (validated_value demo_hashes) cert demo_single = Ok ()"
proof -
  let ?vf = "\<lambda>(k :: validator_public_key) (vv :: vote_value) (s :: validator_signature). s = 7"
  let ?T = "validated_value demo_hashes" and ?b = "Block_new demo_hashes demo_proposed_block demo_outcome"
  let ?new = "SignatureAggregator_new ?b (MultiLeader 0) demo_single"
  have ok: "committee_ok demo_single"
    by (simp add: committee_ok_def demo_single_def Committee_new_def btm_ok_def total_weight_def)
  have c: "ag_committee ?new = demo_single" "ag_used_validators ?new = []" "ag_weight ?new = 0"
    by (simp_all add: SignatureAggregator_new_def)
  have w: "weight demo_single 9 = 0" "weight demo_single 1 = 100" "quorum_threshold demo_single = 67"
    by (simp_all add: demo_single_def Committee_new_def weight_def)
  have "aggregator_run ?vf ?T ?new [(9, 7)] = ?new\<lparr> ag_used_validators := [9] \<rparr>"
    by (simp add: aggregator_run_def aggregator_append_def c w Let_def)
  then obtain ag' cert where ap: "aggregator_append ?vf ?T (aggregator_run ?vf ?T ?new [(9, 7)]) 1 7 = (ag', Ok (Some cert))"
    by (simp add: aggregator_append_def c w Let_def)
  from aggregator_sound [OF ok ap] ap show ?thesis by blast
qed

lemma append_progress:
  assumes "aggregator_append vf T ag k s = (ag', res)"
    and "committee_ok (ag_committee ag)" and "aggregator_inv vf T ag"
    and "vf k (ag_vote T ag) s" and "k \<notin> set (ag_used_validators ag)" and "0 < weight (ag_committee ag) k"
  shows "(\<exists>cert. res = Ok (Some cert)) \<or>
    set (ag_used_validators ag') = insert k (set (ag_used_validators ag)) \<and>
    unat (ag_weight ag') = unat (ag_weight ag) + weight_nat (ag_committee ag) k \<and>
    ag_weight ag' < quorum_threshold (ag_committee ag)"
  using assms(1)
proof (cases rule: append_cases)
  case partial
  then show ?thesis using aggregator_inv_add(2) [of vf T ag k s] assms(2-6) by simp
qed (use assms in auto)

lemma run_reaches_quorum:
  assumes "committee_ok (ag_committee ag)" and "aggregator_inv vf T ag"
    and "certified vf (ag_committee ag) (ag_vote T ag) (xs @ ys)"
    and "set (ag_used_validators ag) = signers xs"
    and "unat (ag_weight ag) = sigs_weight (ag_committee ag) xs"
    and "ag_weight ag < quorum_threshold (ag_committee ag)"
  shows "\<exists>as k s bs cert. ys = as @ (k, s) # bs \<and>
    snd (aggregator_append vf T (aggregator_run vf T ag as) k s) = Ok (Some cert)"
  using assms
proof (induction ys arbitrary: ag xs)
  case Nil
  then show ?case by (simp add: certified_def word_less_nat_alt)
next
  case (Cons e ys)
  obtain k s where e: "e = (k, s)" by fastforce
  obtain ag' res where ap: "aggregator_append vf T ag k s = (ag', res)" by fastforce
  have k: "vf k (ag_vote T ag) s" "k \<notin> set (ag_used_validators ag)" "0 < weight (ag_committee ag) k"
    using Cons.prems(3,4) by (auto simp: e certified_def)
  from append_progress [OF ap Cons.prems(1,2) k] show ?case
  proof
    assume "\<exists>cert. res = Ok (Some cert)"
    then obtain cert where "res = Ok (Some cert)" ..
    with ap show ?thesis
      by (intro exI [of _ "[]"] exI [of _ k] exI [of _ s] exI [of _ ys] exI [of _ cert])
        (simp add: e aggregator_run_def)
  next
    assume step: "set (ag_used_validators ag') = insert k (set (ag_used_validators ag)) \<and>
      unat (ag_weight ag') = unat (ag_weight ag) + weight_nat (ag_committee ag) k \<and>
      ag_weight ag' < quorum_threshold (ag_committee ag)"
    note pres = append_preserves [OF ap]
    have vote: "ag_vote T ag' = ag_vote T ag" using pres by (simp add: ag_vote_def)
    have "\<exists>as k s bs cert. ys = as @ (k, s) # bs \<and>
        snd (aggregator_append vf T (aggregator_run vf T ag' as) k s) = Ok (Some cert)"
      using Cons.prems step pres vote
      by (intro Cons.IH [of ag' "xs @ [e]"]) (auto simp: e sigs_weight_def)
    then obtain as k' s' bs cert where "ys = as @ (k', s') # bs"
      "snd (aggregator_append vf T (aggregator_run vf T ag' as) k' s') = Ok (Some cert)" by blast
    with ap show ?thesis
      by (intro exI [of _ "e # as"] exI [of _ k'] exI [of _ s'] exI [of _ bs] exI [of _ cert])
        (simp add: e aggregator_run_def)
  qed
qed



end
