(* ===== verification/Execution.thy ===== *)
theory Execution
  imports Lifecycle Certificates
begin

text \<open>
  The execution of transactions: what \<open>linera-execution/src/execution_state_actor.rs\<close> does with
  operations, messages and streams, and the block execution tracker
  (\<open>linera-chain/src/block_tracker.rs\<close>). The run of a user application between the start of its
  runtime and the last request it sends is the parameter \<open>en_run\<close>; the sizes that BCS gives to the
  parts of a block are parameters too. A failure drops the whole block, so errors carry no state.
\<close>

section \<open>The execution state\<close>

type_synonym key_values = "(bytes, bytes) btree_map"

record execution_state =
  ex_system :: system_state
  ex_users :: "(application_id, key_values) btree_map"
  ex_stream_event_counts :: "(stream_id, u32) btree_map"

record process_streams_context =
  psc_chain_id :: chain_id
  psc_height :: block_height
  psc_round :: "u32 option"
  psc_timestamp :: timestamp

definition streams_context_of_message :: "message_context \<Rightarrow> process_streams_context" where
  "streams_context_of_message c =
    \<lparr> psc_chain_id = mctx_chain_id c, psc_height = mctx_height c, psc_round = mctx_round c, psc_timestamp = mctx_timestamp c \<rparr>"

definition streams_context_of_operation :: "operation_context \<Rightarrow> process_streams_context" where
  "streams_context_of_operation c =
    \<lparr> psc_chain_id = octx_chain_id c, psc_height = octx_height c, psc_round = octx_round c, psc_timestamp = octx_timestamp c \<rparr>"

datatype user_action =
    ActInstantiate operation_context bytes
  | ActOperation operation_context bytes
  | ActMessage message_context bytes
  | ActProcessStreams process_streams_context "stream_update list"

definition action_signer :: "user_action \<Rightarrow> account_owner option" where
  "action_signer a =
    (case a of
       ActInstantiate c _ \<Rightarrow> octx_authenticated_signer c
     | ActOperation c _ \<Rightarrow> octx_authenticated_signer c
     | ActProcessStreams _ _ \<Rightarrow> None
     | ActMessage c _ \<Rightarrow> mctx_authenticated_signer c)"

text \<open>The mutable references of the actor: the state, the transaction tracker and the controller.\<close>

record actor =
  ac_state :: execution_state
  ac_tracker :: tracker
  ac_controller :: "account_owner option resource_controller"

text \<open>
  The environment: the depth up to which required applications are followed, the encodings, the
  storage, the number of rounds of stream processing, and the runtime. The runtime gets the actor and
  a controller that holds the initial balance, and gives back the actor, the result and the
  controller.
\<close>

record executor =
  en_depth :: nat
  en_codec :: codec
  en_ctx :: exec_ctx
  en_rounds :: nat
  en_run :: "actor \<Rightarrow> amount resource_controller \<Rightarrow> account option \<Rightarrow> application_id \<Rightarrow> user_action
    \<Rightarrow> (actor \<times> bytes option \<times> amount resource_controller, execution_error) result"

section \<open>Operations and messages\<close>

definition state_balance ::
  "system_state \<Rightarrow> amount option \<Rightarrow> account_owner option resource_controller \<Rightarrow> (amount, execution_error) result" where
  "state_balance s grant rc =
    (let first = (case grant of Some g \<Rightarrow> g | None \<Rightarrow> sy_balance s);
         owned = Option.bind (rc_account rc) (btm_get (sy_balances s))
     in arith (sources_balance (first # (case owned of None \<Rightarrow> [] | Some b \<Rightarrow> [b]))))"

definition run_user_action ::
  "executor \<Rightarrow> actor \<Rightarrow> application_id \<Rightarrow> user_action \<Rightarrow> account option \<Rightarrow> amount option
    \<Rightarrow> (actor \<times> amount option, execution_error) result" where
  "run_user_action en ac app action refund_grant_to grant =
    and_then (state_balance (ex_system (ac_state ac)) grant (ac_controller ac)) (\<lambda>initial_balance.
    let controller = \<lparr> rc_policy = rc_policy (ac_controller ac), rc_tracker = rc_tracker (ac_controller ac),
                       rc_account = initial_balance \<rparr> in
    and_then (en_run en ac controller refund_grant_to app action) (\<lambda>(ac, res, controller).
    let t = add_operation_result (ac_tracker ac) res in
    and_then (arith (rc_balance amount_holder controller)) (\<lambda>final_balance.
    and_then (with_state_and_grant (ex_system (ac_state ac)) grant (ac_controller ac) (\<lambda>rc.
        merge_balance sources_holder rc initial_balance final_balance)) (\<lambda>(s, grant, rc).
    Ok (\<lparr> ac_state = (ac_state ac)\<lparr> ex_system := s \<rparr>, ac_tracker = t,
          ac_controller = rc\<lparr> rc_tracker := rc_tracker controller \<rparr> \<rparr>, grant)))))"

text \<open>The updates of an application that have not been processed yet, and the streams that then are.\<close>

fun fresh_updates ::
  "(application_id \<times> chain_id \<times> stream_id) list \<Rightarrow> application_id \<Rightarrow> stream_update list
    \<Rightarrow> (application_id \<times> chain_id \<times> stream_id) list \<times> stream_update list" where
  "fresh_updates processed app [] = (processed, [])"
| "fresh_updates processed app (u # us) =
    (let key = (app, su_chain_id u, su_stream_id u) in
     if List.member processed key then fresh_updates processed app us
     else case fresh_updates (key # processed) app us of (processed, us) \<Rightarrow> (processed, u # us))"

fun fresh_streams ::
  "(application_id \<times> chain_id \<times> stream_id) list \<Rightarrow> (application_id, stream_update list) btree_map
    \<Rightarrow> (application_id \<times> chain_id \<times> stream_id) list \<times> (application_id, stream_update list) btree_map" where
  "fresh_streams processed [] = (processed, [])"
| "fresh_streams processed ((app, updates) # rest) =
    (case fresh_updates processed app updates of (processed, updates) \<Rightarrow>
     case fresh_streams processed rest of (processed, rest) \<Rightarrow>
     (processed, if updates = [] then rest else (app, updates) # rest))"

definition process_streams_of ::
  "executor \<Rightarrow> process_streams_context \<Rightarrow> actor \<Rightarrow> application_id \<times> stream_update list \<Rightarrow> (actor, execution_error) result" where
  "process_streams_of en context ac = (\<lambda>(app, updates).
    and_then (run_user_action en ac app (ActProcessStreams context updates) None None) (\<lambda>(ac, _). Ok ac))"

text \<open>The loop of \<open>process_subscriptions\<close>; a round takes one unit of the fuel.\<close>

fun subscriptions_loop ::
  "nat \<Rightarrow> executor \<Rightarrow> process_streams_context \<Rightarrow> (application_id \<times> chain_id \<times> stream_id) list \<Rightarrow> actor
    \<Rightarrow> (actor, execution_error) result" where
  "subscriptions_loop 0 en context processed ac = Err (RuntimeError ''out of fuel'')"
| "subscriptions_loop (Suc fuel) en context processed ac =
    (case take_streams_to_process (ac_tracker ac) of (t, streams) \<Rightarrow>
     case fresh_streams processed streams of (processed, to_process) \<Rightarrow>
     let ac = ac\<lparr> ac_tracker := t \<rparr> in
     if to_process = [] then Ok ac
     else and_then (try_fold (process_streams_of en context) ac to_process) (subscriptions_loop fuel en context processed))"

definition process_subscriptions :: "executor \<Rightarrow> actor \<Rightarrow> process_streams_context \<Rightarrow> (actor, execution_error) result" where
  "process_subscriptions en ac context = subscriptions_loop (en_rounds en) en context [] ac"

definition execute_operation ::
  "executor \<Rightarrow> actor \<Rightarrow> operation_context \<Rightarrow> operation \<Rightarrow> (actor, execution_error) result" where
  "execute_operation en ac context op =
    and_then (ensure (octx_chain_id context = xc_chain_id (en_ctx en)) (RuntimeError ''panic'')) (\<lambda>_.
    and_then
      (case op of
         SystemOp sop \<Rightarrow>
          and_then (system_execute_operation (en_depth en) (en_codec en) (en_ctx en) (ex_system (ac_state ac))
              (ac_tracker ac) (ac_controller ac) context sop) (\<lambda>(s, t, rc, new_application).
          let ac = \<lparr> ac_state = (ac_state ac)\<lparr> ex_system := s \<rparr>, ac_tracker = t, ac_controller = rc \<rparr> in
          case new_application of
            None \<Rightarrow> Ok ac
          | Some (app, argument) \<Rightarrow>
             and_then (run_user_action en ac app (ActInstantiate context argument) (octx_refund_grant_to context) None)
               (\<lambda>(ac, _). Ok ac))
       | UserOp app bs \<Rightarrow>
          and_then (run_user_action en ac app (ActOperation context bs) (octx_refund_grant_to context) None)
            (\<lambda>(ac, _). Ok ac)) (\<lambda>ac.
    process_subscriptions en ac (streams_context_of_operation context)))"

definition execute_message ::
  "executor \<Rightarrow> actor \<Rightarrow> message_context \<Rightarrow> message \<Rightarrow> amount option \<Rightarrow> (actor \<times> amount option, execution_error) result" where
  "execute_message en ac context m grant =
    and_then (ensure (mctx_chain_id context = xc_chain_id (en_ctx en)) (RuntimeError ''panic'')) (\<lambda>_.
    and_then
      (case m of
         SystemMsg sm \<Rightarrow>
          and_then (system_execute_message (en_ctx en) (ex_system (ac_state ac)) context sm) (\<lambda>(s, outcome).
          Ok (ac\<lparr> ac_state := (ac_state ac)\<lparr> ex_system := s \<rparr>,
                 ac_tracker := add_outgoing_messages (ac_tracker ac) outcome \<rparr>, grant))
       | UserMsg app bs \<Rightarrow> run_user_action en ac app (ActMessage context bs) (mctx_refund_grant_to context) grant) (\<lambda>(ac, grant).
    and_then (process_subscriptions en ac (streams_context_of_message context)) (\<lambda>ac. Ok (ac, grant))))"

definition bounce_message ::
  "executor \<Rightarrow> tracker \<Rightarrow> message_context \<Rightarrow> amount \<Rightarrow> message \<Rightarrow> (tracker, execution_error) result" where
  "bounce_message en t context grant m =
    and_then (ensure (mctx_chain_id context = xc_chain_id (en_ctx en)) (RuntimeError ''panic'')) (\<lambda>_.
    Ok (add_outgoing_message t
      \<lparr> om_destination = mctx_origin context, om_authenticated_signer = mctx_authenticated_signer context,
        om_grant = grant, om_refund_grant_to = (if grant = 0 then None else mctx_refund_grant_to context),
        om_kind = Bouncing, om_message = m \<rparr>))"

definition send_refund ::
  "executor \<Rightarrow> tracker \<Rightarrow> message_context \<Rightarrow> amount \<Rightarrow> (tracker, execution_error) result" where
  "send_refund en t context a =
    and_then (ensure (mctx_chain_id context = xc_chain_id (en_ctx en)) (RuntimeError ''panic'')) (\<lambda>_.
    if a = 0 then Ok t
    else
      and_then (ok_or (mctx_refund_grant_to context)
          (InternalExecutionError ''Messages with grants should have a non-empty `refund_grant_to`'')) (\<lambda>account.
      let m = Credit (account_owner account) a
                (case mctx_authenticated_signer context of None \<Rightarrow> CHAIN | Some signer \<Rightarrow> signer)
      in Ok (add_outgoing_message t (with_kind (OutgoingMessage_new (account_chain_id account) (SystemMsg m)) Tracked))))"

section \<open>The block execution tracker\<close>

definition EMPTY_BLOCK_SIZE :: nat where "EMPTY_BLOCK_SIZE = 94"

text \<open>The sizes of serialised parts of a block, and the check on the size of decompressed bytecode.\<close>

record block_sizes =
  bz_bundle :: "incoming_bundle \<Rightarrow> nat"
  bz_operation :: "operation \<Rightarrow> nat"
  bz_outcome :: "oracle_response list \<times> outgoing_message list \<times> event list \<times> blob list \<Rightarrow> nat"
  bz_result :: "bytes \<Rightarrow> nat"
  bz_decompressed :: "bytes \<Rightarrow> u64 \<Rightarrow> (bool, execution_error) result"

record block_tracker =
  bt_chain_id :: chain_id
  bt_block_height :: block_height
  bt_timestamp :: timestamp
  bt_authenticated_signer :: "account_owner option"
  bt_controller :: "account_owner option resource_controller"
  bt_local_time :: timestamp
  bt_replaying :: "oracle_response list list option"
  bt_next_application_index :: u32
  bt_next_chain_index :: u32
  bt_oracle_responses :: "oracle_response list list"
  bt_events :: "event list list"
  bt_blobs :: "blob list list"
  bt_messages :: "outgoing_message list list"
  bt_operation_results :: "bytes list"
  bt_transaction_index :: u32
  bt_published_blobs :: "(blob_id, blob) btree_map"
  bt_expected_outcomes_count :: nat

definition with_execution_context :: "chain_execution_context \<Rightarrow> ('a, execution_error) result \<Rightarrow> ('a, chain_error) result" where
  "with_execution_context c = map_err (\<lambda>e. ChainExecutionError e c)"

definition BlockExecutionTracker_new ::
  "account_owner option resource_controller \<Rightarrow> (blob_id, blob) btree_map \<Rightarrow> timestamp
    \<Rightarrow> oracle_response list list option \<Rightarrow> proposed_block \<Rightarrow> (block_tracker, chain_error) result" where
  "BlockExecutionTracker_new rc published local_time replaying pb =
    and_then (with_execution_context BlockContext (track_block_size rc EMPTY_BLOCK_SIZE)) (\<lambda>rc.
    Ok \<lparr> bt_chain_id = pb_chain_id pb, bt_block_height = pb_height pb, bt_timestamp = pb_timestamp pb,
         bt_authenticated_signer = pb_authenticated_signer pb, bt_controller = rc, bt_local_time = local_time,
         bt_replaying = replaying, bt_next_application_index = 0, bt_next_chain_index = 0,
         bt_oracle_responses = [], bt_events = [], bt_blobs = [], bt_messages = [], bt_operation_results = [],
         bt_transaction_index = 0, bt_published_blobs = published,
         bt_expected_outcomes_count = length (pb_transactions pb) \<rparr>)"

definition bt_current_responses :: "block_tracker \<Rightarrow> (oracle_response list option, chain_error) result" where
  "bt_current_responses b =
    (case bt_replaying b of
       None \<Rightarrow> Ok None
     | Some responses \<Rightarrow>
        if unat (bt_transaction_index b) < length responses then Ok (Some (responses ! unat (bt_transaction_index b)))
        else Err MissingOracleResponseList)"

definition new_transaction_tracker :: "block_tracker \<Rightarrow> (tracker, chain_error) result" where
  "new_transaction_tracker b =
    and_then (bt_current_responses b) (\<lambda>responses.
    Ok (TransactionTracker_new (bt_local_time b) (bt_transaction_index b) (bt_next_application_index b)
      (bt_next_chain_index b) responses (bt_blobs b)))"

definition bt_execution_context :: "block_tracker \<Rightarrow> transaction \<Rightarrow> chain_execution_context" where
  "bt_execution_context b tx =
    (case tx of
       ReceiveMessages _ \<Rightarrow> IncomingBundleContext (bt_transaction_index b)
     | ExecuteOperation _ \<Rightarrow> OperationContext (bt_transaction_index b))"

definition message_context_for :: "block_tracker \<Rightarrow> posted_message \<Rightarrow> incoming_bundle \<Rightarrow> u32 option \<Rightarrow> message_context" where
  "message_context_for b pm ib round =
    \<lparr> mctx_chain_id = bt_chain_id b, mctx_origin = ib_origin ib, mctx_is_bouncing = is_bouncing pm,
      mctx_authenticated_signer = pm_authenticated_signer pm, mctx_refund_grant_to = pm_refund_grant_to pm,
      mctx_height = bt_block_height b, mctx_round = round, mctx_timestamp = bt_timestamp b \<rparr>"

definition execute_message_in_block ::
  "executor \<Rightarrow> block_tracker \<Rightarrow> incoming_bundle \<Rightarrow> u32 option \<Rightarrow> actor \<Rightarrow> posted_message \<Rightarrow> (actor, chain_error) result" where
  "execute_message_in_block en b ib round ac pm =
    (let context = message_context_for b pm ib round; grant = pm_grant pm; closed = sy_closed (ex_system (ac_state ac)) in
     case ib_action ib of
       Accept \<Rightarrow>
        let cec = IncomingBundleContext (tt_transaction_index (ac_tracker ac)) in
        and_then (ensure (\<not> closed) ClosedChain) (\<lambda>_.
        and_then (with_execution_context cec
            (execute_message en ac context (pm_message pm) (if 0 < grant then Some grant else None))) (\<lambda>(ac, left).
        and_then (with_execution_context cec
            (send_refund en (ac_tracker ac) context (case left of None \<Rightarrow> grant | Some g \<Rightarrow> g))) (\<lambda>t.
        Ok (ac\<lparr> ac_tracker := t \<rparr>))))
     | Reject \<Rightarrow>
        and_then (ensure (\<not> message_is_protected pm \<or> closed) (CannotRejectMessage (bt_chain_id b) (ib_origin ib) pm)) (\<lambda>_.
        and_then (with_execution_context BlockContext
            (if is_tracked pm then bounce_message en (ac_tracker ac) context grant (pm_message pm)
             else send_refund en (ac_tracker ac) context grant)) (\<lambda>t.
        Ok (ac\<lparr> ac_tracker := t \<rparr>))))"

text \<open>
  The references that \<open>with_state\<close> takes are read again for the published blobs, which changes
  nothing, because no account is added or removed in between.
\<close>

definition track_txn_outcome ::
  "block_sizes \<Rightarrow> transaction_outcome \<Rightarrow> sources resource_controller \<Rightarrow> sources tracked" where
  "track_txn_outcome bz out rc =
    and_then (try_fold (\<lambda>rc m. track_message sources_holder rc (om_message m)) rc (to_outgoing_messages out)) (\<lambda>rc.
    and_then (track_block_size rc (bz_outcome bz
        (to_oracle_responses out, to_outgoing_messages out, to_events out, to_blobs out))) (\<lambda>rc.
    try_fold (track_blob_published (bz_decompressed bz) sources_holder) rc (to_blobs out)))"

definition track_published_blob ::
  "block_sizes \<Rightarrow> block_tracker \<Rightarrow> chain_execution_context \<Rightarrow> system_state \<times> account_owner option resource_controller \<Rightarrow> blob_id
    \<Rightarrow> (system_state \<times> account_owner option resource_controller, chain_error) result" where
  "track_published_blob bz b context = (\<lambda>(s, rc) bid.
    and_then (ok_or (btm_get (bt_published_blobs b) bid) (ChainInternalError ''Missing published blob'')) (\<lambda>blob.
    with_execution_context context (with_state s rc (\<lambda>rc. track_blob_published (bz_decompressed bz) sources_holder rc blob))))"

definition process_txn_outcome ::
  "block_sizes \<Rightarrow> block_tracker \<Rightarrow> transaction_outcome \<Rightarrow> system_state \<Rightarrow> chain_execution_context
    \<Rightarrow> (block_tracker \<times> system_state, chain_error) result" where
  "process_txn_outcome bz b out s context =
    and_then (with_execution_context context (with_state s (bt_controller b) (track_txn_outcome bz out))) (\<lambda>(s, rc).
    and_then (try_fold (track_published_blob bz b context) (s, rc) (to_blobs_published out)) (\<lambda>(s, rc).
    and_then (with_execution_context context (track_block_size rc (bz_result bz (to_operation_result out)))) (\<lambda>rc.
    Ok (b\<lparr> bt_controller := rc, bt_next_application_index := to_next_application_index out,
          bt_next_chain_index := to_next_chain_index out,
          bt_oracle_responses := bt_oracle_responses b @ [to_oracle_responses out],
          bt_events := bt_events b @ [to_events out], bt_blobs := bt_blobs b @ [to_blobs out],
          bt_messages := bt_messages b @ [to_outgoing_messages out],
          bt_operation_results := bt_operation_results b @
            (case context of OperationContext _ \<Rightarrow> [to_operation_result out] | _ \<Rightarrow> []),
          bt_transaction_index := bt_transaction_index b + 1 \<rparr>, s))))"

definition run_transaction ::
  "executor \<Rightarrow> block_sizes \<Rightarrow> u32 option \<Rightarrow> block_tracker \<Rightarrow> execution_state \<Rightarrow> tracker \<Rightarrow> transaction
    \<Rightarrow> (actor, chain_error) result" where
  "run_transaction en bz round b st t tx =
    (let cec = bt_execution_context b tx in
     case tx of
       ReceiveMessages ib \<Rightarrow>
        and_then (with_execution_context cec (track_block_size (bt_controller b) (bz_bundle bz ib))) (\<lambda>rc.
        try_fold (execute_message_in_block en b ib round)
          \<lparr> ac_state = st, ac_tracker = t, ac_controller = rc \<rparr> (mb_messages (ib_bundle ib)))
     | ExecuteOperation op \<Rightarrow>
        and_then (with_execution_context cec (with_state (ex_system st) (bt_controller b) (\<lambda>rc.
            track_block_size rc (bz_operation bz op)))) (\<lambda>(s, rc).
        let context = \<lparr> octx_chain_id = bt_chain_id b, octx_authenticated_signer = bt_authenticated_signer b,
                        octx_height = bt_block_height b, octx_round = round, octx_timestamp = bt_timestamp b \<rparr> in
        and_then (with_execution_context cec (execute_operation en
            \<lparr> ac_state = st\<lparr> ex_system := s \<rparr>, ac_tracker = t, ac_controller = rc \<rparr> context op)) (\<lambda>ac.
        and_then (with_execution_context cec (with_state (ex_system (ac_state ac)) (ac_controller ac) (\<lambda>rc.
            track_operation sources_holder rc op))) (\<lambda>(s, rc).
        Ok (ac\<lparr> ac_state := (ac_state ac)\<lparr> ex_system := s \<rparr>, ac_controller := rc \<rparr>)))))"

definition execute_transaction ::
  "executor \<Rightarrow> block_sizes \<Rightarrow> u32 option \<Rightarrow> block_tracker \<times> execution_state \<Rightarrow> transaction
    \<Rightarrow> (block_tracker \<times> execution_state, chain_error) result" where
  "execute_transaction en bz round = (\<lambda>(b, st) tx.
    let cec = bt_execution_context b tx in
    and_then (new_transaction_tracker b) (\<lambda>t.
    and_then (run_transaction en bz round b st t tx) (\<lambda>ac.
    and_then (with_execution_context cec (into_outcome (ac_tracker ac))) (\<lambda>out.
    and_then (process_txn_outcome bz (b\<lparr> bt_controller := ac_controller ac \<rparr>) out (ex_system (ac_state ac)) cec) (\<lambda>(b, s).
    Ok (b, (ac_state ac)\<lparr> ex_system := s \<rparr>))))))"

definition bt_recipients :: "block_tracker \<Rightarrow> chain_id btree_set" where
  "bt_recipients b = bts_of_list (map om_destination (concat (bt_messages b)))"

definition bt_event_streams :: "block_tracker \<Rightarrow> stream_id btree_set" where
  "bt_event_streams b = bts_of_list (map event_stream_id (concat (bt_events b)))"

text \<open>\<open>finalize\<close> panics when a list does not have one entry for each transaction.\<close>

definition finalize ::
  "block_tracker \<Rightarrow> (outgoing_message list list \<times> oracle_response list list \<times> event list list \<times> blob list list \<times> bytes list,
    chain_error) result" where
  "finalize b =
    and_then (ensure (length (bt_oracle_responses b) = bt_expected_outcomes_count b \<and>
                      length (bt_messages b) = bt_expected_outcomes_count b \<and>
                      length (bt_events b) = bt_expected_outcomes_count b \<and>
                      length (bt_blobs b) = bt_expected_outcomes_count b) (ChainInternalError ''panic'')) (\<lambda>_.
    Ok (bt_messages b, bt_oracle_responses b, bt_events b, bt_blobs b, bt_operation_results b))"

section \<open>Replaying a recorded execution\<close>

text \<open>
  A step of the execution replays when, run again with the oracle responses that it recorded, it
  gives the same result. \<open>on_actor\<close> and \<open>on_first\<close> say where the actor is in the argument and in the
  result of a step.
\<close>

definition replay_actor :: "timestamp \<Rightarrow> oracle_response list \<Rightarrow> actor \<Rightarrow> actor" where
  "replay_actor lt rs ac = ac\<lparr> ac_tracker := replay_with lt (ac_tracker ac) rs \<rparr>"

lemma replay_actor_sel [simp]:
  "ac_state (replay_actor lt rs ac) = ac_state ac" "ac_controller (replay_actor lt rs ac) = ac_controller ac"
  "ac_tracker (replay_actor lt rs ac) = replay_with lt (ac_tracker ac) rs"
  "replay_actor lt rs (ac\<lparr> ac_state := st \<rparr>) = (replay_actor lt rs ac)\<lparr> ac_state := st \<rparr>"
  "replay_actor lt rs (ac\<lparr> ac_controller := rc \<rparr>) = (replay_actor lt rs ac)\<lparr> ac_controller := rc \<rparr>"
  by (simp_all add: replay_actor_def)

abbreviation on_actor :: "(actor \<Rightarrow> actor) \<times> ((actor \<Rightarrow> actor) \<Rightarrow> actor \<Rightarrow> actor)" where
  "on_actor \<equiv> (\<lambda>ac. ac, \<lambda>f. f)"

abbreviation on_first :: "(actor \<times> 'x \<Rightarrow> actor) \<times> ((actor \<Rightarrow> actor) \<Rightarrow> actor \<times> 'x \<Rightarrow> actor \<times> 'x)" where
  "on_first \<equiv> (fst, apfst)"

type_synonym 'a place = "('a \<Rightarrow> actor) \<times> ((actor \<Rightarrow> actor) \<Rightarrow> 'a \<Rightarrow> 'a)"

definition replays_at ::
  "timestamp \<Rightarrow> 'a place \<Rightarrow> 'b place \<Rightarrow> ('a \<Rightarrow> ('b, 'e) result) \<Rightarrow> ('a \<Rightarrow> ('b, 'e) result) \<Rightarrow> 'a \<Rightarrow> bool" where
  "replays_at lt P Q f f' a \<longleftrightarrow> (\<forall>b. f a = Ok b \<longrightarrow> tt_replaying (ac_tracker (fst P a)) = None \<longrightarrow>
    (\<exists>rs. records (ac_tracker (fst P a)) rs (ac_tracker (fst Q b)) \<and>
      (\<forall>rest. f' (snd P (replay_actor lt (rs @ rest)) a) = Ok (snd Q (replay_actor lt rest) b))))"

lemma replays_atI:
  assumes "\<And>b. f a = Ok b \<Longrightarrow> tt_replaying (ac_tracker (fst P a)) = None \<Longrightarrow>
    \<exists>rs. records (ac_tracker (fst P a)) rs (ac_tracker (fst Q b)) \<and>
      (\<forall>rest. f' (snd P (replay_actor lt (rs @ rest)) a) = Ok (snd Q (replay_actor lt rest) b))"
  shows "replays_at lt P Q f f' a"
  using assms by (auto simp: replays_at_def)

lemma replays_at_then:
  assumes "replays_at lt P Q f f' a" "\<And>b. f a = Ok b \<Longrightarrow> replays_at lt Q R g g' b"
  shows "replays_at lt P R (\<lambda>a. and_then (f a) g) (\<lambda>a. and_then (f' a) g') a"
proof (rule replays_atI)
  fix c assume "and_then (f a) g = Ok c" and none: "tt_replaying (ac_tracker (fst P a)) = None"
  then obtain b where b: "f a = Ok b" "g b = Ok c" by (auto simp: and_then_Ok)
  from assms(1) b(1) none obtain rs where rs: "records (ac_tracker (fst P a)) rs (ac_tracker (fst Q b))"
    "\<And>rest. f' (snd P (replay_actor lt (rs @ rest)) a) = Ok (snd Q (replay_actor lt rest) b)"
    by (auto simp: replays_at_def)
  from assms(2) [OF b(1)] b(2) rs(1) obtain rs' where rs': "records (ac_tracker (fst Q b)) rs' (ac_tracker (fst R c))"
    "\<And>rest. g' (snd Q (replay_actor lt (rs' @ rest)) b) = Ok (snd R (replay_actor lt rest) c)"
    by (auto simp: replays_at_def records_def)
  from records_trans [OF rs(1) rs'(1)]
  show "\<exists>rs. records (ac_tracker (fst P a)) rs (ac_tracker (fst R c)) \<and>
      (\<forall>rest. and_then (f' (snd P (replay_actor lt (rs @ rest)) a)) g' = Ok (snd R (replay_actor lt rest) c))"
    by (intro exI [of _ "rs @ rs'"]) (simp add: rs(2) rs'(2))
qed

lemma replays_at_same:
  assumes "\<And>b. f a = Ok b \<Longrightarrow> records (ac_tracker (fst P a)) [] (ac_tracker (fst Q b)) \<or> tt_replaying (ac_tracker (fst P a)) \<noteq> None"
    and "\<And>b rest. f a = Ok b \<Longrightarrow> f' (snd P (replay_actor lt rest) a) = Ok (snd Q (replay_actor lt rest) b)"
  shows "replays_at lt P Q f f' a"
  by (rule replays_atI, rule exI [of _ "[]"]) (use assms in auto)

lemma replays_at_fold:
  assumes "\<And>y a. y \<in> set ys \<Longrightarrow> replays_at lt P P (\<lambda>a. f a y) (\<lambda>a. f' a y) a"
  shows "replays_at lt P P (\<lambda>a. try_fold f a ys) (\<lambda>a. try_fold f' a ys) s"
  using assms
proof (induction ys arbitrary: s)
  case Nil
  then show ?case by (intro replays_at_same) (auto simp: records_def)
next
  case (Cons y ys)
  then have step: "replays_at lt P P (\<lambda>a. f a y) (\<lambda>a. f' a y) b"
    and rest: "replays_at lt P P (\<lambda>a. try_fold f a ys) (\<lambda>a. try_fold f' a ys) b" for b by auto
  show ?case unfolding try_fold.simps by (rule replays_at_then [OF step rest])
qed

lemma replays_at_map_err:
  assumes "replays_at lt P Q f f' a"
  shows "replays_at lt P Q (\<lambda>a. map_err h (f a)) (\<lambda>a. map_err h (f' a)) a"
  unfolding replays_at_def
proof (intro allI impI)
  fix b assume b: "map_err h (f a) = Ok b" and none: "tt_replaying (ac_tracker (fst P a)) = None"
  from b have "f a = Ok b" by (cases "f a") simp_all
  with assms none obtain rs where rs: "records (ac_tracker (fst P a)) rs (ac_tracker (fst Q b))"
    "\<And>rest. f' (snd P (replay_actor lt (rs @ rest)) a) = Ok (snd Q (replay_actor lt rest) b)"
    by (auto simp: replays_at_def)
  then show "\<exists>rs. records (ac_tracker (fst P a)) rs (ac_tracker (fst Q b)) \<and>
      (\<forall>rest. map_err h (f' (snd P (replay_actor lt (rs @ rest)) a)) = Ok (snd Q (replay_actor lt rest) b))"
    by (intro exI [of _ rs]) simp
qed

text \<open>The same action in another round: blocks are validated in a round and confirmed in none.\<close>

fun in_round :: "u32 option \<Rightarrow> user_action \<Rightarrow> user_action" where
  "in_round r (ActInstantiate c bs) = ActInstantiate (c\<lparr> octx_round := r \<rparr>) bs"
| "in_round r (ActOperation c bs) = ActOperation (c\<lparr> octx_round := r \<rparr>) bs"
| "in_round r (ActMessage c bs) = ActMessage (c\<lparr> mctx_round := r \<rparr>) bs"
| "in_round r (ActProcessStreams c us) = ActProcessStreams (c\<lparr> psc_round := r \<rparr>) us"

text \<open>
  The hypothesis on the runtime: the run of a user application replays. The second environment may
  know other events and has another time and round.
\<close>

definition runtime_replays :: "executor \<Rightarrow> executor \<Rightarrow> timestamp \<Rightarrow> u32 option \<Rightarrow> bool" where
  "runtime_replays en en' lt r \<longleftrightarrow> (\<forall>c refund app action ac.
    replays_at lt on_actor on_first (\<lambda>ac. en_run en ac c refund app action)
      (\<lambda>ac. en_run en' ac c refund app (in_round r action)) ac)"

definition replay_env :: "executor \<Rightarrow> executor \<Rightarrow> timestamp \<Rightarrow> u32 option \<Rightarrow> bool" where
  "replay_env en en' lt r \<longleftrightarrow> en_depth en' = en_depth en \<and> en_codec en' = en_codec en \<and> en_rounds en' = en_rounds en \<and>
    same_blobs (en_ctx en) (en_ctx en') \<and> runtime_replays en en' lt r"

lemma replay_env_chain: "replay_env en en' lt r \<Longrightarrow> xc_chain_id (en_ctx en') = xc_chain_id (en_ctx en)"
  by (simp add: replay_env_def same_blobs_def)

lemma run_user_action_replays:
  assumes "replay_env en en' lt r"
  shows "replays_at lt on_actor on_first (\<lambda>ac. run_user_action en ac app action refund grant)
    (\<lambda>ac. run_user_action en' ac app (in_round r action) refund grant) ac"
proof (rule replays_atI)
  fix b assume run: "run_user_action en ac app action refund grant = Ok b" and "tt_replaying (ac_tracker (fst on_actor ac)) = None"
  then have none: "tt_replaying (ac_tracker ac) = None" by simp
  from run obtain initial ac1 res c1 final s g rc where
    1: "state_balance (ex_system (ac_state ac)) grant (ac_controller ac) = Ok initial"
    and 2: "en_run en ac \<lparr> rc_policy = rc_policy (ac_controller ac), rc_tracker = rc_tracker (ac_controller ac),
      rc_account = initial \<rparr> refund app action = Ok (ac1, res, c1)"
    and 3: "arith (rc_balance amount_holder c1) = Ok final"
    and 4: "with_state_and_grant (ex_system (ac_state ac1)) grant (ac_controller ac1)
        (\<lambda>rc. merge_balance sources_holder rc initial final) = Ok (s, g, rc)"
    and b: "b = (\<lparr> ac_state = (ac_state ac1)\<lparr> ex_system := s \<rparr>, ac_tracker = add_operation_result (ac_tracker ac1) res,
      ac_controller = rc\<lparr> rc_tracker := rc_tracker c1 \<rparr> \<rparr>, g)"
    by (auto simp: run_user_action_def and_then_Ok Let_def)
  from assms 2 none obtain rs where "records (ac_tracker ac) rs (ac_tracker ac1)"
    "\<And>rest. en_run en' (replay_actor lt (rs @ rest) ac) \<lparr> rc_policy = rc_policy (ac_controller ac),
      rc_tracker = rc_tracker (ac_controller ac), rc_account = initial \<rparr> refund app (in_round r action) =
      Ok (replay_actor lt rest ac1, res, c1)"
    by (fastforce simp: replay_env_def runtime_replays_def replays_at_def)
  then show "\<exists>rs. records (ac_tracker (fst on_actor ac)) rs (ac_tracker (fst on_first b)) \<and>
      (\<forall>rest. run_user_action en' (snd on_actor (replay_actor lt (rs @ rest)) ac) app (in_round r action) refund grant =
        Ok (snd on_first (replay_actor lt rest) b))"
    by (intro exI [of _ rs])
      (simp add: run_user_action_def Let_def 1 3 4 b records_def add_operation_result_def replay_actor_def)
qed

lemma take_streams_replaying:
  "take_streams_to_process (replay_with lt t rs) =
    (replay_with lt (fst (take_streams_to_process t)) rs, snd (take_streams_to_process t))"
  "tt_replaying (fst (take_streams_to_process t)) = tt_replaying t"
  "tt_oracle_responses (fst (take_streams_to_process t)) = tt_oracle_responses t"
  by (simp_all add: take_streams_to_process_def)

lemma drop_second_replays:
  assumes "replays_at lt P on_first f f' a"
  shows "replays_at lt P on_actor (\<lambda>a. and_then (f a) (\<lambda>(ac, _). Ok ac)) (\<lambda>a. and_then (f' a) (\<lambda>(ac, _). Ok ac)) a"
  using assms by (rule replays_at_then) (auto intro!: replays_at_same simp: records_def)

lemma subscriptions_replay:
  assumes "replay_env en en' lt r"
  shows "replays_at lt on_actor on_actor (subscriptions_loop fuel en c processed)
    (subscriptions_loop fuel en' (c\<lparr> psc_round := r \<rparr>) processed) ac"
proof (induction fuel arbitrary: processed ac)
  case (Suc fuel processed ac)
  have step: "replays_at lt on_actor on_actor (\<lambda>ac. process_streams_of en c ac x) (\<lambda>ac. process_streams_of en' (c\<lparr> psc_round := r \<rparr>) ac x) ac" for x ac
    using drop_second_replays [OF run_user_action_replays [OF assms, of "fst x" "ActProcessStreams c (snd x)" None None]]
    by (simp add: process_streams_of_def case_prod_beta)
  obtain t streams where t: "take_streams_to_process (ac_tracker ac) = (t, streams)" by fastforce
  obtain p to_process where p: "fresh_streams processed streams = (p, to_process)" by fastforce
  let ?go = "\<lambda>en c ac. and_then (try_fold (process_streams_of en c) ac to_process) (subscriptions_loop fuel en c p)"
  have go: "replays_at lt on_actor on_actor (?go en c) (?go en' (c\<lparr> psc_round := r \<rparr>)) (ac\<lparr> ac_tracker := t \<rparr>)"
    by (rule replays_at_then [OF replays_at_fold [OF step] Suc.IH])
  show ?case
  proof (rule replays_atI)
    fix b assume run: "subscriptions_loop (Suc fuel) en c processed ac = Ok b"
      and "tt_replaying (ac_tracker (fst on_actor ac)) = None"
    with t take_streams_replaying(2,3) [of "ac_tracker ac"] have none: "tt_replaying t = None" "records (ac_tracker ac) rs t \<longleftrightarrow> rs = []" for rs
      by (auto simp: records_def)
    show "\<exists>rs. records (ac_tracker (fst on_actor ac)) rs (ac_tracker (fst on_actor b)) \<and>
        (\<forall>rest. subscriptions_loop (Suc fuel) en' (c\<lparr> psc_round := r \<rparr>) processed (snd on_actor (replay_actor lt (rs @ rest)) ac) =
          Ok (snd on_actor (replay_actor lt rest) b))"
    proof (cases "to_process = []")
      case True
      with run t p none(2) [of "[]"] show ?thesis
        by (intro exI [of _ "[]"]) (auto simp: Let_def take_streams_replaying replay_actor_def)
    next
      case False
      with run t p have "?go en c (ac\<lparr> ac_tracker := t \<rparr>) = Ok b" by (simp add: Let_def)
      with go none(1) obtain rs where rs: "records t rs (ac_tracker b)"
        "\<And>rest. ?go en' (c\<lparr> psc_round := r \<rparr>) (replay_actor lt (rs @ rest) (ac\<lparr> ac_tracker := t \<rparr>)) = Ok (replay_actor lt rest b)"
        by (auto simp: replays_at_def)
      moreover have "records (ac_tracker ac) rs (ac_tracker b)"
        using records_trans [of "ac_tracker ac" "[]" t rs] none(2) [of "[]"] rs(1) by simp
      moreover have "replay_actor lt rs (ac\<lparr> ac_tracker := t \<rparr>) = (replay_actor lt rs ac)\<lparr> ac_tracker := replay_with lt t rs \<rparr>" for rs
        by (simp add: replay_actor_def)
      ultimately show ?thesis
        using False t p by (intro exI [of _ rs]) (simp add: Let_def take_streams_replaying)
    qed
  qed
qed (simp add: replays_at_def)

lemma system_operation_round:
  "system_execute_operation depth cd cx s t rc (c\<lparr> octx_round := r \<rparr>) op = system_execute_operation depth cd cx s t rc c op"
  by (cases op) (simp_all add: system_execute_operation_def)

lemma and_then_assoc: "and_then (and_then m f) g = and_then m (\<lambda>x. and_then (f x) g)"
  by (cases m) simp_all

lemma system_op_step_replays:
  assumes "replay_env en en' lt r"
  shows "replays_at lt on_actor on_first
    (\<lambda>ac. and_then (system_execute_operation (en_depth en) (en_codec en) (en_ctx en) (ex_system (ac_state ac))
        (ac_tracker ac) (ac_controller ac) c op) (\<lambda>(s, t, rc, na).
      Ok (\<lparr> ac_state = (ac_state ac)\<lparr> ex_system := s \<rparr>, ac_tracker = t, ac_controller = rc \<rparr>, na)))
    (\<lambda>ac. and_then (system_execute_operation (en_depth en') (en_codec en') (en_ctx en') (ex_system (ac_state ac))
        (ac_tracker ac) (ac_controller ac) (c\<lparr> octx_round := r \<rparr>) op) (\<lambda>(s, t, rc, na).
      Ok (\<lparr> ac_state = (ac_state ac)\<lparr> ex_system := s \<rparr>, ac_tracker = t, ac_controller = rc \<rparr>, na))) ac"
proof (rule replays_atI)
  fix b
  assume "and_then (system_execute_operation (en_depth en) (en_codec en) (en_ctx en) (ex_system (ac_state ac))
        (ac_tracker ac) (ac_controller ac) c op) (\<lambda>(s, t, rc, na).
      Ok (\<lparr> ac_state = (ac_state ac)\<lparr> ex_system := s \<rparr>, ac_tracker = t, ac_controller = rc \<rparr>, na)) = Ok b"
    and "tt_replaying (ac_tracker (fst on_actor ac)) = None"
  then obtain s t rc na where
    op: "system_execute_operation (en_depth en) (en_codec en) (en_ctx en) (ex_system (ac_state ac)) (ac_tracker ac)
      (ac_controller ac) c op = Ok (s, t, rc, na)"
    and b: "b = (\<lparr> ac_state = (ac_state ac)\<lparr> ex_system := s \<rparr>, ac_tracker = t, ac_controller = rc \<rparr>, na)"
    and none: "tt_replaying (ac_tracker ac) = None"
    by (auto simp: and_then_Ok)
  from assms have env: "en_depth en' = en_depth en" "en_codec en' = en_codec en" "same_blobs (en_ctx en) (en_ctx en')"
    by (simp_all add: replay_env_def)
  from system_operation_replays [OF env(3) none op, of lt] obtain rs where "records (ac_tracker ac) rs t"
    "\<And>rest. system_execute_operation (en_depth en) (en_codec en) (en_ctx en') (ex_system (ac_state ac))
      (replay_with lt (ac_tracker ac) (rs @ rest)) (ac_controller ac) c op = Ok (s, replay_with lt t rest, rc, na)"
    by (auto simp: op_replays_def)
  then show "\<exists>rs. records (ac_tracker (fst on_actor ac)) rs (ac_tracker (fst on_first b)) \<and>
      (\<forall>rest. and_then (system_execute_operation (en_depth en') (en_codec en') (en_ctx en')
          (ex_system (ac_state (snd on_actor (replay_actor lt (rs @ rest)) ac)))
          (ac_tracker (snd on_actor (replay_actor lt (rs @ rest)) ac)) (ac_controller (snd on_actor (replay_actor lt (rs @ rest)) ac))
          (c\<lparr> octx_round := r \<rparr>) op) (\<lambda>(s, t, rc, na).
        Ok (\<lparr> ac_state = (ac_state (snd on_actor (replay_actor lt (rs @ rest)) ac))\<lparr> ex_system := s \<rparr>, ac_tracker = t,
          ac_controller = rc \<rparr>, na)) = Ok (snd on_first (replay_actor lt rest) b))"
    by (intro exI [of _ rs]) (simp add: b env system_operation_round replay_actor_def)
qed

lemma action_Ok_replays: "replays_at lt on_actor on_actor Ok Ok ac"
  by (rule replays_at_same) (auto simp: records_def)

lemma instantiate_replays:
  assumes "replay_env en en' lt r"
  shows "replays_at lt on_first on_actor
    (\<lambda>(ac, na). case na of None \<Rightarrow> Ok ac | Some (app, argument) \<Rightarrow>
      and_then (run_user_action en ac app (ActInstantiate c argument) refund None) (\<lambda>(ac, _). Ok ac))
    (\<lambda>(ac, na). case na of None \<Rightarrow> Ok ac | Some (app, argument) \<Rightarrow>
      and_then (run_user_action en' ac app (ActInstantiate (c\<lparr> octx_round := r \<rparr>) argument) refund None) (\<lambda>(ac, _). Ok ac)) b"
proof (cases b)
  case (Pair ac na)
  show ?thesis
  proof (cases na)
    case None
    then show ?thesis by (auto simp: Pair replays_at_def records_def intro!: exI [of _ "[]"])
  next
    case (Some x)
    with drop_second_replays [OF run_user_action_replays [OF assms, of "fst x" "ActInstantiate c (snd x)" refund None ac]]
    show ?thesis by (simp add: Pair replays_at_def case_prod_beta)
  qed
qed

lemma execute_operation_replays:
  assumes "replay_env en en' lt r"
  shows "replays_at lt on_actor on_actor (\<lambda>ac. execute_operation en ac c op) (\<lambda>ac. execute_operation en' ac (c\<lparr> octx_round := r \<rparr>) op) ac"
proof -
  let ?sub = "\<lambda>en c ac. process_subscriptions en ac (streams_context_of_operation c)"
  have sub: "replays_at lt on_actor on_actor (?sub en c) (?sub en' (c\<lparr> octx_round := r \<rparr>)) ac" for ac
    using subscriptions_replay [OF assms, of "en_rounds en" "streams_context_of_operation c" "[]" ac] assms
    by (simp add: process_subscriptions_def streams_context_of_operation_def replay_env_def)
  let ?run = "\<lambda>en c ac. (case op of
      SystemOp sop \<Rightarrow> and_then (and_then (system_execute_operation (en_depth en) (en_codec en) (en_ctx en) (ex_system (ac_state ac))
          (ac_tracker ac) (ac_controller ac) c sop) (\<lambda>(s, t, rc, na).
          Ok (\<lparr> ac_state = (ac_state ac)\<lparr> ex_system := s \<rparr>, ac_tracker = t, ac_controller = rc \<rparr>, na)))
        (\<lambda>(ac, na). case na of None \<Rightarrow> Ok ac | Some (app, argument) \<Rightarrow>
          and_then (run_user_action en ac app (ActInstantiate c argument) (octx_refund_grant_to c) None) (\<lambda>(ac, _). Ok ac))
    | UserOp app bs \<Rightarrow>
        and_then (run_user_action en ac app (ActOperation c bs) (octx_refund_grant_to c) None) (\<lambda>(ac, _). Ok ac))"
  have eq: "execute_operation en ac c op = and_then (ensure (octx_chain_id c = xc_chain_id (en_ctx en)) (RuntimeError ''panic''))
      (\<lambda>_. and_then (?run en c ac) (?sub en c))" for en c ac
    unfolding execute_operation_def
    by (cases op) (auto intro!: and_then_cong simp: and_then_assoc split: option.splits)
  have refund: "octx_refund_grant_to (c\<lparr> octx_round := r \<rparr>) = octx_refund_grant_to c"
    by (simp add: octx_refund_grant_to_def)
  have run: "replays_at lt on_actor on_actor (?run en c) (?run en' (c\<lparr> octx_round := r \<rparr>)) ac" for ac
  proof (cases op)
    case (SystemOp sop)
    show ?thesis
      unfolding SystemOp operation.case refund
      by (rule replays_at_then [OF system_op_step_replays [OF assms] instantiate_replays [OF assms]])
  next
    case (UserOp app bs)
    show ?thesis
      using drop_second_replays [OF run_user_action_replays [OF assms, of app "ActOperation c bs" "octx_refund_grant_to c" None ac]]
      by (simp add: UserOp refund)
  qed
  show ?thesis
    using replays_at_then [OF run sub, of ac] replay_env_chain [OF assms]
    by (cases "octx_chain_id c = xc_chain_id (en_ctx en)") (simp_all add: eq replays_at_def ensure_def)
qed

lemma execute_message_replays:
  assumes "replay_env en en' lt r"
  shows "replays_at lt on_actor on_first (\<lambda>ac. execute_message en ac c m grant)
    (\<lambda>ac. execute_message en' ac (c\<lparr> mctx_round := r \<rparr>) m grant) ac"
proof -
  let ?sub = "\<lambda>en c (ac, g). and_then (process_subscriptions en ac (streams_context_of_message c)) (\<lambda>ac. Ok (ac, g :: amount option))"
  have sub: "replays_at lt on_first on_first (?sub en c) (?sub en' (c\<lparr> mctx_round := r \<rparr>)) b" for b
  proof -
    have "replays_at lt on_actor on_actor (\<lambda>ac. process_subscriptions en ac (streams_context_of_message c))
        (\<lambda>ac. process_subscriptions en' ac (streams_context_of_message (c\<lparr> mctx_round := r \<rparr>))) (fst b)"
      using subscriptions_replay [OF assms, of "en_rounds en" "streams_context_of_message c" "[]" "fst b"] assms
      by (simp add: process_subscriptions_def streams_context_of_message_def replay_env_def)
    then show ?thesis by (cases b) (fastforce simp: replays_at_def and_then_Ok)
  qed
  let ?run = "\<lambda>en c ac. (case m of
         SystemMsg sm \<Rightarrow>
          and_then (system_execute_message (en_ctx en) (ex_system (ac_state ac)) c sm) (\<lambda>(s, outcome).
          Ok (ac\<lparr> ac_state := (ac_state ac)\<lparr> ex_system := s \<rparr>,
                 ac_tracker := add_outgoing_messages (ac_tracker ac) outcome \<rparr>, grant))
       | UserMsg app bs \<Rightarrow> run_user_action en ac app (ActMessage c bs) (mctx_refund_grant_to c) grant)"
  have run: "replays_at lt on_actor on_first (?run en c) (?run en' (c\<lparr> mctx_round := r \<rparr>)) ac" for ac
  proof (cases m)
    case (SystemMsg sm)
    have "system_execute_message (en_ctx en') s (c\<lparr> mctx_round := r \<rparr>) sm = system_execute_message (en_ctx en) s c sm" for s
      using assms same_blobs_reads(4) [of "en_ctx en" "en_ctx en'"]
      by (cases sm) (simp_all add: system_execute_message_def replay_env_def)
    then show ?thesis
      by (intro replays_at_same)
        (auto simp: SystemMsg and_then_Ok tracker_updates_replaying records_def add_outgoing_messages_eq replay_actor_def)
  next
    case (UserMsg app bs)
    show ?thesis
      using run_user_action_replays [OF assms, of app "ActMessage c bs" "mctx_refund_grant_to c" grant ac] by (simp add: UserMsg)
  qed
  have eq: "execute_message en ac c m grant = and_then (ensure (mctx_chain_id c = xc_chain_id (en_ctx en)) (RuntimeError ''panic''))
      (\<lambda>_. and_then (?run en c ac) (?sub en c))" for en c ac
    unfolding execute_message_def by (cases m) (auto intro!: and_then_cong)
  show ?thesis
    using replays_at_then [OF run sub, of ac] replay_env_chain [OF assms]
    by (cases "mctx_chain_id c = xc_chain_id (en_ctx en)") (simp_all add: eq replays_at_def ensure_def)
qed

lemma tracker_step_replays:
  assumes "\<And>t t'. g t = Ok t' \<Longrightarrow> (\<exists>ms. t' = add_outgoing_messages t ms) \<and> (\<forall>lt rs. g' (replay_with lt t rs) = Ok (replay_with lt t' rs))"
  shows "replays_at lt on_actor on_actor (\<lambda>ac. and_then (g (ac_tracker ac)) (\<lambda>t. Ok (ac\<lparr> ac_tracker := t \<rparr>)))
    (\<lambda>ac. and_then (g' (ac_tracker ac)) (\<lambda>t. Ok (ac\<lparr> ac_tracker := t \<rparr>))) ac"
  by (rule replays_at_same)
    (auto simp: and_then_Ok add_outgoing_messages_eq records_def replay_actor_def dest!: assms)

lemma outgoing_message_replays:
  "\<exists>ms. add_outgoing_message t m = add_outgoing_messages t ms" "\<exists>ms. t = add_outgoing_messages t ms"
  "add_outgoing_message (replay_with lt t rs) m = replay_with lt (add_outgoing_message t m) rs"
  by (auto simp: add_outgoing_messages_eq add_outgoing_message_def intro: exI [of _ "[m]"] exI [of _ "[]"])

lemma send_refund_replays:
  assumes "replay_env en en' lt r" "send_refund en t c a = Ok t'"
  shows "(\<exists>ms. t' = add_outgoing_messages t ms) \<and>
    (\<forall>lt rs. send_refund en' (replay_with lt t rs) (c\<lparr> mctx_round := r \<rparr>) a = Ok (replay_with lt t' rs))"
  using assms(2) replay_env_chain [OF assms(1)] outgoing_message_replays(1,2) [of t]
  by (cases "a = 0"; cases "mctx_refund_grant_to c")
    (auto simp: send_refund_def and_then_Ok ensure_def Let_def outgoing_message_replays(3) split: if_splits)

lemma bounce_message_replays:
  assumes "replay_env en en' lt r" "bounce_message en t c a m = Ok t'"
  shows "(\<exists>ms. t' = add_outgoing_messages t ms) \<and>
    (\<forall>lt rs. bounce_message en' (replay_with lt t rs) (c\<lparr> mctx_round := r \<rparr>) a m = Ok (replay_with lt t' rs))"
  using assms(2) replay_env_chain [OF assms(1)] outgoing_message_replays(1) [of t]
  by (auto simp: bounce_message_def and_then_Ok ensure_def outgoing_message_replays(3) split: if_splits)

lemma replays_at_cong:
  assumes "f a = g a" "\<And>rs. f' (snd P (replay_actor lt rs) a) = g' (snd P (replay_actor lt rs) a)" "replays_at lt P Q g g' a"
  shows "replays_at lt P Q f f' a"
  using assms by (simp add: replays_at_def)

lemma replays_at_fail: "f a = Err e \<Longrightarrow> replays_at lt P Q f f' a"
  by (simp add: replays_at_def)

definition replay_block :: "timestamp \<Rightarrow> oracle_response list list \<Rightarrow> block_tracker \<Rightarrow> block_tracker" where
  "replay_block lt rr b = b\<lparr> bt_local_time := lt, bt_replaying := Some rr \<rparr>"

lemma message_context_replay:
  "message_context_for (replay_block lt rr b) pm ib r = (message_context_for b pm ib round)\<lparr> mctx_round := r \<rparr>"
  by (simp add: message_context_for_def replay_block_def)

lemma execute_message_in_block_replays:
  assumes "replay_env en en' lt r"
  shows "replays_at lt on_actor on_actor (\<lambda>ac. execute_message_in_block en b ib round ac pm)
    (\<lambda>ac. execute_message_in_block en' (replay_block lt rr b) ib r ac pm) ac"
proof -
  let ?c = "message_context_for b pm ib round" and ?closed = "sy_closed (ex_system (ac_state ac))" and ?g = "pm_grant pm"
  note ctx = message_context_replay [of lt rr b pm ib r round]
  have chain: "bt_chain_id (replay_block lt rr b) = bt_chain_id b" by (simp add: replay_block_def)
  show ?thesis
  proof (cases "ib_action ib")
    case Accept
    let ?k = "with_execution_context (IncomingBundleContext (tt_transaction_index (ac_tracker ac)))"
    let ?og = "if 0 < pm_grant pm then Some (pm_grant pm) else None"
    let ?refund = "\<lambda>en c left t. ?k (send_refund en t c (case left of None \<Rightarrow> pm_grant pm | Some g \<Rightarrow> g))"
    let ?r = "\<lambda>en c (ac, left). and_then (?refund en c left (ac_tracker ac)) (\<lambda>t. Ok (ac\<lparr> ac_tracker := t \<rparr>))"
    let ?f = "\<lambda>en c ac. and_then (?k (execute_message en ac c (pm_message pm) ?og)) (?r en c)"
    have refund: "replays_at lt on_first on_actor (?r en ?c) (?r en' (?c\<lparr> mctx_round := r \<rparr>)) x" for x
    proof (cases x)
      case (Pair ac left)
      have "replays_at lt on_actor on_actor (\<lambda>ac. ?r en ?c (ac, left)) (\<lambda>ac. ?r en' (?c\<lparr> mctx_round := r \<rparr>) (ac, left)) ac"
        using tracker_step_replays [of "?refund en ?c left" "?refund en' (?c\<lparr> mctx_round := r \<rparr>) left" lt ac]
          send_refund_replays [OF assms, of _ ?c]
        by (auto simp: with_execution_context_def map_err_Ok)
      then show ?thesis by (simp add: Pair replays_at_def)
    qed
    have "replays_at lt on_actor on_actor (?f en ?c) (?f en' (?c\<lparr> mctx_round := r \<rparr>)) ac"
      using replays_at_then [OF replays_at_map_err [OF execute_message_replays [OF assms]] refund, of _ ?c]
      by (simp add: with_execution_context_def)
    then show ?thesis
      by (cases ?closed)
        (simp_all add: replays_at_def execute_message_in_block_def Accept Let_def ensure_def ctx)
  next
    case Reject
    let ?h = "\<lambda>en c t. with_execution_context BlockContext
        (if is_tracked pm then bounce_message en t c ?g (pm_message pm) else send_refund en t c ?g)"
    let ?f = "\<lambda>en c ac. and_then (?h en c (ac_tracker ac)) (\<lambda>t. Ok (ac\<lparr> ac_tracker := t \<rparr>))"
    have "replays_at lt on_actor on_actor (?f en ?c) (?f en' (?c\<lparr> mctx_round := r \<rparr>)) ac"
      by (rule tracker_step_replays)
        (use send_refund_replays [OF assms, of _ ?c] bounce_message_replays [OF assms, of _ ?c] in
          \<open>auto simp: with_execution_context_def map_err_Ok split: if_splits\<close>)
    then show ?thesis
      by (cases "\<not> message_is_protected pm \<or> ?closed")
        (simp_all add: replays_at_def execute_message_in_block_def Reject Let_def ensure_def ctx chain)
  qed
qed

lemma replay_block_sel [simp]:
  "bt_controller (replay_block lt rr b) = bt_controller b" "bt_execution_context (replay_block lt rr b) tx = bt_execution_context b tx"
  "bt_chain_id (replay_block lt rr b) = bt_chain_id b" "bt_block_height (replay_block lt rr b) = bt_block_height b"
  "bt_timestamp (replay_block lt rr b) = bt_timestamp b" "bt_authenticated_signer (replay_block lt rr b) = bt_authenticated_signer b"
  "bt_recipients (replay_block lt rr b) = bt_recipients b" "bt_event_streams (replay_block lt rr b) = bt_event_streams b"
  "finalize (replay_block lt rr b) = finalize b"
  by (simp_all add: replay_block_def bt_execution_context_def bt_recipients_def bt_event_streams_def finalize_def
      split: transaction.split)

lemma run_transaction_replays:
  assumes "replay_env en en' lt r" "run_transaction en bz round b st t tx = Ok ac" "tt_replaying t = None"
  shows "\<exists>rs. records t rs (ac_tracker ac) \<and> (\<forall>rest.
    run_transaction en' bz r (replay_block lt rr b) st (replay_with lt t (rs @ rest)) tx = Ok (replay_actor lt rest ac))"
proof (cases tx)
  case (ReceiveMessages ib)
  with assms(2) obtain rc where
    rc: "with_execution_context (bt_execution_context b tx) (track_block_size (bt_controller b) (bz_bundle bz ib)) = Ok rc"
    and fold: "try_fold (execute_message_in_block en b ib round) \<lparr> ac_state = st, ac_tracker = t, ac_controller = rc \<rparr>
      (mb_messages (ib_bundle ib)) = Ok ac"
    by (auto simp: run_transaction_def Let_def and_then_Ok)
  have "replays_at lt on_actor on_actor (\<lambda>ac. try_fold (execute_message_in_block en b ib round) ac (mb_messages (ib_bundle ib)))
      (\<lambda>ac. try_fold (execute_message_in_block en' (replay_block lt rr b) ib r) ac (mb_messages (ib_bundle ib)))
      \<lparr> ac_state = st, ac_tracker = t, ac_controller = rc \<rparr>"
    by (rule replays_at_fold) (rule execute_message_in_block_replays [OF assms(1)])
  with fold assms(3) show ?thesis
    using rc by (simp add: replays_at_def run_transaction_def ReceiveMessages replay_actor_def)
next
  case (ExecuteOperation op)
  let ?cec = "bt_execution_context b tx"
  let ?c = "\<lparr> octx_chain_id = bt_chain_id b, octx_authenticated_signer = bt_authenticated_signer b,
     octx_height = bt_block_height b, octx_round = round, octx_timestamp = bt_timestamp b \<rparr>"
  from assms(2) obtain s rc ac1 s2 rc2 where
    1: "with_execution_context ?cec (with_state (ex_system st) (bt_controller b) (\<lambda>rc. track_block_size rc (bz_operation bz op))) = Ok (s, rc)"
    and 2: "execute_operation en \<lparr> ac_state = st\<lparr> ex_system := s \<rparr>, ac_tracker = t, ac_controller = rc \<rparr> ?c op = Ok ac1"
    and 3: "with_execution_context ?cec (with_state (ex_system (ac_state ac1)) (ac_controller ac1) (\<lambda>rc. track_operation sources_holder rc op)) = Ok (s2, rc2)"
    and ac: "ac = ac1\<lparr> ac_state := (ac_state ac1)\<lparr> ex_system := s2 \<rparr>, ac_controller := rc2 \<rparr>"
    by (auto simp: run_transaction_def Let_def ExecuteOperation and_then_Ok with_execution_context_def map_err_Ok)
  from execute_operation_replays [OF assms(1), of ?c op] 2 assms(3) obtain rs where "records t rs (ac_tracker ac1)"
    "\<And>rest. execute_operation en' (replay_actor lt (rs @ rest) \<lparr> ac_state = st\<lparr> ex_system := s \<rparr>, ac_tracker = t, ac_controller = rc \<rparr>)
      (?c\<lparr> octx_round := r \<rparr>) op = Ok (replay_actor lt rest ac1)"
    by (fastforce simp: replays_at_def)
  with 1 3 show ?thesis
    by (intro exI [of _ rs]) (simp add: run_transaction_def Let_def ExecuteOperation ac with_execution_context_def replay_actor_def)
qed

lemma process_txn_outcome_replay:
  "process_txn_outcome bz (replay_block lt rr b) out s c =
    and_then (process_txn_outcome bz b out s c) (\<lambda>(b, s). Ok (replay_block lt rr b, s))"
proof -
  have "track_published_blob bz (replay_block lt rr b) c = track_published_blob bz b c"
    by (simp add: track_published_blob_def replay_block_def fun_eq_iff)
  then show ?thesis
    by (simp add: process_txn_outcome_def and_then_assoc case_prod_beta)
      (auto intro!: and_then_cong simp: replay_block_def and_then_assoc case_prod_beta)
qed

lemma process_txn_outcome_responses:
  assumes "process_txn_outcome bz b out s c = Ok (b', s')"
  shows "bt_oracle_responses b' = bt_oracle_responses b @ [to_oracle_responses out]" "bt_replaying b' = bt_replaying b"
    "bt_transaction_index b' = bt_transaction_index b + 1"
  using assms by (auto simp: process_txn_outcome_def and_then_Ok)

lemma execute_transaction_replays:
  assumes env: "replay_env en en' lt r" and run: "execute_transaction en bz round (b, st) tx = Ok (b1, st1)"
    and none: "bt_replaying b = None"
  shows "\<exists>rs. bt_oracle_responses b1 = bt_oracle_responses b @ [rs] \<and> bt_replaying b1 = None \<and>
    bt_transaction_index b1 = bt_transaction_index b + 1 \<and>
    (\<forall>rr. unat (bt_transaction_index b) < length rr \<longrightarrow> rr ! unat (bt_transaction_index b) = rs \<longrightarrow>
      execute_transaction en' bz r (replay_block lt rr b, st) tx = Ok (replay_block lt rr b1, st1))"
proof -
  let ?t = "\<lambda>rs. TransactionTracker_new (bt_local_time b) (bt_transaction_index b) (bt_next_application_index b) (bt_next_chain_index b) rs (bt_blobs b)"
  let ?cec = "bt_execution_context b tx"
  from run none obtain ac out s1 where 1: "run_transaction en bz round b st (?t None) tx = Ok ac"
    and 2: "into_outcome (ac_tracker ac) = Ok out"
    and 3: "process_txn_outcome bz (b\<lparr> bt_controller := ac_controller ac \<rparr>) out (ex_system (ac_state ac)) ?cec = Ok (b1, s1)"
    and st1: "st1 = (ac_state ac)\<lparr> ex_system := s1 \<rparr>"
    by (auto simp: execute_transaction_def Let_def and_then_Ok new_transaction_tracker_def bt_current_responses_def
        with_execution_context_def map_err_Ok)
  have t: "tt_replaying (?t None) = None" "tt_oracle_responses (?t None) = []" "replay_with lt (?t None) rs = replay_with lt (?t (Some rs)) rs" for rs
    by (simp_all add: TransactionTracker_new_def)
  define rs where "rs = tt_oracle_responses (ac_tracker ac)"
  have rs: "records (?t None) rs (ac_tracker ac)"
    "run_transaction en' bz r (replay_block lt rr b) st (replay_with lt (?t None) (rs @ rest)) tx = Ok (replay_actor lt rest ac)" for rr rest
    using run_transaction_replays [OF env 1 t(1), of rr] by (auto simp: records_def t(2) rs_def)
  from rs(1) 2 have out: "to_oracle_responses out = rs" "into_outcome (replay_with lt (ac_tracker ac) []) = Ok out"
    by (auto simp: records_def t into_outcome_def and_then_Ok ensure_Ok)
  have "execute_transaction en' bz r (replay_block lt rr b, st) tx = Ok (replay_block lt rr b1, st1)"
    if rr: "unat (bt_transaction_index b) < length rr" "rr ! unat (bt_transaction_index b) = rs" for rr
  proof -
    have new: "new_transaction_tracker (replay_block lt rr b) = Ok (replay_with lt (?t None) rs)"
      using rr by (simp add: new_transaction_tracker_def bt_current_responses_def replay_block_def TransactionTracker_new_def)
    have "(replay_block lt rr b)\<lparr> bt_controller := ac_controller ac \<rparr> = replay_block lt rr (b\<lparr> bt_controller := ac_controller ac \<rparr>)"
      by (simp add: replay_block_def)
    with new rs(2) [of rr "[]"] out(2) 3 show ?thesis
      by (simp add: execute_transaction_def Let_def with_execution_context_def process_txn_outcome_replay st1)
  qed
  with process_txn_outcome_responses [OF 3] out(1) none show ?thesis by (intro exI [of _ rs]) simp
qed

lemma transactions_replay:
  assumes "replay_env en en' lt r" "try_fold (execute_transaction en bz round) (b, st) txs = Ok (b1, st1)" "bt_replaying b = None"
    and "unat (bt_transaction_index b) = length (bt_oracle_responses b)" "length (bt_oracle_responses b) + length txs < 2 ^ 32"
  shows "\<exists>rss. bt_oracle_responses b1 = bt_oracle_responses b @ rss \<and> length rss = length txs \<and>
    (\<forall>more. try_fold (execute_transaction en' bz r) (replay_block lt (bt_oracle_responses b @ rss @ more) b, st) txs =
      Ok (replay_block lt (bt_oracle_responses b @ rss @ more) b1, st1))"
  using assms(2-)
proof (induction txs arbitrary: b st)
  case (Cons tx txs)
  then obtain b2 st2 where 1: "execute_transaction en bz round (b, st) tx = Ok (b2, st2)"
    and 2: "try_fold (execute_transaction en bz round) (b2, st2) txs = Ok (b1, st1)"
    by (auto simp: and_then_Ok)
  from execute_transaction_replays [OF assms(1) 1 Cons.prems(2)] obtain rs where
    rs: "bt_oracle_responses b2 = bt_oracle_responses b @ [rs]" "bt_replaying b2 = None"
      "bt_transaction_index b2 = bt_transaction_index b + 1"
    and replay: "\<And>rr. unat (bt_transaction_index b) < length rr \<Longrightarrow> rr ! unat (bt_transaction_index b) = rs \<Longrightarrow>
      execute_transaction en' bz r (replay_block lt rr b, st) tx = Ok (replay_block lt rr b2, st2)" by blast
  have "unat (bt_transaction_index b2) = length (bt_oracle_responses b2)"
    using Cons.prems(3,4) unat_add_lem [of "bt_transaction_index b" 1] by (simp add: rs)
  with Cons.IH [OF 2 rs(2)] Cons.prems(4) obtain rss where
    rss: "bt_oracle_responses b1 = bt_oracle_responses b2 @ rss" "length rss = length txs"
      "\<And>more. try_fold (execute_transaction en' bz r) (replay_block lt (bt_oracle_responses b2 @ rss @ more) b2, st2) txs =
        Ok (replay_block lt (bt_oracle_responses b2 @ rss @ more) b1, st1)" by (auto simp: rs)
  with replay Cons.prems(3) show ?case
    by (intro exI [of _ "rs # rss"]) (simp add: rs(1) nth_append)
qed simp

end
