(* ===== verification/Manager.thy ===== *)
theory Manager
  imports Certificates
begin

text \<open>
  The chain manager (\<open>linera-chain/src/manager.rs\<close>): the state of the certification
  process for the next block of a chain, the checks on proposals and certificates, and
  the votes. \<open>WeightedAliasIndex\<close> and the random number generator that pick the leader of
  a round come from a library: the type \<open>'d\<close> of distributions and the two functions of
  \<open>sampler\<close> are parameters. Storage errors are not modelled.
\<close>

record 'd sampler =
  ws_new :: "u64 list \<Rightarrow> 'd option"
  ws_sample :: "u64 \<Rightarrow> 'd \<Rightarrow> nat"

datatype outcome = OutcomeAccept | OutcomeSkip

datatype locking_block = LockFast block_proposal | LockRegular "block certificate"

definition locking_round :: "locking_block \<Rightarrow> round" where
  "locking_round l = (case l of LockFast _ \<Rightarrow> Fast | LockRegular cert \<Rightarrow> c_round cert)"

definition locking_chain_id :: "locking_block \<Rightarrow> chain_id" where
  "locking_chain_id l =
    (case l of LockFast p \<Rightarrow> pb_chain_id (pc_block (bp_content p))
             | LockRegular cert \<Rightarrow> bh_chain_id (b_header (c_value cert)))"

record 'd chain_manager =
  cm_ownership :: chain_ownership
  cm_seed :: u64
  cm_distribution :: "'d option"
  cm_fallback_distribution :: "'d option"
  cm_signed_proposal :: "block_proposal option"
  cm_proposed :: "block_proposal option"
  cm_proposed_blobs :: "(blob_id, blob) btree_map"
  cm_locking_block :: "locking_block option"
  cm_locking_blobs :: "(blob_id, blob) btree_map"
  cm_timeout :: "timeout certificate option"
  cm_confirmed_vote :: "block vote option"
  cm_validated_vote :: "block vote option"
  cm_timeout_vote :: "timeout vote option"
  cm_fallback_vote :: "timeout vote option"
  cm_round_timeout :: "timestamp option"
  cm_current_round :: round
  cm_fallback_owners :: "(account_owner, u64) btree_map"

subsection \<open>Leaders\<close>

definition calculate_distribution :: "'d sampler \<Rightarrow> ('k, u64) btree_map \<Rightarrow> 'd option" where
  "calculate_distribution S weights =
    (let ws = map snd weights in if ws = [] then None else ws_new S ws)"

definition round_leader_index :: "'d sampler \<Rightarrow> u32 \<Rightarrow> u64 \<Rightarrow> 'd option \<Rightarrow> nat option" where
  "round_leader_index S r seed distribution =
    (let seed = word_rotl 32 (ucast r) + seed in map_option (ws_sample S seed) distribution)"

definition nth_key :: "('k, 'v) btree_map \<Rightarrow> nat \<Rightarrow> 'k option" where
  "nth_key m i = (if i < length m then Some (fst (m ! i)) else None)"

definition is_super :: "'d chain_manager \<Rightarrow> account_owner \<Rightarrow> bool" where
  "is_super m owner = List.member (super_owners (cm_ownership m)) owner"

definition verify_owner :: "'d sampler \<Rightarrow> 'd chain_manager \<Rightarrow> account_owner \<Rightarrow> round \<Rightarrow> bool" where
  "verify_owner S m owner r =
    (if List.member (super_owners (cm_ownership m)) owner then True
     else case r of
       Fast \<Rightarrow> False
     | MultiLeader _ \<Rightarrow>
        open_multi_leader_rounds (cm_ownership m) \<or> btm_get (owners (cm_ownership m)) owner \<noteq> None
     | SingleLeader n \<Rightarrow>
        (case round_leader_index S n (cm_seed m) (cm_distribution m) of
           None \<Rightarrow> False
         | Some i \<Rightarrow> nth_key (owners (cm_ownership m)) i = Some owner)
     | Validator n \<Rightarrow>
        (case round_leader_index S n (cm_seed m) (cm_fallback_distribution m) of
           None \<Rightarrow> False
         | Some i \<Rightarrow> nth_key (cm_fallback_owners m) i = Some owner))"

definition round_leader :: "'d sampler \<Rightarrow> 'd chain_manager \<Rightarrow> round \<Rightarrow> account_owner option" where
  "round_leader S m r =
    (case r of
       SingleLeader n \<Rightarrow>
        Option.bind (round_leader_index S n (cm_seed m) (cm_distribution m)) (nth_key (owners (cm_ownership m)))
     | Validator n \<Rightarrow>
        Option.bind (round_leader_index S n (cm_seed m) (cm_fallback_distribution m)) (nth_key (cm_fallback_owners m))
     | Fast \<Rightarrow> None
     | MultiLeader _ \<Rightarrow> None)"

subsection \<open>Resetting\<close>

definition manager_reset ::
  "crypto \<Rightarrow> 'd sampler \<Rightarrow> chain_ownership \<Rightarrow> block_height \<Rightarrow> timestamp \<Rightarrow> (account_public_key \<times> u64) list
    \<Rightarrow> 'd chain_manager" where
  "manager_reset cr S ow h local_time fallback =
    (let fallback_owners = btm_of_list (map (\<lambda>(k, w). (cr_owner_of_key cr k, w)) fallback);
         current_round = first_round ow
     in \<lparr> cm_ownership = ow, cm_seed = h,
          cm_distribution = calculate_distribution S (owners ow),
          cm_fallback_distribution = calculate_distribution S fallback_owners,
          cm_signed_proposal = None, cm_proposed = None, cm_proposed_blobs = [],
          cm_locking_block = None, cm_locking_blobs = [], cm_timeout = None,
          cm_confirmed_vote = None, cm_validated_vote = None, cm_timeout_vote = None,
          cm_fallback_vote = None,
          cm_round_timeout = map_option (Timestamp_saturating_add local_time) (round_timeout ow current_round),
          cm_current_round = current_round, cm_fallback_owners = fallback_owners \<rparr>)"

subsection \<open>Checks\<close>

definition check_round :: "crypto \<Rightarrow> 'd chain_manager \<Rightarrow> block_proposal \<Rightarrow> (unit, chain_error) result" where
  "check_round cr m p =
    (let new_round = pc_round (bp_content p); current_round = cm_current_round m;
         any_of_later = and_then (ensure (is_super m (proposal_owner cr p) \<or> \<not> is_fast current_round)
                          (WrongRound current_round)) (\<lambda>_.
                        ensure (current_round \<le> new_round) (InsufficientRound new_round));
         only_current = ensure (new_round = current_round) (WrongRound current_round)
     in case new_round of
          Fast \<Rightarrow> Ok ()
        | MultiLeader _ \<Rightarrow> any_of_later
        | SingleLeader n \<Rightarrow> if n = 0 then any_of_later else only_current
        | Validator _ \<Rightarrow> only_current)"

definition check_proposed_block :: "crypto \<Rightarrow> 'd chain_manager \<Rightarrow> block_proposal \<Rightarrow> (outcome, chain_error) result" where
  "check_proposed_block cr m p =
    (let new_block = pc_block (bp_content p); new_round = pc_round (bp_content p) in
     if map_option bp_content (cm_proposed m) = Some (bp_content p) then Ok OutcomeSkip
     else
       and_then (ensure (pb_height new_block < word_max) BlockHeightOverflow) (\<lambda>_.
       and_then (check_round cr m p) (\<lambda>_.
       and_then (case cm_validated_vote m of
                   None \<Rightarrow> Ok ()
                 | Some vote \<Rightarrow> ensure (v_round vote < new_round) (InsufficientRoundStrict (v_round vote))) (\<lambda>_.
       and_then (case cm_locking_block m of
                   None \<Rightarrow> Ok ()
                 | Some l \<Rightarrow> ensure (locking_round l < new_round)
                               (MustBeNewerThanLockingBlock (pb_height new_block) (locking_round l))) (\<lambda>_.
       and_then (case cm_confirmed_vote m of
                   None \<Rightarrow> Ok ()
                 | Some vote \<Rightarrow>
                    ensure (case bp_original_proposal p of
                              None \<Rightarrow> False
                            | Some (OriginalRegular cert) \<Rightarrow> v_round vote \<le> lc_round cert
                            | Some (OriginalFast _) \<Rightarrow>
                                is_fast (v_round vote) \<and> matches_proposed_block (v_value vote) new_block)
                      (HasIncompatibleConfirmedVote (pb_height new_block) (v_round vote))) (\<lambda>_.
       Ok OutcomeAccept))))))"

definition check_validated_block :: "'d chain_manager \<Rightarrow> block certificate \<Rightarrow> (outcome, chain_error) result" where
  "check_validated_block m cert =
    (let new_block = c_value cert; new_round = c_round cert in
     if (case cm_confirmed_vote m of
           None \<Rightarrow> False | Some vote \<Rightarrow> v_value vote = new_block \<and> v_round vote = new_round)
     then Ok OutcomeSkip
     else
       and_then (case cm_validated_vote m of
                   None \<Rightarrow> Ok ()
                 | Some vote \<Rightarrow> ensure (v_round vote \<le> new_round) (InsufficientRound (v_round vote))) (\<lambda>_.
       and_then (case cm_locking_block m of
                   None \<Rightarrow> Ok ()
                 | Some l \<Rightarrow> ensure (locking_round l < new_round) (InsufficientRoundStrict (locking_round l))) (\<lambda>_.
       Ok OutcomeAccept)))"

subsection \<open>Updates\<close>

definition known_round :: "'d chain_manager \<Rightarrow> round" where
  "known_round m =
    (let from_timeout = (case cm_timeout m of
           None \<Rightarrow> []
         | Some cert \<Rightarrow> [case next_round (cm_ownership m) (c_round cert) of
                            Some r \<Rightarrow> r | None \<Rightarrow> Validator word_max]);
         from_locking = map locking_round (case cm_locking_block m of None \<Rightarrow> [] | Some l \<Rightarrow> [l]);
         from_proposed = map (\<lambda>p. pc_round (bp_content p))
           ((case cm_proposed m of None \<Rightarrow> [] | Some p \<Rightarrow> [p]) @
            (case cm_signed_proposal m of None \<Rightarrow> [] | Some p \<Rightarrow> [p]))
     in max (foldl max Fast (from_timeout @ from_locking @ from_proposed)) (first_round (cm_ownership m)))"

definition update_current_round :: "'d chain_manager \<Rightarrow> timestamp \<Rightarrow> 'd chain_manager" where
  "update_current_round m local_time =
    (let current_round = known_round m
     in if current_round \<le> cm_current_round m then m
        else m\<lparr> cm_round_timeout := map_option (Timestamp_saturating_add local_time)
                                      (round_timeout (cm_ownership m) current_round),
               cm_current_round := current_round \<rparr>)"

definition handle_timeout_certificate :: "'d chain_manager \<Rightarrow> timeout certificate \<Rightarrow> timestamp \<Rightarrow> 'd chain_manager" where
  "handle_timeout_certificate m cert local_time =
    (if (case cm_timeout m of None \<Rightarrow> False | Some known \<Rightarrow> c_round cert \<le> c_round known) then m
     else update_current_round (m\<lparr> cm_timeout := Some cert \<rparr>) local_time)"

definition update_signed_proposal :: "'d chain_manager \<Rightarrow> block_proposal \<Rightarrow> timestamp \<Rightarrow> 'd chain_manager \<times> bool" where
  "update_signed_proposal m p local_time =
    (if SingleLeader 0 < pc_round (bp_content p) then (m, False)
     else case cm_signed_proposal m of
       Some old \<Rightarrow>
        if pc_round (bp_content p) \<le> pc_round (bp_content old)
        then (if cm_current_round m < pc_round (bp_content old)
              then (update_current_round m local_time, True) else (m, False))
        else if (case cm_proposed m of None \<Rightarrow> False | Some old \<Rightarrow> pc_round (bp_content p) \<le> pc_round (bp_content old))
        then (m, False)
        else (update_current_round (m\<lparr> cm_signed_proposal := Some p \<rparr>) local_time, True)
     | None \<Rightarrow>
        if (case cm_proposed m of None \<Rightarrow> False | Some old \<Rightarrow> pc_round (bp_content p) \<le> pc_round (bp_content old))
        then (m, False)
        else (update_current_round (m\<lparr> cm_signed_proposal := Some p \<rparr>) local_time, True))"

definition update_proposed :: "'d chain_manager \<Rightarrow> block_proposal \<Rightarrow> (blob_id, blob) btree_map \<Rightarrow> 'd chain_manager" where
  "update_proposed m p blobs =
    (if (case cm_proposed m of None \<Rightarrow> False | Some old \<Rightarrow> pc_round (bp_content p) \<le> pc_round (bp_content old)) then m
     else
       let m = (case cm_signed_proposal m of
                  None \<Rightarrow> m
                | Some old \<Rightarrow> if pc_round (bp_content old) \<le> pc_round (bp_content p)
                              then m\<lparr> cm_signed_proposal := None \<rparr> else m)
       in m\<lparr> cm_proposed := Some p, cm_proposed_blobs := blobs \<rparr>)"

definition update_locking :: "'d chain_manager \<Rightarrow> locking_block \<Rightarrow> (blob_id, blob) btree_map \<Rightarrow> 'd chain_manager" where
  "update_locking m l blobs =
    (if (case cm_locking_block m of None \<Rightarrow> False | Some old \<Rightarrow> locking_round l \<le> locking_round old) then m
     else m\<lparr> cm_locking_block := Some l, cm_locking_blobs := blobs \<rparr>)"

definition pending_blob :: "'d chain_manager \<Rightarrow> blob_id \<Rightarrow> blob option" where
  "pending_blob m bid =
    (case btm_get (cm_proposed_blobs m) bid of
       Some b \<Rightarrow> Some b
     | None \<Rightarrow> btm_get (cm_locking_blobs m) bid)"

subsection \<open>Votes\<close>

definition create_timeout_vote ::
  "hashes \<Rightarrow> 'd chain_manager \<Rightarrow> chain_id \<Rightarrow> block_height \<Rightarrow> round \<Rightarrow> epoch \<Rightarrow> signer option \<Rightarrow> timestamp
    \<Rightarrow> ('d chain_manager \<times> bool, chain_error) result" where
  "create_timeout_vote hs m chain height r ep key_pair local_time =
    (case key_pair of
       None \<Rightarrow> Ok (m, False)
     | Some key \<Rightarrow>
        and_then (ensure (r = cm_current_round m) (WrongRound (cm_current_round m))) (\<lambda>_.
        and_then (ok_or (cm_round_timeout m) RoundDoesNotTimeOut) (\<lambda>round_timeout.
        and_then (ensure (round_timeout \<le> local_time) (NotTimedOutYet round_timeout)) (\<lambda>_.
        if (case cm_timeout_vote m of None \<Rightarrow> False | Some vote \<Rightarrow> v_round vote = r) then Ok (m, False)
        else
          let v = \<lparr> to_chain_id = chain, to_height = height, to_epoch = ep \<rparr>
          in Ok (m\<lparr> cm_timeout_vote := Some (Vote_new (timeout_value hs) v r key) \<rparr>, True)))))"

definition vote_fallback ::
  "hashes \<Rightarrow> 'd chain_manager \<Rightarrow> chain_id \<Rightarrow> block_height \<Rightarrow> epoch \<Rightarrow> signer option \<Rightarrow> 'd chain_manager \<times> bool" where
  "vote_fallback hs m chain height ep key_pair =
    (case key_pair of
       None \<Rightarrow> (m, False)
     | Some key \<Rightarrow>
        if cm_fallback_vote m \<noteq> None \<or> Validator 0 \<le> cm_current_round m then (m, False)
        else
          let v = \<lparr> to_chain_id = chain, to_height = height, to_epoch = ep \<rparr>;
              last_regular_round = SingleLeader word_max
          in (m\<lparr> cm_fallback_vote := Some (Vote_new (timeout_value hs) v last_regular_round key) \<rparr>, True))"

definition lock_proposal ::
  "hashes \<Rightarrow> 'd chain_manager \<Rightarrow> block_proposal \<Rightarrow> block \<Rightarrow> (blob_id, blob) btree_map \<Rightarrow> 'd chain_manager" where
  "lock_proposal hs m p blk blobs =
    (case bp_original_proposal p of
       Some (OriginalRegular cert) \<Rightarrow>
        if (case cm_locking_block m of None \<Rightarrow> True | Some l \<Rightarrow> locking_round l < lc_round cert)
        then (case with_value (validated_value hs) cert blk of
                Some cert' \<Rightarrow> update_locking m (LockRegular cert') blobs
              | None \<Rightarrow> m)
        else m
     | Some (OriginalFast signature) \<Rightarrow>
        if cm_locking_block m = None then update_locking m (LockFast (p\<lparr> bp_signature := signature \<rparr>)) blobs
        else m
     | None \<Rightarrow>
        if is_fast (pc_round (bp_content p)) \<and> cm_locking_block m = None
        then update_locking m (LockFast p) blobs else m)"

definition create_vote ::
  "hashes \<Rightarrow> 'd chain_manager \<Rightarrow> block_proposal \<Rightarrow> block \<Rightarrow> signer option \<Rightarrow> timestamp
    \<Rightarrow> (blob_id, blob) btree_map \<Rightarrow> 'd chain_manager \<times> (block vote + block vote) option" where
  "create_vote hs m p blk key_pair local_time blobs =
    (let r = pc_round (bp_content p);
         m = update_current_round (update_proposed (lock_proposal hs m p blk blobs) p blobs) local_time
     in case key_pair of
          None \<Rightarrow> (m, None)
        | Some key \<Rightarrow>
           if is_fast r then
             let vote = Vote_new (confirmed_value hs) blk r key
             in (m\<lparr> cm_validated_vote := None, cm_confirmed_vote := Some vote \<rparr>, Some (Inr vote))
           else
             let vote = Vote_new (validated_value hs) blk r key
             in (m\<lparr> cm_validated_vote := Some vote \<rparr>, Some (Inl vote)))"

definition create_final_vote ::
  "hashes \<Rightarrow> 'd chain_manager \<Rightarrow> block certificate \<Rightarrow> signer option \<Rightarrow> timestamp
    \<Rightarrow> (blob_id, blob) btree_map \<Rightarrow> 'd chain_manager" where
  "create_final_vote hs m validated key_pair local_time blobs =
    (let r = c_round validated; confirmed_block = c_value validated;
         m = update_current_round (update_locking m (LockRegular validated) blobs) local_time
     in case key_pair of
          None \<Rightarrow> m
        | Some key \<Rightarrow>
           if cm_current_round m \<noteq> r then m
           else m\<lparr> cm_confirmed_vote := Some (Vote_new (confirmed_value hs) confirmed_block r key),
                  cm_validated_vote := None \<rparr>)"

subsection \<open>The information sent to clients\<close>

record chain_manager_info =
  mi_ownership :: chain_ownership
  mi_requested_signed_proposal :: "block_proposal option"
  mi_requested_proposed :: "block_proposal option"
  mi_requested_locking :: "locking_block option"
  mi_timeout :: "timeout certificate option"
  mi_pending :: "lite_vote option"
  mi_timeout_vote :: "lite_vote option"
  mi_fallback_vote :: "lite_vote option"
  mi_requested_confirmed :: "block option"
  mi_requested_validated :: "block option"
  mi_current_round :: round
  mi_leader :: "account_owner option"
  mi_round_timeout :: "timestamp option"

definition pending_vote :: "hashes \<Rightarrow> 'd chain_manager \<Rightarrow> lite_vote option" where
  "pending_vote hs m =
    (case (cm_confirmed_vote m, cm_validated_vote m) of
       (None, None) \<Rightarrow> None
     | (Some cv, Some vv) \<Rightarrow>
        if v_round cv < v_round vv then Some (vote_lite (validated_value hs) vv)
        else Some (vote_lite (confirmed_value hs) cv)
     | (Some cv, None) \<Rightarrow> Some (vote_lite (confirmed_value hs) cv)
     | (None, Some vv) \<Rightarrow> Some (vote_lite (validated_value hs) vv))"

definition manager_info :: "hashes \<Rightarrow> 'd sampler \<Rightarrow> 'd chain_manager \<Rightarrow> chain_manager_info" where
  "manager_info hs S m =
    \<lparr> mi_ownership = cm_ownership m, mi_requested_signed_proposal = None, mi_requested_proposed = None,
      mi_requested_locking = None, mi_timeout = cm_timeout m, mi_pending = pending_vote hs m,
      mi_timeout_vote = map_option (vote_lite (timeout_value hs)) (cm_timeout_vote m),
      mi_fallback_vote = map_option (vote_lite (timeout_value hs)) (cm_fallback_vote m),
      mi_requested_confirmed = None, mi_requested_validated = None,
      mi_current_round = cm_current_round m, mi_leader = round_leader S m (cm_current_round m),
      mi_round_timeout = cm_round_timeout m \<rparr>"

definition add_values :: "chain_manager_info \<Rightarrow> 'd chain_manager \<Rightarrow> chain_manager_info" where
  "add_values info m =
    info\<lparr> mi_requested_signed_proposal := cm_signed_proposal m, mi_requested_proposed := cm_proposed m,
         mi_requested_locking := cm_locking_block m,
         mi_requested_confirmed := map_option v_value (cm_confirmed_vote m),
         mi_requested_validated := map_option v_value (cm_validated_vote m) \<rparr>"

definition can_propose ::
  "'d sampler \<Rightarrow> chain_manager_info \<Rightarrow> account_owner \<Rightarrow> round \<Rightarrow> u64 \<Rightarrow> (account_owner, u64) btree_map \<Rightarrow> bool" where
  "can_propose S info identity r seed current_committee =
    (let leads = (\<lambda>n members.
           case calculate_distribution S members of
             Some d \<Rightarrow>
              (case round_leader_index S n seed (Some d) of
                 Some i \<Rightarrow> nth_key members i = Some identity | None \<Rightarrow> False)
           | None \<Rightarrow> False)
     in case r of
          Fast \<Rightarrow> List.member (super_owners (mi_ownership info)) identity
        | MultiLeader _ \<Rightarrow> True
        | SingleLeader n \<Rightarrow> leads n (owners (mi_ownership info))
        | Validator n \<Rightarrow> leads n current_committee)"

definition already_handled_proposal :: "chain_manager_info \<Rightarrow> round \<Rightarrow> proposed_block \<Rightarrow> bool" where
  "already_handled_proposal info r pb =
    (case mi_requested_proposed info of
       None \<Rightarrow> False
     | Some p \<Rightarrow> pc_round (bp_content p) = r \<and> pb = pc_block (bp_content p))"

definition has_locking_block_in_current_round :: "chain_manager_info \<Rightarrow> bool" where
  "has_locking_block_in_current_round info =
    (case mi_requested_locking info of None \<Rightarrow> False | Some l \<Rightarrow> locking_round l = mi_current_round info)"

subsection \<open>What the updates keep\<close>

lemma update_current_round_sel [simp]:
  "cm_ownership (update_current_round m t) = cm_ownership m"
  "cm_locking_block (update_current_round m t) = cm_locking_block m"
  "cm_proposed (update_current_round m t) = cm_proposed m"
  "cm_signed_proposal (update_current_round m t) = cm_signed_proposal m"
  "cm_timeout (update_current_round m t) = cm_timeout m"
  "cm_confirmed_vote (update_current_round m t) = cm_confirmed_vote m"
  "cm_validated_vote (update_current_round m t) = cm_validated_vote m"
  "cm_current_round (update_current_round m t) = max (known_round m) (cm_current_round m)"
  by (simp_all add: update_current_round_def Let_def max_def)

lemma update_locking_sel [simp]:
  "cm_ownership (update_locking m l bs) = cm_ownership m"
  "cm_proposed (update_locking m l bs) = cm_proposed m"
  "cm_signed_proposal (update_locking m l bs) = cm_signed_proposal m"
  "cm_timeout (update_locking m l bs) = cm_timeout m"
  "cm_confirmed_vote (update_locking m l bs) = cm_confirmed_vote m"
  "cm_validated_vote (update_locking m l bs) = cm_validated_vote m"
  "cm_current_round (update_locking m l bs) = cm_current_round m"
  by (simp_all add: update_locking_def)

lemma lock_proposal_sel [simp]:
  "cm_ownership (lock_proposal hs m p b bs) = cm_ownership m"
  "cm_proposed (lock_proposal hs m p b bs) = cm_proposed m"
  "cm_signed_proposal (lock_proposal hs m p b bs) = cm_signed_proposal m"
  "cm_timeout (lock_proposal hs m p b bs) = cm_timeout m"
  "cm_confirmed_vote (lock_proposal hs m p b bs) = cm_confirmed_vote m"
  "cm_validated_vote (lock_proposal hs m p b bs) = cm_validated_vote m"
  "cm_current_round (lock_proposal hs m p b bs) = cm_current_round m"
  by (simp_all add: lock_proposal_def split: option.splits original_proposal.splits)

lemma update_proposed_sel [simp]:
  "cm_ownership (update_proposed m p bs) = cm_ownership m"
  "cm_locking_block (update_proposed m p bs) = cm_locking_block m"
  "cm_timeout (update_proposed m p bs) = cm_timeout m"
  "cm_confirmed_vote (update_proposed m p bs) = cm_confirmed_vote m"
  "cm_validated_vote (update_proposed m p bs) = cm_validated_vote m"
  "cm_current_round (update_proposed m p bs) = cm_current_round m"
  by (simp_all add: update_proposed_def Let_def split: option.splits)

lemma update_signed_proposal_sel [simp]:
  "cm_ownership (fst (update_signed_proposal m p t)) = cm_ownership m"
  "cm_locking_block (fst (update_signed_proposal m p t)) = cm_locking_block m"
  "cm_proposed (fst (update_signed_proposal m p t)) = cm_proposed m"
  "cm_timeout (fst (update_signed_proposal m p t)) = cm_timeout m"
  "cm_confirmed_vote (fst (update_signed_proposal m p t)) = cm_confirmed_vote m"
  "cm_validated_vote (fst (update_signed_proposal m p t)) = cm_validated_vote m"
  by (simp_all add: update_signed_proposal_def split: option.splits)

lemma handle_timeout_certificate_sel [simp]:
  "cm_ownership (handle_timeout_certificate m cert t) = cm_ownership m"
  "cm_locking_block (handle_timeout_certificate m cert t) = cm_locking_block m"
  "cm_proposed (handle_timeout_certificate m cert t) = cm_proposed m"
  "cm_signed_proposal (handle_timeout_certificate m cert t) = cm_signed_proposal m"
  "cm_confirmed_vote (handle_timeout_certificate m cert t) = cm_confirmed_vote m"
  "cm_validated_vote (handle_timeout_certificate m cert t) = cm_validated_vote m"
  by (simp_all add: handle_timeout_certificate_def)

text \<open>The round a locking block pins, none when there is no locking block.\<close>

definition lock_of :: "'d chain_manager \<Rightarrow> round option" where
  "lock_of m = map_option locking_round (cm_locking_block m)"

lemma lock_of_simps [simp]:
  "lock_of (update_current_round m t) = lock_of m"
  "lock_of (update_proposed m p bs) = lock_of m"
  "lock_of (fst (update_signed_proposal m p t)) = lock_of m"
  "lock_of (handle_timeout_certificate m cert t) = lock_of m"
  "lock_of (m\<lparr> cm_validated_vote := vv \<rparr>) = lock_of m"
  "lock_of (m\<lparr> cm_confirmed_vote := cv \<rparr>) = lock_of m"
  by (simp_all add: lock_of_def)

lemma update_locking_lock [simp]:
  "lock_of (update_locking m l bs) =
    Some (case lock_of m of None \<Rightarrow> locking_round l | Some r \<Rightarrow> max (locking_round l) r)"
  by (auto simp: update_locking_def lock_of_def max_def split: option.splits)

subsection \<open>The current round is the latest round the manager knows of\<close>

lemma next_round_mono:
  assumes "r \<le> r'"
  shows "(case next_round ow r of Some n \<Rightarrow> n | None \<Rightarrow> Validator word_max)
    \<le> (case next_round ow r' of Some n \<Rightarrow> n | None \<Rightarrow> Validator word_max)"
proof -
  have inc: "n' \<le> m'" if "checked_add n 1 = Some n'" "checked_add m 1 = Some m'" "n \<le> m" for n m n' m' :: u32
    using that by (simp add: checked_add_Some word_le_nat_alt)
  have top: False if "checked_add n 1 = None" "checked_add m 1 = Some m'" "n \<le> m" for n m m' :: u32
    using that checked_add_1_None [of n] order.antisym [OF le_word_max, of m] by auto
  show ?thesis
    using assms
    apply (cases r; cases r')
    apply (auto simp: next_round_def round_order_defs inc split: option.splits dest: top)
    apply (meson inc order_le_less_trans)
    using top by (meson not_None_eq)
qed

definition succ_round :: "chain_ownership \<Rightarrow> round \<Rightarrow> round" where
  "succ_round ow r = (case next_round ow r of Some n \<Rightarrow> n | None \<Rightarrow> Validator word_max)"

lemma succ_round_mono: "r \<le> r' \<Longrightarrow> succ_round ow r \<le> succ_round ow r'"
  unfolding succ_round_def by (rule next_round_mono)

definition at_least :: "round option \<Rightarrow> round \<Rightarrow> bool" where
  "at_least x r = (case x of None \<Rightarrow> True | Some r' \<Rightarrow> r' \<le> r)"

abbreviation proposal_round :: "block_proposal \<Rightarrow> round" where
  "proposal_round p \<equiv> pc_round (bp_content p)"

lemma foldl_max_le: "foldl max a xs \<le> r \<longleftrightarrow> a \<le> r \<and> (\<forall>x \<in> set xs. x \<le> (r :: 'a :: linorder))"
  by (induction xs arbitrary: a) auto

lemma at_least_set: "(\<forall>x \<in> set (case y of None \<Rightarrow> [] | Some z \<Rightarrow> [f z]). x \<le> r) = at_least (map_option f y) r"
  by (simp add: at_least_def split: option.split)

lemma at_least_mono:
  assumes "at_least y r" and le: "\<And>a. x = Some a \<Longrightarrow> \<exists>b. y = Some b \<and> a \<le> b"
  shows "at_least x r"
proof (cases x)
  case (Some a)
  from le [OF Some] obtain b where "y = Some b" "a \<le> b" by blast
  with assms(1) Some show ?thesis by (simp add: at_least_def)
qed (simp add: at_least_def)

lemma known_round_le:
  "known_round m \<le> r \<longleftrightarrow>
    at_least (map_option (\<lambda>c. succ_round (cm_ownership m) (c_round c)) (cm_timeout m)) r \<and>
    at_least (lock_of m) r \<and> at_least (map_option proposal_round (cm_proposed m)) r \<and>
    at_least (map_option proposal_round (cm_signed_proposal m)) r \<and> first_round (cm_ownership m) \<le> r"
proof -
  have m: "map f (case y of None \<Rightarrow> [] | Some z \<Rightarrow> [z]) = (case y of None \<Rightarrow> [] | Some z \<Rightarrow> [f z])" for f :: "'x \<Rightarrow> round" and y
    by (simp split: option.split)
  show ?thesis
    unfolding known_round_def Let_def max.bounded_iff foldl_max_le set_append ball_Un map_append m at_least_set
    by (simp add: lock_of_def succ_round_def)
qed

text \<open>
  The state is settled when the current round is the maximum of what the manager knows:
  the rounds after a timeout certificate, of the locking block and of the proposals, and
  the first round of the chain.
\<close>

definition settled :: "'d chain_manager \<Rightarrow> bool" where
  "settled m \<longleftrightarrow> cm_current_round m = known_round m"

lemma known_round_mono:
  assumes "cm_ownership m' = cm_ownership m"
    and "\<And>c. cm_timeout m = Some c \<Longrightarrow> \<exists>c'. cm_timeout m' = Some c' \<and> c_round c \<le> c_round c'"
    and "\<And>r. lock_of m = Some r \<Longrightarrow> \<exists>r'. lock_of m' = Some r' \<and> r \<le> r'"
    and "\<And>p. cm_proposed m = Some p \<Longrightarrow> \<exists>p'. cm_proposed m' = Some p' \<and> proposal_round p \<le> proposal_round p'"
    and "\<And>p. cm_signed_proposal m = Some p \<Longrightarrow> proposal_round p \<le> known_round m'"
  shows "known_round m \<le> known_round m'"
proof -
  have k: "at_least (map_option (\<lambda>c. succ_round (cm_ownership m') (c_round c)) (cm_timeout m')) (known_round m')"
    "at_least (lock_of m') (known_round m')" "at_least (map_option proposal_round (cm_proposed m')) (known_round m')"
    "first_round (cm_ownership m') \<le> known_round m'"
    using known_round_le [of m' "known_round m'"] by simp_all
  have "at_least (map_option (\<lambda>c. succ_round (cm_ownership m) (c_round c)) (cm_timeout m)) (known_round m')"
    by (rule at_least_mono [OF k(1)]) (use assms(1,2) succ_round_mono in fastforce)
  moreover have "at_least (lock_of m) (known_round m')"
    by (rule at_least_mono [OF k(2)]) (use assms(3) in fastforce)
  moreover have "at_least (map_option proposal_round (cm_proposed m)) (known_round m')"
    by (rule at_least_mono [OF k(3)]) (use assms(4) in fastforce)
  moreover have "at_least (map_option proposal_round (cm_signed_proposal m)) (known_round m')"
    using assms(5) by (auto simp: at_least_def split: option.splits)
  ultimately show ?thesis using k(4) assms(1) by (simp add: known_round_le)
qed

lemma known_round_update_current [simp]: "known_round (update_current_round m t) = known_round m"
  by (simp add: known_round_def cong: option.case_cong)

lemma known_round_upper:
  "lock_of m = Some r \<Longrightarrow> r \<le> known_round m"
  "cm_proposed m = Some p \<Longrightarrow> proposal_round p \<le> known_round m"
  "cm_signed_proposal m = Some p \<Longrightarrow> proposal_round p \<le> known_round m"
  using known_round_le [of m "known_round m"] by (simp_all add: at_least_def)

lemma settle:
  assumes "settled m0" "cm_current_round m = cm_current_round m0" "known_round m0 \<le> known_round m"
  shows "settled (update_current_round m t)"
  using assms by (simp add: settled_def max_def)

lemma settled_reset: "settled (manager_reset cr S ow h t fb)"
  by (simp add: settled_def manager_reset_def known_round_def Let_def max_def)

lemma lock_of_timeout [simp]: "lock_of (m\<lparr> cm_timeout := x \<rparr>) = lock_of m"
  by (simp add: lock_of_def)

lemma lock_of_signed [simp]: "lock_of (m\<lparr> cm_signed_proposal := x \<rparr>) = lock_of m"
  by (simp add: lock_of_def)

lemma settled_timeout:
  assumes "settled m"
  shows "settled (handle_timeout_certificate m cert t)"
proof (cases "case cm_timeout m of None \<Rightarrow> False | Some known \<Rightarrow> c_round cert \<le> c_round known")
  case False
  let ?m = "m\<lparr> cm_timeout := Some cert \<rparr>"
  have "known_round m \<le> known_round ?m"
    by (rule known_round_mono) (use False known_round_upper(3) [of ?m] in \<open>auto split: option.splits\<close>)
  then show ?thesis
    using assms False by (simp add: handle_timeout_certificate_def settle [of m])
qed (use assms in \<open>simp add: handle_timeout_certificate_def\<close>)

lemma settled_signed_proposal:
  assumes "settled m"
  shows "settled (fst (update_signed_proposal m p t))"
proof -
  let ?m = "m\<lparr> cm_signed_proposal := Some p \<rparr>"
  have "settled (update_current_round ?m t)"
    if new: "\<And>old. cm_signed_proposal m = Some old \<Longrightarrow> proposal_round old \<le> proposal_round p"
  proof (rule settle [OF assms])
    have "proposal_round p \<le> known_round ?m" using known_round_upper(3) [of ?m p] by simp
    then show "known_round m \<le> known_round ?m"
      by (intro known_round_mono) (use new in \<open>auto intro: order_trans\<close>)
  qed simp
  moreover have "settled (update_current_round m t)" using assms by (rule settle) simp_all
  ultimately show ?thesis
    using assms by (auto simp: update_signed_proposal_def split: option.splits)
qed

lemma known_round_update_locking: "known_round m \<le> known_round (update_locking m l bs)"
  by (rule known_round_mono)
    (use known_round_upper(3) [of "update_locking m l bs"] in \<open>auto split: option.splits\<close>)

lemma known_round_lock_proposal: "known_round m \<le> known_round (lock_proposal hs m p b bs)"
  by (auto simp: lock_proposal_def known_round_update_locking split: option.splits original_proposal.splits)

lemma known_round_update_proposed: "known_round m \<le> known_round (update_proposed m p bs)"
proof (cases "case cm_proposed m of None \<Rightarrow> False | Some old \<Rightarrow> proposal_round p \<le> proposal_round old")
  case False
  let ?m = "update_proposed m p bs"
  have "cm_proposed ?m = Some p" using False by (simp add: update_proposed_def Let_def)
  then have "proposal_round p \<le> known_round ?m" by (rule known_round_upper)
  moreover have "cm_signed_proposal ?m = cm_signed_proposal m \<or>
      (\<exists>old. cm_signed_proposal m = Some old \<and> proposal_round old \<le> proposal_round p)"
    using False by (auto simp: update_proposed_def Let_def split: option.splits)
  ultimately show ?thesis
    using False \<open>cm_proposed ?m = Some p\<close> known_round_upper(3) [of ?m]
    by (intro known_round_mono) (auto intro: order_trans split: option.splits)
qed (simp add: update_proposed_def)

lemma settled_votes [simp]:
  "settled (m\<lparr> cm_validated_vote := x \<rparr>) = settled m"
  "settled (m\<lparr> cm_confirmed_vote := y \<rparr>) = settled m"
  "settled (m\<lparr> cm_timeout_vote := z \<rparr>) = settled m"
  "settled (m\<lparr> cm_fallback_vote := z \<rparr>) = settled m"
  by (simp_all add: settled_def known_round_def cong: option.case_cong)

lemma settled_create_vote:
  assumes "settled m"
  shows "settled (fst (create_vote hs m p blk kp t bs))"
proof -
  let ?m = "update_proposed (lock_proposal hs m p blk bs) p bs"
  have "settled (update_current_round ?m t)"
    using assms
    by (rule settle) (auto intro: order_trans known_round_lock_proposal known_round_update_proposed)
  then show ?thesis by (simp add: create_vote_def Let_def split: option.split)
qed

lemma settled_create_final_vote:
  assumes "settled m"
  shows "settled (create_final_vote hs m cert kp t bs)"
proof -
  have "settled (update_current_round (update_locking m (LockRegular cert) bs) t)"
    using assms by (rule settle) (simp_all add: known_round_update_locking)
  then show ?thesis by (simp add: create_final_vote_def Let_def split: option.split)
qed

subsection \<open>Runs of a chain manager\<close>

inductive manager_step :: "hashes \<Rightarrow> 'd chain_manager \<Rightarrow> 'd chain_manager \<Rightarrow> bool" for hs where
  timeout_step: "manager_step hs m (handle_timeout_certificate m cert t)"
| signed_step: "manager_step hs m (fst (update_signed_proposal m p t))"
| vote_step: "manager_step hs m (fst (create_vote hs m p blk kp t bs))"
| final_step: "manager_step hs m (create_final_vote hs m cert kp t bs)"
| timeout_vote_step: "create_timeout_vote hs m ch ht r ep kp t = Ok (m', b) \<Longrightarrow> manager_step hs m m'"
| fallback_step: "manager_step hs m (fst (vote_fallback hs m ch ht ep kp))"

lemma timeout_vote_cases:
  assumes "create_timeout_vote hs m ch ht r ep kp t = Ok (m', b)"
  shows "m' = m \<or> (\<exists>v. m' = m\<lparr> cm_timeout_vote := Some v \<rparr>)"
  using assms
  by (auto simp: create_timeout_vote_def Let_def and_then_Ok split: option.splits if_splits)

lemma fallback_vote_cases:
  "fst (vote_fallback hs m ch ht ep kp) = m \<or>
   (\<exists>v. fst (vote_fallback hs m ch ht ep kp) = m\<lparr> cm_fallback_vote := Some v \<rparr>)"
  by (auto simp: vote_fallback_def Let_def split: option.split)

lemma lock_of_other_votes [simp]:
  "lock_of (m\<lparr> cm_timeout_vote := x \<rparr>) = lock_of m"
  "lock_of (m\<lparr> cm_fallback_vote := x \<rparr>) = lock_of m"
  by (simp_all add: lock_of_def)

lemma lock_proposal_lock:
  "lock_of m = Some r \<Longrightarrow> \<exists>r'. lock_of (lock_proposal hs m p blk bs) = Some r' \<and> r \<le> r'"
  by (auto simp: lock_proposal_def split: option.splits original_proposal.splits)

lemma manager_step_settled: "manager_step hs m m' \<Longrightarrow> settled m \<Longrightarrow> settled m'"
proof (induction rule: manager_step.induct)
  case (timeout_vote_step m ch ht r ep kp t m' b)
  then show ?case by (auto dest: timeout_vote_cases)
next
  case (fallback_step m ch ht ep kp)
  then show ?case using fallback_vote_cases [of hs m ch ht ep kp] by auto
qed (simp_all add: settled_timeout settled_signed_proposal settled_create_vote settled_create_final_vote)

lemma manager_step_lock:
  "manager_step hs m m' \<Longrightarrow> lock_of m = Some r \<Longrightarrow> \<exists>r'. lock_of m' = Some r' \<and> r \<le> r'"
proof (induction rule: manager_step.induct)
  case (vote_step m p blk kp t bs)
  then show ?case
    using lock_proposal_lock [of m r hs p blk bs] by (simp add: create_vote_def Let_def split: option.split)
next
  case (final_step m cert kp t bs)
  then show ?case by (auto simp: create_final_vote_def Let_def split: option.split)
next
  case (timeout_vote_step m ch ht r ep kp t m' b)
  then show ?case by (auto dest: timeout_vote_cases)
next
  case (fallback_step m ch ht ep kp)
  then show ?case using fallback_vote_cases [of hs m ch ht ep kp] by auto
qed simp_all

lemma manager_step_current: "manager_step hs m m' \<Longrightarrow> cm_current_round m \<le> cm_current_round m'"
proof (induction rule: manager_step.induct)
  case (timeout_vote_step m ch ht r ep kp t m' b)
  then show ?case by (auto dest: timeout_vote_cases)
next
  case (fallback_step m ch ht ep kp)
  then show ?case using fallback_vote_cases [of hs m ch ht ep kp] by auto
next
  case (final_step m cert kp t bs)
  let ?m = "update_current_round (update_locking m (LockRegular cert) bs) t"
  have "cm_current_round m \<le> cm_current_round ?m" by simp
  moreover have "cm_current_round (create_final_vote hs m cert kp t bs) = cm_current_round ?m"
    by (simp add: create_final_vote_def Let_def split: option.split)
  ultimately show ?case by (simp only:)
qed (auto simp: handle_timeout_certificate_def update_signed_proposal_def create_vote_def Let_def
    split: option.split)

lemma manager_steps_forward:
  assumes "(manager_step hs)\<^sup>*\<^sup>* m m'"
  shows "cm_current_round m \<le> cm_current_round m' \<and> (\<forall>r. lock_of m = Some r \<longrightarrow> (\<exists>r'. lock_of m' = Some r' \<and> r \<le> r'))"
  using assms
proof (induction rule: rtranclp_induct)
  case (step y z)
  then show ?case
    using manager_step_current [of hs y z] manager_step_lock [of hs y z] by (meson order_trans)
qed simp

lemma manager_steps_settled: "(manager_step hs)\<^sup>*\<^sup>* m m' \<Longrightarrow> settled m \<Longrightarrow> settled m'"
  by (induction rule: rtranclp_induct) (auto dest: manager_step_settled)

text \<open>
  \<^bold>\<open>C11\<close>. In every state a chain manager reaches from a reset, by certificates, proposals
  and votes in any order, the current round is exactly the maximum of the first round of
  the chain, the round after the timeout certificate, the round of the locking block and
  those of the two remembered proposals; and from there on neither the current round nor
  the round of the locking block ever goes back.
\<close>

theorem current_round_exact:
  assumes "(manager_step hs)\<^sup>*\<^sup>* (manager_reset cr S ow h t fb) m" and "(manager_step hs)\<^sup>*\<^sup>* m m'"
  shows "cm_current_round m = known_round m \<and> cm_current_round m \<le> cm_current_round m' \<and>
    (\<forall>r. lock_of m = Some r \<longrightarrow> (\<exists>r'. lock_of m' = Some r' \<and> r \<le> r'))"
  using manager_steps_settled [OF assms(1) settled_reset] manager_steps_forward [OF assms(2)]
  by (simp add: settled_def)

text \<open>A manager of a chain with one super owner, with a sampler that always draws the first owner.\<close>

definition demo_sampler :: "unit sampler" where
  "demo_sampler = \<lparr> ws_new = (\<lambda>_. Some ()), ws_sample = (\<lambda>_ _. 0) \<rparr>"

definition demo_crypto :: crypto where
  "demo_crypto = \<lparr> cr_hashes = demo_hashes, cr_verify = (\<lambda>k v s. s = 1), cr_owner_of_key = (\<lambda>_. Reserved 1),
     cr_account_verify = (\<lambda>_ _. True) \<rparr>"

definition demo_manager :: "unit chain_manager" where
  "demo_manager = manager_reset demo_crypto demo_sampler (single_super (Reserved 1)) 7 100 []"

theorem current_round_exact_witness:
  "let cert = \<lparr> c_value = \<lparr> to_chain_id = 1, to_height = 7, to_epoch = 0 \<rparr>, c_round = Fast, c_signatures = [] \<rparr>;
       m = handle_timeout_certificate demo_manager cert 200
   in cm_current_round m = MultiLeader 0 \<and> cm_current_round m = known_round m"
proof -
  let ?c = "\<lparr> c_value = \<lparr> to_chain_id = 1, to_height = 7, to_epoch = 0 \<rparr>, c_round = Fast, c_signatures = [] \<rparr>"
  let ?m = "handle_timeout_certificate demo_manager ?c 200"
  have "(manager_step demo_hashes)\<^sup>*\<^sup>* demo_manager ?m"
    by (rule r_into_rtranclp) (rule manager_step.timeout_step)
  from current_round_exact [OF this [unfolded demo_manager_def] rtranclp.rtrancl_refl]
  have "cm_current_round ?m = known_round ?m" by (simp add: demo_manager_def)
  moreover have "known_round ?m = MultiLeader 0"
    by (simp add: demo_manager_def manager_reset_def handle_timeout_certificate_def single_super_def
        known_round_def next_round_def first_round_def Let_def)
  ultimately show ?thesis by simp
qed

subsection \<open>Votes only move forward\<close>

lemma check_proposed_block_Accept:
  "check_proposed_block cr m p = Ok OutcomeAccept \<longleftrightarrow>
    map_option bp_content (cm_proposed m) \<noteq> Some (bp_content p) \<and>
    pb_height (pc_block (bp_content p)) < word_max \<and> check_round cr m p = Ok () \<and>
    (\<forall>v. cm_validated_vote m = Some v \<longrightarrow> v_round v < proposal_round p) \<and>
    (\<forall>r. lock_of m = Some r \<longrightarrow> r < proposal_round p) \<and>
    (\<forall>v. cm_confirmed_vote m = Some v \<longrightarrow>
       (case bp_original_proposal p of
          None \<Rightarrow> False
        | Some (OriginalRegular cert) \<Rightarrow> v_round v \<le> lc_round cert
        | Some (OriginalFast _) \<Rightarrow>
            v_round v = Fast \<and> matches_proposed_block (v_value v) (pc_block (bp_content p))))"
  unfolding check_proposed_block_def Let_def lock_of_def
  by (auto simp: and_then_Ok ensure_Ok is_fast_def split: option.splits original_proposal.splits round.splits)

lemma check_validated_block_Accept:
  "check_validated_block m cert = Ok OutcomeAccept \<longleftrightarrow>
    \<not> (\<exists>v. cm_confirmed_vote m = Some v \<and> v_value v = c_value cert \<and> v_round v = c_round cert) \<and>
    (\<forall>v. cm_validated_vote m = Some v \<longrightarrow> v_round v \<le> c_round cert) \<and>
    (\<forall>r. lock_of m = Some r \<longrightarrow> r < c_round cert)"
  unfolding check_validated_block_def Let_def lock_of_def
  by (auto simp: and_then_Ok ensure_Ok split: option.splits)

lemma check_invariants_original:
  assumes "check_invariants hs p = Ok ()"
  shows "(case bp_original_proposal p of
            None \<Rightarrow> pc_outcome (bp_content p) = None
          | Some (OriginalFast _) \<Rightarrow> pc_outcome (bp_content p) = None \<and> proposal_round p \<noteq> Fast
          | Some (OriginalRegular cert) \<Rightarrow>
             lc_round cert < proposal_round p \<and>
             (\<exists>out. pc_outcome (bp_content p) = Some out \<and>
               check_value (validated_value hs) cert (Block_new hs (pc_block (bp_content p)) out)))"
  using assms
  by (auto simp: check_invariants_def Let_def and_then_Ok ensure_Ok split: option.splits original_proposal.splits)

lemma accepted_after_confirmed:
  assumes "check_invariants hs p = Ok ()" "check_proposed_block cr m p = Ok OutcomeAccept"
    "cm_confirmed_vote m = Some v"
  shows "v_round v < proposal_round p"
  using check_invariants_original [OF assms(1)] assms(2,3)
  by (auto simp: check_proposed_block_Accept split: option.splits original_proposal.splits)

lemma accepted_fast:
  assumes "check_invariants hs p = Ok ()" "check_proposed_block cr m p = Ok OutcomeAccept"
    "proposal_round p = Fast"
  shows "bp_original_proposal p = None" "pc_outcome (bp_content p) = None"
    "cm_validated_vote m = None" "cm_confirmed_vote m = None" "cm_locking_block m = None"
proof -
  show "bp_original_proposal p = None" "pc_outcome (bp_content p) = None"
    using check_invariants_original [OF assms(1)] assms(3)
    by (auto split: option.splits original_proposal.splits)
  show "cm_validated_vote m = None" "cm_locking_block m = None"
    using assms(2,3) by (auto simp: check_proposed_block_Accept lock_of_def intro: option.exhaust)
  show "cm_confirmed_vote m = None"
    using accepted_after_confirmed [OF assms(1,2)] assms(3) by (cases "cm_confirmed_vote m") auto
qed

lemma Vote_new_sel [simp]: "v_round (Vote_new T b r k) = r" "v_value (Vote_new T b r k) = b"
  by (simp_all add: Vote_new_def)

lemma create_vote_fast:
  assumes "proposal_round p = Fast" "bp_original_proposal p = None" "cm_locking_block m = None"
  shows "create_vote hs m p blk (Some key) t bs = (m', v) \<Longrightarrow>
    v = Some (Inr (Vote_new (confirmed_value hs) blk Fast key)) \<and>
    cm_confirmed_vote m' = Some (Vote_new (confirmed_value hs) blk Fast key) \<and>
    cm_validated_vote m' = None \<and> cm_locking_block m' = Some (LockFast p)"
  using assms by (auto simp: create_vote_def Let_def is_fast_def lock_proposal_def update_locking_def)

lemma create_vote_regular:
  assumes "proposal_round p \<noteq> Fast" "create_vote hs m p blk (Some key) t bs = (m', v)"
  shows "v = Some (Inl (Vote_new (validated_value hs) blk (proposal_round p) key)) \<and>
    cm_validated_vote m' = Some (Vote_new (validated_value hs) blk (proposal_round p) key) \<and>
    cm_confirmed_vote m' = cm_confirmed_vote m \<and> (\<forall>r. lock_of m = Some r \<longrightarrow> (\<exists>r'. lock_of m' = Some r' \<and> r \<le> r'))"
  using assms lock_proposal_lock [of m _ hs p blk bs]
  by (auto simp: create_vote_def Let_def is_fast_def split: round.splits)

text \<open>
  \<^bold>\<open>C10\<close>. Votes only move forward: when the manager accepts a proposal, the round of the
  proposal is later than the round of every vote the manager remembers and later than the
  round of its locking block; the vote it then casts is in that round and for that block,
  to confirm in the fast round and to validate in every other round; the earlier vote to
  confirm is kept, and the fast block becomes the locking block.
\<close>

theorem votes_advance:
  assumes "check_invariants hs p = Ok ()" "check_proposed_block cr m p = Ok OutcomeAccept"
    and "create_vote hs m p blk (Some key) t bs = (m', vote)"
  shows "(\<forall>v. cm_validated_vote m = Some v \<longrightarrow> v_round v < proposal_round p) \<and>
    (\<forall>v. cm_confirmed_vote m = Some v \<longrightarrow> v_round v < proposal_round p) \<and>
    (\<forall>r. lock_of m = Some r \<longrightarrow> r < proposal_round p) \<and>
    (if proposal_round p = Fast
     then (\<exists>v. vote = Some (Inr v) \<and> v_value v = blk \<and> v_round v = Fast \<and>
            cm_confirmed_vote m' = Some v \<and> cm_validated_vote m' = None \<and> lock_of m' = Some Fast)
     else (\<exists>v. vote = Some (Inl v) \<and> v_value v = blk \<and> v_round v = proposal_round p \<and>
            cm_validated_vote m' = Some v \<and> cm_confirmed_vote m' = cm_confirmed_vote m))"
proof (intro conjI)
  show "\<forall>v. cm_confirmed_vote m = Some v \<longrightarrow> v_round v < proposal_round p"
    using accepted_after_confirmed [OF assms(1,2)] by blast
  show "if proposal_round p = Fast
     then (\<exists>v. vote = Some (Inr v) \<and> v_value v = blk \<and> v_round v = Fast \<and>
            cm_confirmed_vote m' = Some v \<and> cm_validated_vote m' = None \<and> lock_of m' = Some Fast)
     else (\<exists>v. vote = Some (Inl v) \<and> v_value v = blk \<and> v_round v = proposal_round p \<and>
            cm_validated_vote m' = Some v \<and> cm_confirmed_vote m' = cm_confirmed_vote m)"
    using accepted_fast [OF assms(1,2)] create_vote_fast [OF _ _ _ assms(3)] create_vote_regular [OF _ assms(3)]
    by (auto simp: lock_of_def locking_round_def)
qed (use assms(2) in \<open>auto simp: check_proposed_block_Accept\<close>)

definition demo_proposal :: "round \<Rightarrow> block_proposal" where
  "demo_proposal r = new_initial (\<lambda>_. EvmSecp256k1Sig 0 0) r demo_proposed_block"

theorem votes_advance_witness:
  "\<exists>m' v. create_vote demo_hashes demo_manager (demo_proposal Fast) (Block_new demo_hashes demo_proposed_block demo_outcome)
      (Some (\<lambda>_. 1)) 200 [] = (m', Some (Inr v)) \<and> cm_confirmed_vote m' = Some v \<and> lock_of m' = Some Fast"
proof -
  let ?p = "demo_proposal Fast"
  obtain m' vote where cv: "create_vote demo_hashes demo_manager ?p
      (Block_new demo_hashes demo_proposed_block demo_outcome) (Some (\<lambda>_. 1)) 200 [] = (m', vote)"
    by fastforce
  have "check_invariants demo_hashes ?p = Ok ()"
    by (simp add: check_invariants_def demo_proposal_def new_initial_def Let_def)
  moreover have "check_proposed_block demo_crypto demo_manager ?p = Ok OutcomeAccept"
    by (simp add: check_proposed_block_Accept demo_manager_def manager_reset_def Let_def lock_of_def check_round_def
        demo_proposal_def new_initial_def demo_proposed_block_def word_max_def)
  moreover have "proposal_round ?p = Fast" by (simp add: demo_proposal_def new_initial_def Let_def)
  ultimately show ?thesis using votes_advance [OF _ _ cv] cv by auto
qed

text \<open>
  \<^bold>\<open>C19\<close>. What a validator and a client think of the leaders agrees: after a reset, for an
  owner that is not a super owner and a round that is not a multi-leader round, the check
  the manager makes on the owner of a proposal is the check the client makes before
  proposing, and the leader the manager announces for the round is the only one to pass it.
\<close>

theorem leader_agreement:
  assumes "m = manager_reset cr S ow h t fb" "\<not> is_super m owner" "\<not> is_multi_leader r"
  shows "can_propose S (manager_info hs S m) owner r (cm_seed m) (cm_fallback_owners m) = verify_owner S m owner r \<and>
    (verify_owner S m owner r \<longleftrightarrow> round_leader S m r = Some owner)"
  using assms
  by (auto simp: can_propose_def verify_owner_def round_leader_def manager_info_def manager_reset_def Let_def
      is_super_def round_leader_index_def is_multi_leader_def split: round.splits option.splits bind_splits)

theorem leader_agreement_witness:
  "let m = manager_reset demo_crypto demo_sampler (single (Reserved 1)) 7 100 [] in
   can_propose demo_sampler (manager_info demo_hashes demo_sampler m) (Reserved 1) (SingleLeader 3) 7 [] \<and>
   \<not> can_propose demo_sampler (manager_info demo_hashes demo_sampler m) (Reserved 2) (SingleLeader 3) 7 []"
proof -
  let ?m = "manager_reset demo_crypto demo_sampler (single (Reserved 1)) 7 100 []"
  have m: "cm_seed ?m = 7" "cm_fallback_owners ?m = []" "\<not> is_super ?m o'" for o'
    by (simp_all add: manager_reset_def single_def is_super_def Let_def btm_of_list_def)
  have "round_leader demo_sampler ?m (SingleLeader 3) = Some (Reserved 1)"
    by (simp add: round_leader_def manager_reset_def single_def Let_def round_leader_index_def nth_key_def
        calculate_distribution_def demo_sampler_def)
  then show ?thesis
    using leader_agreement [OF refl m(3), where r = "SingleLeader 3" and hs = demo_hashes and owner = "Reserved 1"]
      leader_agreement [OF refl m(3), where r = "SingleLeader 3" and hs = demo_hashes and owner = "Reserved 2"]
    by (simp add: m is_multi_leader_def)
qed

text \<open>
  \<^bold>\<open>C29\<close>. A retry of a fast proposal does not leave the fast proposal behind as the locking
  block: the locking block carries the signature of the fast proposal but the round of the
  retry, so that when that signature was only made for the proposal in the fast round, the
  locking block does not pass the check of its own signature.
\<close>

theorem fast_lock_not_reproposable:
  assumes "check_invariants hs p = Ok ()" and "bp_original_proposal p = Some (OriginalFast sig)"
    and "cm_locking_block m = None"
    and only: "\<And>c. cr_account_verify cr sig c \<longleftrightarrow> c = (bp_content p)\<lparr> pc_round := Fast \<rparr>"
  shows "\<exists>q. cm_locking_block (fst (create_vote hs m p blk kp t bs)) = Some (LockFast q) \<and>
    bp_signature q = sig \<and> proposal_round q = proposal_round p \<and> proposal_round q \<noteq> Fast \<and>
    check_signature cr q = Err CryptoError"
proof -
  let ?q = "p\<lparr> bp_signature := sig \<rparr>"
  have "proposal_round p \<noteq> Fast" using check_invariants_original [OF assms(1)] assms(2) by simp
  moreover from this have "bp_content p \<noteq> (bp_content p)\<lparr> pc_round := Fast \<rparr>"
    by (metis proposal_content.select_convs(2) proposal_content.surjective proposal_content.update_convs(2))
  ultimately have "check_signature cr ?q = Err CryptoError" "proposal_round ?q \<noteq> Fast"
    by (simp_all add: check_signature_def only ensure_Err)
  moreover have "cm_locking_block (fst (create_vote hs m p blk kp t bs)) = Some (LockFast ?q)"
    using assms(2,3) by (simp add: create_vote_def Let_def lock_proposal_def update_locking_def split: option.split)
  ultimately show ?thesis by simp
qed

definition demo_sign :: "proposal_content \<Rightarrow> account_signature" where
  "demo_sign c = EvmSecp256k1Sig (if c = \<lparr> pc_block = demo_proposed_block, pc_round = Fast, pc_outcome = None \<rparr> then 1 else 2) 0"

theorem fast_lock_not_reproposable_witness:
  "let p = new_retry_fast demo_sign (MultiLeader 0) (new_initial demo_sign Fast demo_proposed_block);
       cr = demo_crypto\<lparr> cr_account_verify := \<lambda>s c. s = demo_sign c \<and> demo_sign c = EvmSecp256k1Sig 1 0 \<rparr>
   in \<exists>q. cm_locking_block (fst (create_vote demo_hashes demo_manager p
          (Block_new demo_hashes demo_proposed_block demo_outcome) None 200 [])) = Some (LockFast q) \<and>
        check_signature cr q = Err CryptoError"
proof -
  let ?p = "new_retry_fast demo_sign (MultiLeader 0) (new_initial demo_sign Fast demo_proposed_block)"
  let ?cr = "demo_crypto\<lparr> cr_account_verify := \<lambda>s c. s = demo_sign c \<and> demo_sign c = EvmSecp256k1Sig 1 0 \<rparr>"
  have "check_invariants demo_hashes ?p = Ok ()"
    by (simp add: check_invariants_def new_retry_fast_def new_initial_def Let_def ensure_def)
  moreover have "bp_original_proposal ?p = Some (OriginalFast (EvmSecp256k1Sig 1 0))"
    by (simp add: new_retry_fast_def new_initial_def Let_def demo_sign_def)
  moreover have "cm_locking_block demo_manager = None"
    by (simp add: demo_manager_def manager_reset_def Let_def)
  moreover have "cr_account_verify ?cr (EvmSecp256k1Sig 1 0) c \<longleftrightarrow> c = (bp_content ?p)\<lparr> pc_round := Fast \<rparr>" for c
    by (auto simp: demo_sign_def new_retry_fast_def new_initial_def Let_def)
  ultimately show ?thesis
    using fast_lock_not_reproposable [of demo_hashes ?p "EvmSecp256k1Sig 1 0" demo_manager ?cr
        "Block_new demo_hashes demo_proposed_block demo_outcome" None 200 "[]"]
    by auto
qed

lemma create_final_vote_cases:
  assumes "check_validated_block m cert = Ok OutcomeAccept" "m' = create_final_vote hs m cert (Some key) t bs"
  shows "lock_of m' = Some (c_round cert) \<and>
    (cm_confirmed_vote m' = cm_confirmed_vote m \<and> cm_validated_vote m' = cm_validated_vote m \<or>
     cm_confirmed_vote m' = Some (Vote_new (confirmed_value hs) (c_value cert) (c_round cert) key) \<and>
     cm_validated_vote m' = None)"
proof -
  have "lock_of (update_locking m (LockRegular cert) bs) = Some (c_round cert)"
    using assms(1) by (auto simp: check_validated_block_Accept locking_round_def split: option.split)
  then show ?thesis by (simp add: assms(2) create_final_vote_def Let_def)
qed

end
