(* ===== verification/Views.thy ===== *)
theory Views
  imports Prelude
begin

text \<open>
  The queue views of \<open>linera-views\<close>: \<open>QueueView\<close> (one key per entry) and
  \<open>BucketQueueView\<close> (one key per bucket of at most N entries, loaded when the front
  reaches it). A view holds what is stored and the pending changes; \<open>flush\<close> turns the
  changes into a batch of write operations on the keys of the view. The key-value store is
  the map of the view's own keys, a batch is applied in order, and serialisation is not
  modelled: a key holds a value. Sizes and indices (\<open>usize\<close>) are natural numbers.

  The contract of a queue, which the mailboxes of a chain rely on, is the locale
  \<open>fifo_queue\<close>; both views are instances of it.
\<close>

datatype view_error = MissingEntries | Unreachable

definition list_front :: "'a list \<Rightarrow> 'a option" where
  "list_front xs = (case xs of [] \<Rightarrow> None | x # _ \<Rightarrow> Some x)"

lemma list_front_simps [simp]: "list_front [] = None" "list_front (x # xs) = Some x"
  by (simp_all add: list_front_def)

definition list_back :: "'a list \<Rightarrow> 'a option" where
  "list_back xs = (if xs = [] then None else Some (last xs))"

section \<open>The contract of a queue\<close>

text \<open>
  A loop that looks at the front of a queue and either leaves the loop, removes the front
  and goes on, or fails. The first argument bounds the number of iterations: one more than
  the number of entries is enough for a queue that keeps its contract, and running out of
  it is reported as an error.
\<close>

datatype 'e loop_step = Break | Continue | Throw 'e

fun drain ::
  "nat \<Rightarrow> ('q \<Rightarrow> 'a option) \<Rightarrow> ('q \<Rightarrow> ('q, view_error) result) \<Rightarrow> ('a \<Rightarrow> 'e loop_step) \<Rightarrow> 'q
    \<Rightarrow> 'q \<times> 'a list \<times> ('e + view_error) option" where
  "drain 0 front del step q = (q, [], Some (Inr Unreachable))"
| "drain (Suc fuel) front del step q =
    (case front q of
       None \<Rightarrow> (q, [], None)
     | Some x \<Rightarrow>
        (case step x of
           Break \<Rightarrow> (q, [], None)
         | Throw e \<Rightarrow> (q, [], Some (Inl e))
         | Continue \<Rightarrow>
            (case del q of
               Err v \<Rightarrow> (q, [], Some (Inr v))
             | Ok q' \<Rightarrow> (case drain fuel front del step q' of (q'', xs, e) \<Rightarrow> (q'', x # xs, e)))))"

locale fifo_queue =
  fixes ok :: "'q \<Rightarrow> bool" and items :: "'q \<Rightarrow> 'a list" and front :: "'q \<Rightarrow> 'a option"
    and delete_front :: "'q \<Rightarrow> ('q, view_error) result" and push_back :: "'q \<Rightarrow> 'a \<Rightarrow> 'q"
  assumes front_items: "ok q \<Longrightarrow> front q = list_front (items q)"
    and delete_front_items: "ok q \<Longrightarrow> \<exists>q'. delete_front q = Ok q' \<and> ok q' \<and> items q' = tl (items q)"
    and push_back_items: "ok q \<Longrightarrow> ok (push_back q x) \<and> items (push_back q x) = items q @ [x]"
begin

lemma drain_total:
  assumes "ok q" "length (items q) < fuel"
  shows "\<exists>q'. drain fuel front delete_front step q =
      (q', takeWhile (\<lambda>x. step x = Continue) (items q),
       case list_front (dropWhile (\<lambda>x. step x = Continue) (items q)) of
         None \<Rightarrow> None | Some x \<Rightarrow> (case step x of Throw e \<Rightarrow> Some (Inl e) | _ \<Rightarrow> None)) \<and>
    ok q' \<and> items q' = dropWhile (\<lambda>x. step x = Continue) (items q)"
  using assms
proof (induction "items q" arbitrary: q fuel)
  case Nil
  then show ?case using front_items [of q] by (cases fuel) simp_all
next
  case (Cons x xs)
  note items = Cons.hyps(2) [symmetric]
  obtain n where n: "fuel = Suc n" "length xs < n"
    using Cons.prems(2) by (cases fuel) (auto simp: items)
  have f: "front q = Some x" using front_items [OF Cons.prems(1)] by (simp add: items)
  show ?case
  proof (cases "step x")
    case Continue
    obtain q1 where q1: "delete_front q = Ok q1" "ok q1" "items q1 = xs"
      using delete_front_items [OF Cons.prems(1)] by (auto simp: items)
    then show ?thesis
      using Cons.hyps(1) [OF q1(3) [symmetric] q1(2), of n] f Continue n by (auto simp: items q1)
  qed (use f Cons.prems n in \<open>simp_all add: items\<close>)
qed

end

section \<open>QueueView\<close>

record 'a queue_store =
  qs_indices :: "(nat \<times> nat) option"
  qs_values :: "nat \<Rightarrow> 'a option"

record 'a queue_view =
  q_context :: "'a queue_store"
  q_start :: nat
  q_end :: nat
  q_front_delete_count :: nat
  q_delete_storage_first :: bool
  q_new_back_values :: "'a list"

datatype 'a queue_write =
    QDeleteView
  | QDeleteIndices
  | QDeleteIndex nat
  | QPutIndex nat 'a
  | QPutStored nat nat

fun queue_write_apply :: "'a queue_write \<Rightarrow> 'a queue_store \<Rightarrow> 'a queue_store" where
  "queue_write_apply QDeleteView s = \<lparr> qs_indices = None, qs_values = Map.empty \<rparr>"
| "queue_write_apply QDeleteIndices s = s\<lparr> qs_values := Map.empty \<rparr>"
| "queue_write_apply (QDeleteIndex i) s = s\<lparr> qs_values := (qs_values s)(i := None) \<rparr>"
| "queue_write_apply (QPutIndex i x) s = s\<lparr> qs_values := (qs_values s)(i := Some x) \<rparr>"
| "queue_write_apply (QPutStored a b) s = s\<lparr> qs_indices := Some (a, b) \<rparr>"

definition queue_load :: "'a queue_store \<Rightarrow> 'a queue_view" where
  "queue_load s =
    (let (a, b) = (case qs_indices s of None \<Rightarrow> (0, 0) | Some r \<Rightarrow> r)
     in \<lparr> q_context = s, q_start = a, q_end = b, q_front_delete_count = 0,
          q_delete_storage_first = False, q_new_back_values = [] \<rparr>)"

definition queue_rollback :: "'a queue_view \<Rightarrow> 'a queue_view" where
  "queue_rollback q = q\<lparr> q_delete_storage_first := False, q_front_delete_count := 0, q_new_back_values := [] \<rparr>"

definition queue_has_pending_changes :: "'a queue_view \<Rightarrow> bool" where
  "queue_has_pending_changes q =
    (if q_delete_storage_first q then True
     else if 0 < q_front_delete_count q then True
     else q_new_back_values q \<noteq> [])"

definition queue_stored_count :: "'a queue_view \<Rightarrow> nat" where
  "queue_stored_count q =
    (if q_delete_storage_first q then 0 else (q_end q - q_start q) - q_front_delete_count q)"

text \<open>The first part of a flush: what is left of the stored entries, and the writes that drop the others.\<close>

definition queue_trim :: "'a queue_view \<Rightarrow> nat \<times> nat \<times> 'a queue_write list" where
  "queue_trim q =
    (if queue_stored_count q = 0 then (0, 0, [QDeleteIndices])
     else if 0 < q_front_delete_count q
     then (q_start q + q_front_delete_count q, q_end q,
           map QDeleteIndex (take (q_front_delete_count q) [q_start q ..< q_end q]))
     else (q_start q, q_end q, []))"

definition queue_flush :: "'a queue_view \<Rightarrow> 'a queue_view \<times> 'a queue_write list \<times> bool" where
  "queue_flush q =
    (let cleared = (if q_delete_storage_first q then [QDeleteView] else []);
         (start, end', trimmed) = queue_trim q;
         new = q_new_back_values q;
         end'' = end' + length new;
         puts = map (\<lambda>(i, x). QPutIndex i x) (zip [end' ..< end''] new);
         stored = (if \<not> q_delete_storage_first q \<or> start < end'' then [QPutStored start end''] else []);
         delete_view = (q_delete_storage_first q \<and> new = [])
     in (q\<lparr> q_start := start, q_end := end'', q_new_back_values := [], q_front_delete_count := 0,
            q_delete_storage_first := False \<rparr>, cleared @ trimmed @ puts @ stored, delete_view))"

definition queue_clear :: "'a queue_view \<Rightarrow> 'a queue_view" where
  "queue_clear q = q\<lparr> q_delete_storage_first := True, q_new_back_values := [] \<rparr>"

definition queue_get :: "'a queue_view \<Rightarrow> nat \<Rightarrow> 'a option" where
  "queue_get q i = qs_values (q_context q) i"

definition queue_front :: "'a queue_view \<Rightarrow> 'a option" where
  "queue_front q =
    (let stored_remainder = queue_stored_count q in
     if 0 < stored_remainder then queue_get q (q_end q - stored_remainder)
     else list_front (q_new_back_values q))"

definition queue_back :: "'a queue_view \<Rightarrow> 'a option" where
  "queue_back q =
    (case list_back (q_new_back_values q) of
       Some x \<Rightarrow> Some x
     | None \<Rightarrow> if 0 < queue_stored_count q then queue_get q (q_end q - 1) else None)"

definition queue_delete_front :: "'a queue_view \<Rightarrow> 'a queue_view" where
  "queue_delete_front q =
    (if 0 < queue_stored_count q then q\<lparr> q_front_delete_count := q_front_delete_count q + 1 \<rparr>
     else q\<lparr> q_new_back_values := tl (q_new_back_values q) \<rparr>)"

definition queue_push_back :: "'a queue_view \<Rightarrow> 'a \<Rightarrow> 'a queue_view" where
  "queue_push_back q x = q\<lparr> q_new_back_values := q_new_back_values q @ [x] \<rparr>"

definition queue_count :: "'a queue_view \<Rightarrow> nat" where
  "queue_count q = queue_stored_count q + length (q_new_back_values q)"

fun read_entries :: "(nat \<Rightarrow> 'a option) \<Rightarrow> nat list \<Rightarrow> ('a list, view_error) result" where
  "read_entries f [] = Ok []"
| "read_entries f (i # is) =
    (case f i of None \<Rightarrow> Err MissingEntries | Some x \<Rightarrow> and_then (read_entries f is) (\<lambda>xs. Ok (x # xs)))"

definition queue_read_context :: "'a queue_view \<Rightarrow> nat \<Rightarrow> nat \<Rightarrow> ('a list, view_error) result" where
  "queue_read_context q a b = read_entries (queue_get q) [a ..< b]"

definition queue_read_front :: "'a queue_view \<Rightarrow> nat \<Rightarrow> ('a list, view_error) result" where
  "queue_read_front q n =
    (let n = min n (queue_count q) in
     if n = 0 then Ok []
     else if \<not> q_delete_storage_first q then
       let stored_remainder = queue_stored_count q; start = q_end q - stored_remainder in
       if n \<le> stored_remainder then queue_read_context q start (start + n)
       else and_then (queue_read_context q start (q_end q)) (\<lambda>xs.
              Ok (xs @ take (n - stored_remainder) (q_new_back_values q)))
     else Ok (take n (q_new_back_values q)))"

definition queue_read_back :: "'a queue_view \<Rightarrow> nat \<Rightarrow> ('a list, view_error) result" where
  "queue_read_back q n =
    (let n = min n (queue_count q); new_back_len = length (q_new_back_values q) in
     if n = 0 then Ok []
     else if n \<le> new_back_len \<or> q_delete_storage_first q
     then Ok (drop (new_back_len - n) (q_new_back_values q))
     else and_then (queue_read_context q (q_end q + new_back_len - n) (q_end q)) (\<lambda>xs.
            Ok (xs @ q_new_back_values q)))"

definition queue_elements :: "'a queue_view \<Rightarrow> ('a list, view_error) result" where
  "queue_elements q = queue_read_front q (queue_count q)"

definition queue_load_all :: "'a queue_view \<Rightarrow> ('a queue_view, view_error) result" where
  "queue_load_all q =
    (if \<not> q_delete_storage_first q then
       let stored_remainder = queue_stored_count q; start = q_end q - stored_remainder in
       and_then (queue_read_context q start (q_end q)) (\<lambda>elements.
       Ok (q\<lparr> q_new_back_values := rotate (length (q_new_back_values q @ elements) - (q_end q - start)) (q_new_back_values q @ elements),
             q_delete_storage_first := True \<rparr>))
     else Ok q)"

subsection \<open>A queue view is a queue\<close>

definition queue_stored :: "'a queue_view \<Rightarrow> 'a list" where
  "queue_stored q =
    (if q_delete_storage_first q then []
     else map (\<lambda>i. the (qs_values (q_context q) i)) [q_start q + q_front_delete_count q ..< q_end q])"

definition queue_items :: "'a queue_view \<Rightarrow> 'a list" where
  "queue_items q = queue_stored q @ q_new_back_values q"

definition queue_ok :: "'a queue_view \<Rightarrow> bool" where
  "queue_ok q \<longleftrightarrow>
    q_start q + q_front_delete_count q \<le> q_end q \<and>
    (\<forall>i \<in> {q_start q ..< q_end q}. qs_values (q_context q) i \<noteq> None) \<and>
    (case qs_indices (q_context q) of None \<Rightarrow> (0, 0) | Some r \<Rightarrow> r) = (q_start q, q_end q)"

lemma queue_stored_new [simp]: "queue_stored (q\<lparr> q_new_back_values := xs \<rparr>) = queue_stored q"
  by (simp add: queue_stored_def)

lemma queue_ok_new [simp]: "queue_ok (q\<lparr> q_new_back_values := xs \<rparr>) = queue_ok q"
  by (simp add: queue_ok_def)

lemma queue_stored_length: "queue_ok q \<Longrightarrow> length (queue_stored q) = queue_stored_count q"
  by (auto simp: queue_ok_def queue_stored_def queue_stored_count_def)

lemma queue_count_items: "queue_ok q \<Longrightarrow> queue_count q = length (queue_items q)"
  by (simp add: queue_count_def queue_items_def queue_stored_length)

lemma queue_get_stored:
  "queue_ok q \<Longrightarrow> i \<in> {q_start q ..< q_end q} \<Longrightarrow> queue_get q i = Some (the (qs_values (q_context q) i))"
  by (auto simp: queue_ok_def queue_get_def)

lemma queue_stored_eq:
  assumes "queue_ok q" "0 < queue_stored_count q"
  shows "q_end q - queue_stored_count q = q_start q + q_front_delete_count q"
    "q_start q + q_front_delete_count q < q_end q" "\<not> q_delete_storage_first q"
  using assms by (auto simp: queue_ok_def queue_stored_count_def split: if_splits)

lemma queue_front_items: "queue_ok q \<Longrightarrow> queue_front q = list_front (queue_items q)"
proof (cases "0 < queue_stored_count q")
  case True
  assume ok: "queue_ok q"
  note e = queue_stored_eq [OF ok True]
  show ?thesis
    using True e queue_get_stored [OF ok, of "q_start q + q_front_delete_count q"]
    by (simp add: queue_front_def queue_items_def queue_stored_def upt_rec [of "q_start q + q_front_delete_count q"])
next
  case False
  assume "queue_ok q"
  with False queue_stored_length [of q] have "queue_stored q = []" by simp
  with False show ?thesis by (simp add: queue_front_def queue_items_def)
qed

lemma queue_delete_front_items:
  assumes "queue_ok q"
  shows "queue_ok (queue_delete_front q) \<and> queue_items (queue_delete_front q) = tl (queue_items q)"
proof (cases "0 < queue_stored_count q")
  case True
  note e = queue_stored_eq [OF assms True]
  show ?thesis
    using True e assms
    by (auto simp: queue_delete_front_def queue_items_def queue_stored_def queue_ok_def
        upt_rec [of "q_start q + q_front_delete_count q"])
next
  case False
  with assms queue_stored_length [of q] have "queue_stored q = []" by simp
  with False assms show ?thesis by (simp add: queue_delete_front_def queue_items_def)
qed

lemma queue_push_back_items:
  "queue_ok q \<Longrightarrow> queue_ok (queue_push_back q x) \<and> queue_items (queue_push_back q x) = queue_items q @ [x]"
  by (simp add: queue_push_back_def queue_items_def)

interpretation queue_fifo: fifo_queue queue_ok queue_items queue_front "Ok \<circ> queue_delete_front" queue_push_back
  by unfold_locales (simp_all add: queue_front_items queue_delete_front_items queue_push_back_items)

lemma read_entries_Some:
  "(\<And>i. i \<in> set is \<Longrightarrow> f i = Some (g i)) \<Longrightarrow> read_entries f is = Ok (map g is)"
  by (induction "is") simp_all

lemma queue_read_context_stored:
  assumes "queue_ok q" "q_start q \<le> a" "b \<le> q_end q"
  shows "queue_read_context q a b = Ok (map (\<lambda>i. the (qs_values (q_context q) i)) [a ..< b])"
  unfolding queue_read_context_def
  by (rule read_entries_Some) (use assms in \<open>simp add: queue_get_stored\<close>)

subsection \<open>Reading and saving\<close>

lemma queue_read_front_items: "queue_ok q \<Longrightarrow> queue_read_front q n = Ok (take n (queue_items q))"
proof -
  assume ok: "queue_ok q"
  define a where "a = q_start q + q_front_delete_count q"
  have a: "q_end q - queue_stored_count q = a" "a + queue_stored_count q = q_end q" if "\<not> q_delete_storage_first q"
    using ok that by (auto simp: queue_ok_def queue_stored_count_def a_def)
  have rd: "queue_read_context q a b = Ok (map (\<lambda>i. the (qs_values (q_context q) i)) [a ..< b])" if "b \<le> q_end q" for b
    using queue_read_context_stored [OF ok _ that, of a] by (simp add: a_def)
  have st: "queue_stored q = map (\<lambda>i. the (qs_values (q_context q) i)) [a ..< q_end q]" if "\<not> q_delete_storage_first q"
    using that by (simp add: queue_stored_def a_def)
  show ?thesis
    using queue_count_items [OF ok] queue_stored_length [OF ok] a st
    by (auto simp: queue_read_front_def Let_def rd queue_items_def min_def take_map not_le queue_stored_def
        queue_count_def)
qed

lemma queue_read_back_items:
  "queue_ok q \<Longrightarrow> queue_read_back q n = Ok (drop (length (queue_items q) - n) (queue_items q))"
proof -
  assume ok: "queue_ok q"
  define a where "a = q_start q + q_front_delete_count q"
  have a: "a + queue_stored_count q = q_end q" if "\<not> q_delete_storage_first q"
    using ok that by (auto simp: queue_ok_def queue_stored_count_def a_def)
  have rd: "queue_read_context q b (q_end q) = Ok (map (\<lambda>i. the (qs_values (q_context q) i)) [b ..< q_end q])" if "a \<le> b" for b
    using queue_read_context_stored [OF ok, of b "q_end q"] that by (simp add: a_def)
  have st: "queue_stored q = map (\<lambda>i. the (qs_values (q_context q) i)) [a ..< q_end q]" if "\<not> q_delete_storage_first q"
    using that by (simp add: queue_stored_def a_def)
  show ?thesis
    using queue_count_items [OF ok] queue_stored_length [OF ok] a st
    by (auto simp: queue_read_back_def Let_def rd queue_items_def min_def drop_map not_le queue_stored_def
        queue_count_def)
qed

lemma queue_back_items: "queue_ok q \<Longrightarrow> queue_back q = list_back (queue_items q)"
proof (cases "q_new_back_values q = [] \<and> 0 < queue_stored_count q")
  case True
  assume ok: "queue_ok q"
  from True have c: "0 < queue_stored_count q" by simp
  note e = queue_stored_eq [OF ok c]
  then have "last (queue_stored q) = the (qs_values (q_context q) (q_end q - 1))" "queue_stored q \<noteq> []"
    by (simp_all add: queue_stored_def last_map)
  with True e show ?thesis
    using queue_get_stored [OF ok, of "q_end q - 1"]
    by (simp add: queue_back_def list_back_def queue_items_def)
next
  case False
  assume ok: "queue_ok q"
  with False queue_stored_length [of q] show ?thesis
    by (cases "q_new_back_values q = []") (auto simp: queue_back_def list_back_def queue_items_def)
qed

lemma queue_load_all_items:
  assumes "queue_ok q"
  shows "\<exists>q'. queue_load_all q = Ok q' \<and> queue_ok q' \<and> queue_items q' = queue_items q"
proof (cases "q_delete_storage_first q")
  case False
  define a where "a = q_start q + q_front_delete_count q"
  have a: "q_end q - queue_stored_count q = a" "a \<le> q_end q"
    using assms False by (auto simp: queue_ok_def queue_stored_count_def a_def)
  have "queue_read_context q a (q_end q) = Ok (queue_stored q)"
    using queue_read_context_stored [OF assms, of a "q_end q"] False by (simp add: a_def queue_stored_def)
  moreover have "length (q_new_back_values q @ queue_stored q) - (q_end q - a) = length (q_new_back_values q)"
    using False by (simp add: queue_stored_def a_def)
  ultimately show ?thesis
    using False assms
    by (simp add: queue_load_all_def Let_def a rotate_append queue_items_def queue_stored_def queue_ok_def)
qed (use assms in \<open>simp add: queue_load_all_def\<close>)

definition queue_save :: "'a queue_view \<Rightarrow> 'a queue_view" where
  "queue_save q = (case queue_flush q of (q', ops, _) \<Rightarrow> q'\<lparr> q_context := fold queue_write_apply ops (q_context q) \<rparr>)"

lemma fold_puts:
  "fold queue_write_apply (map (\<lambda>(i, x). QPutIndex i x) (zip [e ..< e + length xs] xs)) s =
    s\<lparr> qs_values := (\<lambda>i. if e \<le> i \<and> i < e + length xs then Some (xs ! (i - e)) else qs_values s i) \<rparr>"
proof (induction xs arbitrary: e s)
  case (Cons x xs)
  have "[e ..< e + length (x # xs)] = e # [Suc e ..< Suc e + length xs]" by (simp add: upt_rec)
  with Cons.IH [of "Suc e" "queue_write_apply (QPutIndex e x) s"] show ?case
    by (auto simp: fun_eq_iff nth_Cons' Suc_diff_le)
next
  case Nil
  have "(\<lambda>i. if e \<le> i \<and> i < e then Some ([] ! (i - e)) else qs_values s i) = qs_values s" by (auto simp: fun_eq_iff)
  then show ?case by simp
qed

lemma fold_deletes:
  "fold queue_write_apply (map QDeleteIndex is) s =
    s\<lparr> qs_values := (\<lambda>i. if i \<in> set is then None else qs_values s i) \<rparr>"
  by (induction "is" arbitrary: s) (auto simp: fun_eq_iff)

lemma map_upt_puts:
  assumes "a \<le> e"
  shows "map (\<lambda>i. the (if e \<le> i \<and> i < e + length xs then Some (xs ! (i - e)) else v i)) [a ..< e + length xs] =
    map (\<lambda>i. the (v i)) [a ..< e] @ xs"
proof -
  have "[a ..< e + length xs] = [a ..< e] @ [e ..< e + length xs]" using assms by (rule upt_add_eq_append)
  moreover have "map (\<lambda>i. xs ! (i - e)) [e ..< e + length xs] = xs" by (auto intro: nth_equalityI)
  moreover have "map (\<lambda>i. the (if e \<le> i \<and> i < e + length xs then Some (xs ! (i - e)) else v i)) [e ..< e + length xs] =
      map (\<lambda>i. xs ! (i - e)) [e ..< e + length xs]"
    by (rule map_cong) auto
  ultimately show ?thesis by (simp cong: map_cong)
qed

lemma queue_trim_stored:
  assumes "queue_ok q" "queue_trim q = (a, e, ops)" "\<not> q_delete_storage_first q \<Longrightarrow> s = q_context q"
  shows "a \<le> e \<and> map (\<lambda>i. the (qs_values (fold queue_write_apply ops s) i)) [a ..< e] = queue_stored q \<and>
    (\<forall>i \<in> {a ..< e}. qs_values (fold queue_write_apply ops s) i \<noteq> None)"
proof (cases "queue_stored_count q = 0")
  case True
  with assms(1) queue_stored_length [of q] have "queue_stored q = []" by simp
  with True assms(2) show ?thesis by (auto simp: queue_trim_def)
next
  case False
  then have e: "0 < queue_stored_count q" by simp
  note f = queue_stored_eq [OF assms(1) e]
  have s: "s = q_context q" using assms(3) f(3) by simp
  have t: "set (take (q_front_delete_count q) [q_start q ..< q_end q]) = {q_start q ..< q_start q + q_front_delete_count q}"
    using f(2) by simp
  have "a = q_start q + q_front_delete_count q" "e = q_end q"
    "ops = map QDeleteIndex (take (q_front_delete_count q) [q_start q ..< q_end q])"
    using assms(2) False by (auto simp: queue_trim_def split: if_splits)
  then show ?thesis
    using f assms(1) by (auto simp: fold_deletes t s queue_stored_def queue_ok_def)
qed

definition queue_cleared :: "'a queue_view \<Rightarrow> 'a queue_store" where
  "queue_cleared q = (if q_delete_storage_first q then queue_write_apply QDeleteView (q_context q) else q_context q)"

lemma fold_trim_indices:
  "queue_trim q = (a, e, ops) \<Longrightarrow> qs_indices (fold queue_write_apply ops s) = qs_indices s"
  by (auto simp: queue_trim_def fold_deletes split: if_splits)

lemma queue_save_sel:
  assumes "queue_trim q = (a, e, ops)"
  defines "s \<equiv> fold queue_write_apply ops (queue_cleared q)" and "e' \<equiv> e + length (q_new_back_values q)"
  shows "q_start (queue_save q) = a" "q_end (queue_save q) = e'" "q_front_delete_count (queue_save q) = 0"
    "\<not> q_delete_storage_first (queue_save q)" "q_new_back_values (queue_save q) = []"
    "qs_values (q_context (queue_save q)) =
      (\<lambda>i. if e \<le> i \<and> i < e' then Some (q_new_back_values q ! (i - e)) else qs_values s i)"
    "qs_indices (q_context (queue_save q)) =
      (if q_delete_storage_first q \<and> \<not> a < e' then None else Some (a, e'))"
  using fold_trim_indices [OF assms(1)]
  by (simp_all add: queue_save_def queue_flush_def assms(1) Let_def fold_puts s_def e'_def queue_cleared_def fun_eq_iff)

lemma queue_save_items:
  assumes "queue_ok q"
  shows "queue_ok (queue_save q) \<and> queue_items (queue_save q) = queue_items q"
proof -
  obtain a e ops where t: "queue_trim q = (a, e, ops)" by (metis prod_cases3)
  let ?s = "fold queue_write_apply ops (queue_cleared q)"
  note sel = queue_save_sel [OF t]
  have c: "a \<le> e \<and> map (\<lambda>i. the (qs_values ?s i)) [a ..< e] = queue_stored q \<and>
      (\<forall>i \<in> {a ..< e}. qs_values ?s i \<noteq> None)"
    using assms t by (rule queue_trim_stored) (simp add: queue_cleared_def)
  have z: "a = 0 \<and> e = 0" if "q_delete_storage_first q"
    using t that by (simp add: queue_trim_def queue_stored_count_def)
  have "queue_items (queue_save q) = queue_items q"
    using c by (simp add: queue_items_def [of "queue_save q"] queue_stored_def [of "queue_save q"] sel map_upt_puts)
      (simp add: queue_items_def)
  moreover have "queue_ok (queue_save q)"
    using c z by (auto simp: queue_ok_def sel)
  ultimately show ?thesis by simp
qed

lemma queue_load_context:
  "queue_ok q \<Longrightarrow> queue_load (q_context q) = queue_rollback q"
  by (cases q) (simp add: queue_load_def queue_rollback_def queue_ok_def)

lemma queue_save_rollback: "queue_rollback (queue_save q) = queue_save q"
  by (cases q) (simp add: queue_rollback_def queue_save_def queue_flush_def Let_def split: prod.split)



end
