(* ===== verification/Buckets.thy ===== *)
theory Buckets
  imports Views
begin

text \<open>
  \<open>BucketQueueView\<close> of \<open>linera-views\<close>: a queue whose entries are stored in buckets of at
  most N entries. The first bucket is under the key of the front (index 0 here) and always
  in memory, the others are loaded when the front reaches them. The cursor is the position
  of the front, none when all the stored entries are gone.
\<close>

section \<open>The view\<close>

type_synonym stored_indices = "(nat \<times> nat) list \<times> nat"

record 'a bucket_store =
  bs_stored :: "stored_indices option"
  bs_values :: "nat \<Rightarrow> 'a list option"

datatype 'a bucket = Loaded "'a list" | NotLoaded nat

fun bucket_len :: "'a bucket \<Rightarrow> nat" where
  "bucket_len (Loaded d) = length d"
| "bucket_len (NotLoaded n) = n"

fun is_loaded :: "'a bucket \<Rightarrow> bool" where
  "is_loaded (Loaded _) = True"
| "is_loaded (NotLoaded _) = False"

definition stored_indices_of :: "(nat \<times> 'a bucket) list \<Rightarrow> nat \<Rightarrow> stored_indices" where
  "stored_indices_of stored_data pos = (map (\<lambda>(i, b). (bucket_len b, i)) stored_data, pos)"

record 'a bucket_queue =
  bq_context :: "'a bucket_store"
  bq_stored_data :: "(nat \<times> 'a bucket) list"
  bq_new_back_values :: "'a list"
  bq_stored_position :: nat
  bq_cursor :: "(nat \<times> nat) option"
  bq_delete_storage_first :: bool

definition cursor_new :: "nat \<Rightarrow> nat \<Rightarrow> (nat \<times> nat) option" where
  "cursor_new number_bucket pos = (if number_bucket = 0 then None else Some (0, pos))"

definition bucket_load :: "'a bucket_store \<Rightarrow> 'a bucket_queue" where
  "bucket_load s =
    (let front = (case bs_values s 0 of Some d \<Rightarrow> [(0, Loaded d)] | None \<Rightarrow> []);
         (indices, pos) = (case bs_stored s of None \<Rightarrow> ([], 0) | Some r \<Rightarrow> r)
     in \<lparr> bq_context = s, bq_stored_data = front @ map (\<lambda>(n, i). (i, NotLoaded n)) (tl indices),
          bq_new_back_values = [], bq_stored_position = pos,
          bq_cursor = cursor_new (length indices) pos, bq_delete_storage_first = False \<rparr>)"

definition bucket_rollback :: "'a bucket_queue \<Rightarrow> 'a bucket_queue" where
  "bucket_rollback q =
    q\<lparr> bq_delete_storage_first := False,
      bq_cursor := cursor_new (length (bq_stored_data q)) (bq_stored_position q), bq_new_back_values := [] \<rparr>"

definition bucket_has_pending_changes :: "'a bucket_queue \<Rightarrow> bool" where
  "bucket_has_pending_changes q =
    (if bq_delete_storage_first q then True
     else if bq_stored_data q \<noteq> [] \<and>
       (case bq_cursor q of None \<Rightarrow> True | Some (i_block, pos) \<Rightarrow> i_block \<noteq> 0 \<or> pos \<noteq> bq_stored_position q)
     then True
     else bq_new_back_values q \<noteq> [])"

definition bucket_stored_count :: "'a bucket_queue \<Rightarrow> nat" where
  "bucket_stored_count q =
    (if bq_delete_storage_first q then 0
     else case bq_cursor q of
       None \<Rightarrow> 0
     | Some (i_block, pos) \<Rightarrow> sum_list (map (\<lambda>(_, b). bucket_len b) (drop i_block (bq_stored_data q))) - pos)"

definition bucket_count :: "'a bucket_queue \<Rightarrow> nat" where
  "bucket_count q = bucket_stored_count q + length (bq_new_back_values q)"

datatype 'a bucket_write = BDeleteView | BDeleteKey nat | BPutKey nat "'a list" | BPutStored stored_indices

fun bucket_write_apply :: "'a bucket_write \<Rightarrow> 'a bucket_store \<Rightarrow> 'a bucket_store" where
  "bucket_write_apply BDeleteView s = \<lparr> bs_stored = None, bs_values = Map.empty \<rparr>"
| "bucket_write_apply (BDeleteKey i) s = s\<lparr> bs_values := (bs_values s)(i := None) \<rparr>"
| "bucket_write_apply (BPutKey i d) s = s\<lparr> bs_values := (bs_values s)(i := Some d) \<rparr>"
| "bucket_write_apply (BPutStored r) s = s\<lparr> bs_stored := Some r \<rparr>"

fun chunks :: "nat \<Rightarrow> 'a list \<Rightarrow> 'a list list" where
  "chunks n xs = (if xs = [] \<or> n = 0 then [] else take n xs # chunks n (drop n xs))"

declare chunks.simps [simp del]

text \<open>The first part of a flush: drop the buckets before the cursor and move the first one left to the front key.\<close>

definition bucket_trim ::
  "'a bucket_queue \<Rightarrow> ('a bucket_queue \<times> 'a bucket_write list, view_error) result" where
  "bucket_trim q =
    (if bucket_stored_count q = 0
     then Ok (q\<lparr> bq_stored_data := [], bq_stored_position := 0 \<rparr>, [BDeleteView])
     else case bq_cursor q of
       None \<Rightarrow> Ok (q, [])
     | Some (i_block, pos) \<Rightarrow>
        let popped = map (\<lambda>(i, _). BDeleteKey i) (take i_block (bq_stored_data q));
            stored_data = drop i_block (bq_stored_data q);
            q = q\<lparr> bq_stored_data := stored_data, bq_cursor := Some (0, pos), bq_stored_position := pos \<rparr>
        in case stored_data of
             [] \<Rightarrow> Err Unreachable
           | (first_index, b) # rest \<Rightarrow>
              if first_index \<noteq> 0 then
                (case b of
                   Loaded d \<Rightarrow> Ok (q\<lparr> bq_stored_data := (0, b) # rest \<rparr>, popped @ [BDeleteKey first_index, BPutKey 0 d])
                 | NotLoaded _ \<Rightarrow> Err Unreachable)
              else Ok (q, popped))"

definition unused_index :: "(nat \<times> 'a bucket) list \<Rightarrow> nat" where
  "unused_index stored_data = (if stored_data = [] then 0 else fst (last stored_data) + 1)"

definition fresh_buckets :: "nat \<Rightarrow> 'a list list \<Rightarrow> (nat \<times> 'a bucket) list" where
  "fresh_buckets e ds = map (\<lambda>(i, d). (i, Loaded d)) (zip [e ..< e + length ds] ds)"

definition bucket_flush ::
  "nat \<Rightarrow> 'a bucket_queue \<Rightarrow> ('a bucket_queue \<times> 'a bucket_write list \<times> bool, view_error) result" where
  "bucket_flush n q =
    (let cleared = (if bq_delete_storage_first q then [BDeleteView] else []);
         dsf = bq_delete_storage_first q; new = bq_new_back_values q
     in and_then (bucket_trim q) (\<lambda>(q, trimmed).
        let first = unused_index (bq_stored_data q); value_chunks = chunks n new;
            puts = map (\<lambda>(i, d). BPutKey i d) (zip [first ..< first + length value_chunks] value_chunks);
            stored_data = bq_stored_data q @ fresh_buckets first value_chunks;
            cursor = (if new \<noteq> [] \<and> bq_cursor q = None then Some (0, 0) else bq_cursor q);
            stored = (if \<not> dsf \<or> stored_data \<noteq> []
                      then [BPutStored (stored_indices_of stored_data (bq_stored_position q))] else [])
        in Ok (q\<lparr> bq_stored_data := stored_data, bq_new_back_values := [], bq_cursor := cursor,
                 bq_delete_storage_first := False \<rparr>,
               cleared @ trimmed @ puts @ stored, dsf \<and> new = [])))"

definition bucket_clear :: "'a bucket_queue \<Rightarrow> 'a bucket_queue" where
  "bucket_clear q = q\<lparr> bq_delete_storage_first := True, bq_new_back_values := [], bq_cursor := None \<rparr>"

definition bucket_front :: "'a bucket_queue \<Rightarrow> 'a option" where
  "bucket_front q =
    (case bq_cursor q of
       Some (i_block, pos) \<Rightarrow>
        (case snd (bq_stored_data q ! i_block) of Loaded d \<Rightarrow> Some (d ! pos) | NotLoaded _ \<Rightarrow> None)
     | None \<Rightarrow> list_front (bq_new_back_values q))"

definition bucket_front_mut :: "('a \<Rightarrow> 'a) \<Rightarrow> 'a bucket_queue \<Rightarrow> 'a bucket_queue" where
  "bucket_front_mut f q =
    (case bq_cursor q of
       Some (i_block, pos) \<Rightarrow>
        (case bq_stored_data q ! i_block of
           (i, Loaded d) \<Rightarrow> q\<lparr> bq_stored_data := (bq_stored_data q)[i_block := (i, Loaded (d[pos := f (d ! pos)]))] \<rparr>
         | (i, NotLoaded _) \<Rightarrow> q)
     | None \<Rightarrow>
        (case bq_new_back_values q of [] \<Rightarrow> q | x # xs \<Rightarrow> q\<lparr> bq_new_back_values := f x # xs \<rparr>))"

definition load_bucket :: "'a bucket_queue \<Rightarrow> nat \<Rightarrow> ('a bucket_queue, view_error) result" where
  "load_bucket q i_block =
    (let (i, b) = bq_stored_data q ! i_block in
     if is_loaded b then Ok q
     else and_then (ok_or (bs_values (bq_context q) i) MissingEntries) (\<lambda>d.
       Ok (q\<lparr> bq_stored_data := (bq_stored_data q)[i_block := (i, Loaded d)] \<rparr>)))"

definition bucket_delete_front :: "'a bucket_queue \<Rightarrow> ('a bucket_queue, view_error) result" where
  "bucket_delete_front q =
    (case bq_cursor q of
       Some (i_block, pos) \<Rightarrow>
        let pos = pos + 1;
            (i_block, pos) = (if bucket_len (snd (bq_stored_data q ! i_block)) = pos then (i_block + 1, 0) else (i_block, pos))
        in if i_block = length (bq_stored_data q) then Ok (q\<lparr> bq_cursor := None \<rparr>)
           else load_bucket (q\<lparr> bq_cursor := Some (i_block, pos) \<rparr>) i_block
     | None \<Rightarrow> Ok (q\<lparr> bq_new_back_values := tl (bq_new_back_values q) \<rparr>))"

definition bucket_push_back :: "'a bucket_queue \<Rightarrow> 'a \<Rightarrow> 'a bucket_queue" where
  "bucket_push_back q x = q\<lparr> bq_new_back_values := bq_new_back_values q @ [x] \<rparr>"

definition bucket_back :: "'a bucket_queue \<Rightarrow> ('a bucket_queue \<times> 'a option, view_error) result" where
  "bucket_back q =
    (case list_back (bq_new_back_values q) of
       Some x \<Rightarrow> Ok (q, Some x)
     | None \<Rightarrow>
        if bq_cursor q = None then Ok (q, None)
        else if bq_stored_data q = [] then Ok (q, None)
        else and_then (load_bucket q (length (bq_stored_data q) - 1)) (\<lambda>q.
          case snd (last (bq_stored_data q)) of
            Loaded d \<Rightarrow> Ok (q, Some (last d))
          | NotLoaded _ \<Rightarrow> Err Unreachable))"

fun read_buckets ::
  "'a bucket_store \<Rightarrow> (nat \<times> 'a bucket) list \<Rightarrow> nat \<Rightarrow> nat \<Rightarrow> ('a list \<times> nat option, view_error) result" where
  "read_buckets s [] pos n = Ok ([], Some n)"
| "read_buckets s ((i, b) # bs) pos n =
    (let sz = bucket_len b - pos in
     and_then (case b of Loaded d \<Rightarrow> Ok d | NotLoaded _ \<Rightarrow> ok_or (bs_values s i) MissingEntries) (\<lambda>d.
     let elements = take n (drop pos d) in
     if n \<le> sz then Ok (elements, None)
     else and_then (read_buckets s bs 0 (n - sz)) (\<lambda>(rest, remain). Ok (elements @ rest, remain))))"

definition bucket_read_context ::
  "'a bucket_queue \<Rightarrow> (nat \<times> nat) option \<Rightarrow> nat \<Rightarrow> ('a list, view_error) result" where
  "bucket_read_context q pos n =
    (if n = 0 then Ok []
     else case pos of
       Some (i_block, pos) \<Rightarrow>
        and_then (read_buckets (bq_context q) (drop i_block (bq_stored_data q)) pos n) (\<lambda>(xs, remain).
        case remain of
          None \<Rightarrow> Ok xs
        | Some m \<Rightarrow> Ok (xs @ take (min m (length (bq_new_back_values q))) (bq_new_back_values q)))
     | None \<Rightarrow> Ok (take (min n (length (bq_new_back_values q))) (bq_new_back_values q)))"

definition bucket_elements :: "'a bucket_queue \<Rightarrow> ('a list, view_error) result" where
  "bucket_elements q = bucket_read_context q (bq_cursor q) (bucket_count q)"

definition bucket_read_front :: "'a bucket_queue \<Rightarrow> nat \<Rightarrow> ('a list, view_error) result" where
  "bucket_read_front q n = bucket_read_context q (bq_cursor q) (min n (bucket_count q))"

definition bucket_load_all :: "'a bucket_queue \<Rightarrow> ('a bucket_queue, view_error) result" where
  "bucket_load_all q =
    (if \<not> bq_delete_storage_first q then
       and_then (bucket_elements q) (\<lambda>elements.
       Ok (q\<lparr> bq_new_back_values := elements, bq_cursor := None, bq_delete_storage_first := True \<rparr>))
     else Ok q)"

section \<open>The view is a queue\<close>

definition bucket_data :: "'a bucket_store \<Rightarrow> nat \<times> 'a bucket \<Rightarrow> 'a list" where
  "bucket_data s = (\<lambda>(i, b). case b of Loaded d \<Rightarrow> d | NotLoaded _ \<Rightarrow> the (bs_values s i))"

definition bucket_stored :: "'a bucket_queue \<Rightarrow> 'a list" where
  "bucket_stored q =
    (case bq_cursor q of
       None \<Rightarrow> []
     | Some (i_block, pos) \<Rightarrow> drop pos (concat (map (bucket_data (bq_context q)) (drop i_block (bq_stored_data q)))))"

definition bucket_items :: "'a bucket_queue \<Rightarrow> 'a list" where
  "bucket_items q = bucket_stored q @ bq_new_back_values q"

definition bucket_wf :: "'a bucket_store \<Rightarrow> nat \<times> 'a bucket \<Rightarrow> bool" where
  "bucket_wf s = (\<lambda>(i, b). \<exists>d. bs_values s i = Some d \<and> d \<noteq> [] \<and>
     (case b of Loaded d' \<Rightarrow> d' = d | NotLoaded n \<Rightarrow> n = length d))"

definition bucket_core :: "'a bucket_store \<Rightarrow> (nat \<times> 'a bucket) list \<Rightarrow> nat \<Rightarrow> bool" where
  "bucket_core s stored_data pos \<longleftrightarrow>
    (\<forall>b \<in> set stored_data. bucket_wf s b) \<and> sorted_wrt (<) (map fst stored_data) \<and>
    (stored_data = [] \<longrightarrow> bs_values s 0 = None) \<and>
    (stored_data \<noteq> [] \<longrightarrow>
      fst (stored_data ! 0) = 0 \<and> is_loaded (snd (stored_data ! 0)) \<and> pos < bucket_len (snd (stored_data ! 0)))"

definition bucket_base :: "'a bucket_store \<Rightarrow> (nat \<times> 'a bucket) list \<Rightarrow> nat \<Rightarrow> bool" where
  "bucket_base s stored_data pos \<longleftrightarrow> bucket_core s stored_data pos \<and>
    (case bs_stored s of None \<Rightarrow> ([], 0) | Some r \<Rightarrow> r) = stored_indices_of stored_data pos"

definition bucket_ok :: "'a bucket_queue \<Rightarrow> bool" where
  "bucket_ok q \<longleftrightarrow>
    bucket_base (bq_context q) (bq_stored_data q) (bq_stored_position q) \<and>
    (\<forall>i_block pos. bq_cursor q = Some (i_block, pos) \<longrightarrow>
      \<not> bq_delete_storage_first q \<and> i_block < length (bq_stored_data q) \<and>
      is_loaded (snd (bq_stored_data q ! i_block)) \<and> pos < bucket_len (snd (bq_stored_data q ! i_block)))"

lemma bucket_data_Loaded [simp]: "bucket_data s (i, Loaded d) = d"
  by (simp add: bucket_data_def)

lemma bucket_wf_data:
  "bucket_wf s (i, b) \<Longrightarrow> bs_values s i = Some (bucket_data s (i, b)) \<and> length (bucket_data s (i, b)) = bucket_len b \<and>
    0 < bucket_len b"
  by (auto simp: bucket_wf_def bucket_data_def split: bucket.splits)

lemma loaded_data: "is_loaded b \<Longrightarrow> b = Loaded (bucket_data s (i, b))"
  by (cases b) (simp_all add: bucket_data_def)

lemma concat_length:
  "(\<forall>b \<in> set bs. bucket_wf s b) \<Longrightarrow>
    length (concat (map (bucket_data s) bs)) = sum_list (map (\<lambda>(_, b). bucket_len b) bs)"
  by (induction bs) (auto dest: bucket_wf_data)

lemma bucket_ok_drop: "bucket_ok q \<Longrightarrow> \<forall>b \<in> set (drop i (bq_stored_data q)). bucket_wf (bq_context q) b"
  by (auto simp: bucket_ok_def bucket_base_def bucket_core_def dest: in_set_dropD)

lemma bucket_stored_length: "bucket_ok q \<Longrightarrow> length (bucket_stored q) = bucket_stored_count q"
proof -
  assume ok: "bucket_ok q"
  have "bq_delete_storage_first q \<Longrightarrow> bq_cursor q = None" using ok by (cases "bq_cursor q") (auto simp: bucket_ok_def)
  then show ?thesis
    by (auto simp: bucket_stored_def bucket_stored_count_def concat_length [OF bucket_ok_drop [OF ok]]
        simp del: length_concat split: option.split)
qed

lemma bucket_count_items: "bucket_ok q \<Longrightarrow> bucket_count q = length (bucket_items q)"
  by (simp add: bucket_count_def bucket_items_def bucket_stored_length)

lemma bucket_stored_Some:
  assumes "bucket_ok q" "bq_cursor q = Some (i, p)"
  defines "b \<equiv> bq_stored_data q ! i"
  shows "bucket_stored q = drop p (bucket_data (bq_context q) b) @
      concat (map (bucket_data (bq_context q)) (drop (Suc i) (bq_stored_data q)))"
    and "p < length (bucket_data (bq_context q) b)" "bucket_wf (bq_context q) b" "i < length (bq_stored_data q)"
    "snd b = Loaded (bucket_data (bq_context q) b)" "bucket_len (snd b) = length (bucket_data (bq_context q) b)"
proof -
  have i: "i < length (bq_stored_data q)" "is_loaded (snd b)" "p < bucket_len (snd b)"
    using assms by (auto simp: bucket_ok_def)
  then show "i < length (bq_stored_data q)" by simp
  show w: "bucket_wf (bq_context q) b" using assms i by (auto simp: bucket_ok_def bucket_base_def bucket_core_def)
  show "snd b = Loaded (bucket_data (bq_context q) b)"
    using loaded_data [OF i(2), of "bq_context q" "fst b"] by simp
  then show l: "bucket_len (snd b) = length (bucket_data (bq_context q) b)" by (metis bucket_len.simps(1))
  with i(3) show p: "p < length (bucket_data (bq_context q) b)" by simp
  show "bucket_stored q = drop p (bucket_data (bq_context q) b) @
      concat (map (bucket_data (bq_context q)) (drop (Suc i) (bq_stored_data q)))"
    using p by (simp add: bucket_stored_def assms(2) Cons_nth_drop_Suc [OF i(1), symmetric] flip: b_def)
qed

lemma bucket_front_items: "bucket_ok q \<Longrightarrow> bucket_front q = list_front (bucket_items q)"
proof (cases "bq_cursor q")
  case (Some c)
  assume ok: "bucket_ok q"
  obtain i p where c: "bq_cursor q = Some (i, p)" using Some by (cases c) simp
  note s = bucket_stored_Some [OF ok c]
  show ?thesis
    using s(2,5) by (simp add: bucket_front_def c bucket_items_def s(1) Cons_nth_drop_Suc [symmetric])
qed (simp add: bucket_front_def bucket_items_def bucket_stored_def)

definition with_loaded :: "'a bucket_store \<Rightarrow> (nat \<times> 'a bucket) list \<Rightarrow> nat \<Rightarrow> (nat \<times> 'a bucket) list" where
  "with_loaded s bs i = bs[i := (fst (bs ! i), Loaded (bucket_data s (bs ! i)))]"

lemma with_loaded_base:
  assumes "bucket_base s bs pos" "i < length bs"
  shows "bucket_base s (with_loaded s bs i) pos" "map (bucket_data s) (with_loaded s bs i) = map (bucket_data s) bs"
proof -
  let ?b = "(fst (bs ! i), Loaded (bucket_data s (bs ! i)))"
  obtain j c where b: "bs ! i = (j, c)" by fastforce
  have wf: "bucket_wf s (j, c)" using assms b by (auto simp: bucket_base_def bucket_core_def dest: nth_mem)
  note d = bucket_wf_data [OF wf]
  have w: "bucket_wf s ?b" using d by (auto simp: bucket_wf_def b)
  have idx: "map (\<lambda>(i, b). (bucket_len b, i)) (with_loaded s bs i) = map (\<lambda>(i, b). (bucket_len b, i)) bs"
    using d assms(2) by (simp add: with_loaded_def map_update b list_update_same_conv)
  have f: "map fst (with_loaded s bs i) = map fst bs"
    using assms(2) by (simp add: with_loaded_def map_update list_update_same_conv)
  have h: "fst (with_loaded s bs i ! 0) = fst (bs ! 0) \<and> bucket_len (snd (with_loaded s bs i ! 0)) = bucket_len (snd (bs ! 0)) \<and>
      (is_loaded (snd (bs ! 0)) \<longrightarrow> is_loaded (snd (with_loaded s bs i ! 0)))"
    using d assms(2) b by (cases i) (auto simp: with_loaded_def)
  have ne: "with_loaded s bs i = [] \<longleftrightarrow> bs = []" by (simp add: with_loaded_def)
  show "bucket_base s (with_loaded s bs i) pos"
    using assms(1) w h ne set_update_subset_insert [of bs i ?b]
    by (auto simp: bucket_base_def bucket_core_def f stored_indices_of_def idx) (auto simp: with_loaded_def)
  show "map (bucket_data s) (with_loaded s bs i) = map (bucket_data s) bs"
    using assms(2) by (simp add: with_loaded_def map_update list_update_same_conv bucket_data_def split: prod.split)
qed

lemma load_bucket_loads:
  assumes "bucket_wf (bq_context q) (bq_stored_data q ! i)"
  shows "load_bucket q i = Ok (q\<lparr> bq_stored_data := with_loaded (bq_context q) (bq_stored_data q) i \<rparr>)"
proof -
  obtain j c where b: "bq_stored_data q ! i = (j, c)" by fastforce
  note d = bucket_wf_data [OF assms [unfolded b]]
  show ?thesis
  proof (cases "is_loaded c")
    case True
    from loaded_data [OF True, of "bq_context q" j] have "with_loaded (bq_context q) (bq_stored_data q) i = bq_stored_data q"
      by (simp add: with_loaded_def b) (metis b list_update_id)
    with True show ?thesis by (simp add: load_bucket_def b)
  qed (use d in \<open>simp add: load_bucket_def b ok_or_def with_loaded_def\<close>)
qed

lemma bucket_ok_new [simp]: "bucket_ok (q\<lparr> bq_new_back_values := xs \<rparr>) = bucket_ok q"
  by (simp add: bucket_ok_def)

lemma bucket_stored_new [simp]: "bucket_stored (q\<lparr> bq_new_back_values := xs \<rparr>) = bucket_stored q"
  by (simp add: bucket_stored_def split: option.split)

lemma seek_bucket:
  assumes "bucket_ok q" "i < length (bq_stored_data q)" "pos < length (bucket_data (bq_context q) (bq_stored_data q ! i))"
    "\<not> bq_delete_storage_first q"
  shows "\<exists>q'. load_bucket (q\<lparr> bq_cursor := Some (i, pos) \<rparr>) i = Ok q' \<and> bucket_ok q' \<and>
    bucket_stored q' = drop pos (concat (map (bucket_data (bq_context q)) (drop i (bq_stored_data q)))) \<and>
    bq_new_back_values q' = bq_new_back_values q"
proof -
  have base: "bucket_base (bq_context q) (bq_stored_data q) (bq_stored_position q)"
    using assms(1) by (simp add: bucket_ok_def)
  note w = with_loaded_base [OF base assms(2)]
  have wf: "bucket_wf (bq_context q) (bq_stored_data q ! i)" using base assms(2) by (auto simp: bucket_base_def bucket_core_def)
  let ?q = "q\<lparr> bq_cursor := Some (i, pos), bq_stored_data := with_loaded (bq_context q) (bq_stored_data q) i \<rparr>"
  have "load_bucket (q\<lparr> bq_cursor := Some (i, pos) \<rparr>) i = Ok ?q"
    using load_bucket_loads [of "q\<lparr> bq_cursor := Some (i, pos) \<rparr>" i] wf by simp
  moreover have "bucket_ok ?q"
    using w(1) assms(2-4) by (simp add: bucket_ok_def) (simp add: with_loaded_def)
  moreover have "bucket_stored ?q = drop pos (concat (map (bucket_data (bq_context q)) (drop i (bq_stored_data q))))"
    using w(2) by (simp add: bucket_stored_def flip: drop_map)
  ultimately show ?thesis by auto
qed

lemma bucket_delete_front_items:
  assumes "bucket_ok q"
  shows "\<exists>q'. bucket_delete_front q = Ok q' \<and> bucket_ok q' \<and> bucket_items q' = tl (bucket_items q)"
proof (cases "bq_cursor q")
  case None
  with assms show ?thesis by (simp add: bucket_delete_front_def bucket_items_def bucket_stored_def)
next
  case (Some c)
  obtain i p where c: "bq_cursor q = Some (i, p)" using Some by (cases c) simp
  note s = bucket_stored_Some [OF assms c]
  have dsf: "\<not> bq_delete_storage_first q" using assms c by (simp add: bucket_ok_def)
  let ?d = "\<lambda>i. bucket_data (bq_context q) (bq_stored_data q ! i)"
  have t: "tl (bucket_items q) = drop (Suc p) (?d i) @
      concat (map (bucket_data (bq_context q)) (drop (Suc i) (bq_stored_data q))) @ bq_new_back_values q"
    using s(2) by (simp add: bucket_items_def s(1) Cons_nth_drop_Suc [symmetric])
  show ?thesis
  proof (cases "Suc p = length (?d i)")
    case last: True
    show ?thesis
    proof (cases "Suc i = length (bq_stored_data q)")
      case True
      with last s(6) show ?thesis
        using assms t by (simp add: bucket_delete_front_def c bucket_ok_def bucket_items_def bucket_stored_def)
    next
      case False
      then have i: "Suc i < length (bq_stored_data q)" using s(4) by simp
      have "0 < length (?d (Suc i))"
        using bucket_ok_drop [OF assms, of 0] i by (auto dest!: nth_mem simp: bucket_wf_def bucket_data_def split: bucket.splits)
      from seek_bucket [OF assms i this dsf] obtain q' where
        "load_bucket (q\<lparr> bq_cursor := Some (Suc i, 0) \<rparr>) (Suc i) = Ok q'" "bucket_ok q'"
        "bucket_stored q' = concat (map (bucket_data (bq_context q)) (drop (Suc i) (bq_stored_data q)))"
        "bq_new_back_values q' = bq_new_back_values q" by auto
      with last s(6) False t show ?thesis by (simp add: bucket_delete_front_def c bucket_items_def)
    qed
  next
    case False
    then have p: "Suc p < length (?d i)" using s(2) by simp
    from seek_bucket [OF assms s(4) p dsf] obtain q' where
      "load_bucket (q\<lparr> bq_cursor := Some (i, Suc p) \<rparr>) i = Ok q'" "bucket_ok q'"
      "bucket_stored q' = drop (Suc p) (concat (map (bucket_data (bq_context q)) (drop i (bq_stored_data q))))"
      "bq_new_back_values q' = bq_new_back_values q" by auto
    with False s(4,6) t p show ?thesis
      by (simp add: bucket_delete_front_def c bucket_items_def Cons_nth_drop_Suc [OF s(4), symmetric])
  qed
qed

lemma bucket_push_back_items:
  "bucket_ok q \<Longrightarrow> bucket_ok (bucket_push_back q x) \<and> bucket_items (bucket_push_back q x) = bucket_items q @ [x]"
  by (simp add: bucket_push_back_def bucket_items_def)

interpretation bucket_fifo: fifo_queue bucket_ok bucket_items bucket_front bucket_delete_front bucket_push_back
  by unfold_locales (simp_all add: bucket_front_items bucket_delete_front_items bucket_push_back_items)

section \<open>Reading and saving\<close>

lemma read_buckets_data:
  "\<forall>b \<in> set bs. bucket_wf s b \<Longrightarrow> (bs \<noteq> [] \<longrightarrow> pos \<le> length (bucket_data s (hd bs))) \<Longrightarrow> 0 < n \<Longrightarrow>
    read_buckets s bs pos n =
      (let L = concat (map (bucket_data s) bs)
       in Ok (take n (drop pos L), if n \<le> length L - pos then None else Some (n - (length L - pos))))"
proof (induction bs arbitrary: pos n)
  case (Cons x bs)
  obtain i b where x: "x = (i, b)" by fastforce
  have d: "bs_values s i = Some (bucket_data s x)" "length (bucket_data s x) = bucket_len b"
    using Cons.prems(1) bucket_wf_data [of s i b] by (simp_all add: x)
  have v: "(case b of Loaded d \<Rightarrow> Ok d | NotLoaded _ \<Rightarrow> ok_or (bs_values s i) MissingEntries) = Ok (bucket_data s x)"
    by (cases b) (use d in \<open>auto simp: x bucket_data_def ok_or_def split: option.splits\<close>)
  have p: "pos \<le> bucket_len b" using Cons.prems(2) d by simp
  show ?case
  proof (cases "n \<le> bucket_len b - pos")
    case True
    then show ?thesis using p d(2) by (simp add: x Let_def v [unfolded x])
  next
    case False
    let ?m = "n - (bucket_len b - pos)" and ?L = "concat (map (bucket_data s) bs)"
    have "read_buckets s bs 0 ?m = Ok (take ?m ?L, if ?m \<le> length ?L then None else Some (?m - length ?L))"
      using Cons.IH [of 0 ?m] Cons.prems(1) False by (simp add: Let_def del: length_concat)
    with False p d(2) show ?thesis
      by (auto simp: x Let_def v [unfolded x] simp del: length_concat)
  qed
qed (simp add: Let_def)

lemma bucket_read_front_items: "bucket_ok q \<Longrightarrow> bucket_read_front q n = Ok (take n (bucket_items q))"
proof -
  assume ok: "bucket_ok q"
  let ?n = "min n (bucket_count q)"
  show ?thesis
  proof (cases "0 < ?n \<and> bq_cursor q \<noteq> None")
    case True
    then obtain i p where c: "bq_cursor q = Some (i, p)" by auto
    note s = bucket_stored_Some [OF ok c]
    have h: "hd (drop i (bq_stored_data q)) = bq_stored_data q ! i" using s(4) by (simp add: hd_drop_conv_nth)
    have st: "bucket_stored q = drop p (concat (map (bucket_data (bq_context q)) (drop i (bq_stored_data q))))"
      by (simp add: bucket_stored_def c)
    have "read_buckets (bq_context q) (drop i (bq_stored_data q)) p ?n =
        Ok (take ?n (bucket_stored q),
          if ?n \<le> length (bucket_stored q) then None else Some (?n - length (bucket_stored q)))"
      using read_buckets_data [OF bucket_ok_drop [OF ok], where pos = p and i1 = i and n = ?n] True s(2)
      by (simp add: h st Let_def del: length_concat)
    then show ?thesis
      using True bucket_count_items [OF ok]
      by (auto simp: bucket_read_front_def bucket_read_context_def c bucket_items_def min_def)
  next
    case False
    then show ?thesis
      using bucket_count_items [OF ok]
      by (auto simp: bucket_read_front_def bucket_read_context_def bucket_items_def bucket_stored_def min_def
          split: option.splits)
  qed
qed

lemma bucket_elements_items: "bucket_ok q \<Longrightarrow> bucket_elements q = Ok (bucket_items q)"
  using bucket_read_front_items [of q "bucket_count q"]
  by (simp add: bucket_elements_def bucket_read_front_def bucket_count_items)

lemma bucket_load_all_items:
  assumes "bucket_ok q"
  shows "\<exists>q'. bucket_load_all q = Ok q' \<and> bucket_ok q' \<and> bucket_items q' = bucket_items q"
  using assms
  by (auto simp: bucket_load_all_def bucket_elements_items) (auto simp: bucket_items_def bucket_stored_def bucket_ok_def)

lemma fold_bucket_deletes:
  "fold bucket_write_apply (map (\<lambda>(i, _). BDeleteKey i) bs) s =
    s\<lparr> bs_values := (\<lambda>i. if i \<in> fst ` set bs then None else bs_values s i) \<rparr>"
  by (induction bs arbitrary: s) (auto simp: fun_eq_iff)

lemma chunks_concat: "0 < n \<Longrightarrow> concat (chunks n xs) = xs \<and> (\<forall>d \<in> set (chunks n xs). d \<noteq> [])"
  by (induction n xs rule: chunks.induct) (subst (1 2) chunks.simps, auto)

lemma chunks_empty: "0 < n \<Longrightarrow> chunks n xs = [] \<longleftrightarrow> xs = []"
  by (simp add: chunks.simps)

lemma bucket_stored_irrelevant [simp]:
  "bucket_wf (s\<lparr> bs_stored := x \<rparr>) = bucket_wf s" "bucket_data (s\<lparr> bs_stored := x \<rparr>) = bucket_data s"
  "bucket_core (s\<lparr> bs_stored := x \<rparr>) = bucket_core s"
  by (simp_all add: fun_eq_iff bucket_wf_def bucket_data_def bucket_core_def split: bucket.split)

lemma bucket_wf_cong: "bs_values s' (fst b) = bs_values s (fst b) \<Longrightarrow> bucket_wf s' b = bucket_wf s b"
  by (cases b) (simp add: bucket_wf_def)

lemma bucket_data_cong: "bs_values s' (fst b) = bs_values s (fst b) \<Longrightarrow> bucket_data s' b = bucket_data s b"
  by (cases b) (simp add: bucket_data_def split: bucket.split)

definition bucket_cleared :: "'a bucket_queue \<Rightarrow> 'a bucket_store" where
  "bucket_cleared q = (if bq_delete_storage_first q then bucket_write_apply BDeleteView (bq_context q) else bq_context q)"

definition trimmed_from :: "'a bucket_queue \<Rightarrow> 'a bucket_store \<Rightarrow> 'a bucket_queue \<Rightarrow> bool" where
  "trimmed_from q s q1 \<longleftrightarrow>
    bucket_core s (bq_stored_data q1) (bq_stored_position q1) \<and>
    bq_cursor q1 = (if bq_stored_data q1 = [] then None else Some (0, bq_stored_position q1)) \<and>
    (bq_stored_data q1 = [] \<longrightarrow> bq_stored_position q1 = 0 \<and> bs_stored s = None) \<and>
    drop (bq_stored_position q1) (concat (map (bucket_data s) (bq_stored_data q1))) = bucket_stored q \<and>
    bq_new_back_values q1 = bq_new_back_values q"

lemma bucket_trim_empty:
  assumes "bucket_ok q" "bucket_stored_count q = 0"
  shows "\<exists>q1 ops. bucket_trim q = Ok (q1, ops) \<and> trimmed_from q (fold bucket_write_apply ops (bucket_cleared q)) q1"
proof -
  have "bucket_stored q = []" using bucket_stored_length [OF assms(1)] assms(2) by simp
  moreover from this have "bq_cursor q = None"
    using bucket_stored_Some(1,2) [OF assms(1)] by (cases "bq_cursor q") (auto simp: not_le)
  ultimately show ?thesis using assms(2) by (simp add: bucket_trim_def trimmed_from_def bucket_core_def)
qed

lemma bucket_trim_stored:
  assumes "bucket_ok q" "0 < bucket_stored_count q"
  shows "\<exists>q1 ops. bucket_trim q = Ok (q1, ops) \<and> trimmed_from q (fold bucket_write_apply ops (bucket_cleared q)) q1"
proof -
  obtain i p where c: "bq_cursor q = Some (i, p)"
    using assms(2) by (cases "bq_cursor q") (auto simp: bucket_stored_count_def split: if_splits)
  note s = bucket_stored_Some [OF assms(1) c]
  let ?s = "bq_context q" and ?bs = "bq_stored_data q"
  have dsf: "\<not> bq_delete_storage_first q" using assms(1) c by (simp add: bucket_ok_def)
  obtain j d rest where dr: "drop i ?bs = (j, Loaded d) # rest"
    using s(4,5) by (metis Cons_nth_drop_Suc prod.collapse)
  have wf: "\<forall>b \<in> set (drop i ?bs). bucket_wf ?s b" by (rule bucket_ok_drop [OF assms(1)])
  have srt: "sorted_wrt (<) (map fst (take i ?bs @ drop i ?bs))"
    using assms(1) by (simp add: bucket_ok_def bucket_base_def bucket_core_def)
  have st: "bucket_stored q = drop p (concat (map (bucket_data ?s) ((j, Loaded d) # rest)))"
    by (simp add: bucket_stored_def c flip: dr)
  have p: "p < length d" using s(2,4,5) dr by (metis Cons_nth_drop_Suc bucket.inject(1) list.inject snd_conv)
  let ?popped = "map (\<lambda>(i, _). BDeleteKey i) (take i ?bs)"
  show ?thesis
  proof (cases "j = 0")
    case True
    have "take i ?bs = []" using srt True by (cases "take i ?bs") (auto simp: dr)
    with True have "bucket_trim q =
        Ok (q\<lparr> bq_stored_data := (j, Loaded d) # rest, bq_cursor := Some (0, p), bq_stored_position := p \<rparr>, [])"
      using assms(2) by (simp add: bucket_trim_def c dr)
    moreover have "bucket_core ?s ((j, Loaded d) # rest) p"
      using wf srt p True by (auto simp: bucket_core_def dr sorted_wrt_append)
    ultimately show ?thesis
      using st dsf by (simp add: trimmed_from_def bucket_cleared_def)
  next
    case False
    let ?ops = "?popped @ [BDeleteKey j, BPutKey 0 d]"
    let ?q1 = "q\<lparr> bq_stored_data := (0, Loaded d) # rest, bq_cursor := Some (0, p), bq_stored_position := p \<rparr>"
    define s1 where "s1 = fold bucket_write_apply ?ops ?s"
    have v: "bs_values s1 k = bs_values ?s k" if "k \<in> fst ` set rest" for k
      using that srt False by (fastforce simp: s1_def fold_bucket_deletes dr sorted_wrt_append)
    have v0: "bs_values s1 0 = Some d" by (simp add: s1_def fold_bucket_deletes)
    have "bucket_wf s1 (0, Loaded d)" using p v0 by (auto simp: bucket_wf_def)
    moreover have "bucket_wf s1 b" if "b \<in> set rest" for b
      using wf that v bucket_wf_cong [of s1 b ?s] by (auto simp: dr)
    moreover have "sorted_wrt (<) (map fst ((0, Loaded d) # rest))"
      using srt False by (auto simp: dr sorted_wrt_append)
    ultimately have "bucket_core s1 ((0, Loaded d) # rest) p" using p by (simp add: bucket_core_def)
    moreover have "map (bucket_data s1) rest = map (bucket_data ?s) rest"
      by (rule map_cong [OF refl]) (rule bucket_data_cong [OF v [OF imageI]])
    then have "map (bucket_data s1) ((0, Loaded d) # rest) = map (bucket_data ?s) ((j, Loaded d) # rest)"
      by (simp only: list.map bucket_data_Loaded)
    ultimately have "trimmed_from q s1 ?q1" using st by (simp add: trimmed_from_def cong: map_cong)
    moreover have "bucket_trim q = Ok (?q1, ?ops)"
      using assms(2) False by (simp add: bucket_trim_def c dr)
    moreover have "fold bucket_write_apply ?ops (bucket_cleared q) = s1"
      using dsf by (simp only: s1_def bucket_cleared_def if_False)
    ultimately show ?thesis by metis
  qed
qed

definition bucket_save :: "nat \<Rightarrow> 'a bucket_queue \<Rightarrow> ('a bucket_queue, view_error) result" where
  "bucket_save n q =
    and_then (bucket_flush n q) (\<lambda>(q', ops, _). Ok (q'\<lparr> bq_context := fold bucket_write_apply ops (bq_context q) \<rparr>))"

definition put_fresh :: "nat \<Rightarrow> 'a list list \<Rightarrow> 'a bucket_store \<Rightarrow> 'a bucket_store" where
  "put_fresh e ds s = s\<lparr> bs_values := (\<lambda>i. if e \<le> i \<and> i < e + length ds then Some (ds ! (i - e)) else bs_values s i) \<rparr>"

lemma fold_bucket_puts:
  "fold bucket_write_apply (map (\<lambda>(i, d). BPutKey i d) (zip [e ..< e + length ds] ds)) s =
    put_fresh e ds s"
  unfolding put_fresh_def
proof (induction ds arbitrary: e s)
  case (Cons x xs)
  have "[e ..< e + length (x # xs)] = e # [Suc e ..< Suc e + length xs]" by (simp add: upt_rec)
  with Cons.IH [of "Suc e" "bucket_write_apply (BPutKey e x) s"] show ?case
    by (auto simp: fun_eq_iff nth_Cons' Suc_diff_le)
next
  case Nil
  have "(\<lambda>i. if e \<le> i \<and> i < e then Some ([] ! (i - e)) else bs_values s i) = bs_values s" by (auto simp: fun_eq_iff)
  then show ?case by simp
qed

lemma fresh_buckets_sel [simp]:
  "length (fresh_buckets e ds) = length ds" "map fst (fresh_buckets e ds) = [e ..< e + length ds]"
  "map (bucket_data s) (fresh_buckets e ds) = ds" "fresh_buckets e ds = [] \<longleftrightarrow> ds = []"
  by (auto simp: fresh_buckets_def bucket_data_def comp_def case_prod_beta intro: nth_equalityI)

lemma bucket_core_append:
  assumes core: "bucket_core s bs pos" and ne: "\<forall>d \<in> set ds. d \<noteq> []" and pos: "bs = [] \<Longrightarrow> pos = 0"
    and e: "e = unused_index bs" and s': "s' = put_fresh e ds s"
  shows "bucket_core s' (bs @ fresh_buckets e ds) pos"
    "map (bucket_data s') (bs @ fresh_buckets e ds) = map (bucket_data s) bs @ ds"
proof -
  have lt: "fst b < e" if "b \<in> set bs" for b
    using that core by (cases bs rule: rev_cases) (fastforce simp: e unused_index_def bucket_core_def sorted_wrt_append)+
  have old: "bs_values s' (fst b) = bs_values s (fst b)" if "b \<in> set bs" for b
    using lt [OF that] by (simp add: s' put_fresh_def)
  have "bucket_wf s' b" if "b \<in> set (fresh_buckets e ds)" for b
    using that ne by (auto simp: fresh_buckets_def bucket_wf_def s' put_fresh_def set_zip)
  then have wf: "\<forall>b \<in> set (bs @ fresh_buckets e ds). bucket_wf s' b"
    using core bucket_wf_cong [OF old] by (auto simp: bucket_core_def)
  have "sorted_wrt (<) (map fst (bs @ fresh_buckets e ds))"
  proof -
    have "a < x" if "a \<in> set (map fst bs)" "x \<in> set [e ..< e + length ds]" for a x
      using that lt by fastforce
    then have "sorted_wrt (<) (map fst bs @ [e ..< e + length ds])"
      using core by (simp add: bucket_core_def sorted_wrt_append)
    then show ?thesis by simp
  qed
  moreover have "bs @ fresh_buckets e ds = [] \<longrightarrow> bs_values s' 0 = None"
    using core by (auto simp: bucket_core_def s' put_fresh_def)
  moreover have "fst ((bs @ fresh_buckets e ds) ! 0) = 0 \<and> is_loaded (snd ((bs @ fresh_buckets e ds) ! 0)) \<and>
      pos < bucket_len (snd ((bs @ fresh_buckets e ds) ! 0))" if "bs @ fresh_buckets e ds \<noteq> []"
    using core pos ne that
    by (cases "bs = []") (auto simp: bucket_core_def nth_append fresh_buckets_def e unused_index_def)
  ultimately show "bucket_core s' (bs @ fresh_buckets e ds) pos" using wf by (simp add: bucket_core_def)
  have "map (bucket_data s') bs = map (bucket_data s) bs"
    by (rule map_cong [OF refl]) (rule bucket_data_cong [OF old])
  then show "map (bucket_data s') (bs @ fresh_buckets e ds) = map (bucket_data s) bs @ ds" by simp
qed

lemma bucket_trim_ok:
  assumes "bucket_ok q"
  obtains q1 ops where "bucket_trim q = Ok (q1, ops)"
    "trimmed_from q (fold bucket_write_apply ops (bucket_cleared q)) q1"
  using bucket_trim_empty [OF assms] bucket_trim_stored [OF assms] by (cases "bucket_stored_count q = 0") auto

lemma bucket_save_items:
  assumes "bucket_ok q" "0 < n"
  shows "\<exists>q'. bucket_save n q = Ok q' \<and> bucket_ok q' \<and> bucket_items q' = bucket_items q \<and>
    bucket_rollback q' = q'"
proof -
  obtain q1 ops where t: "bucket_trim q = Ok (q1, ops)"
    and f: "trimmed_from q (fold bucket_write_apply ops (bucket_cleared q)) q1"
    using assms(1) by (rule bucket_trim_ok)
  define s where "s = fold bucket_write_apply ops (bucket_cleared q)"
  define ds where "ds = chunks n (bq_new_back_values q)"
  define bs where "bs = bq_stored_data q1"
  define pos where "pos = bq_stored_position q1"
  define e where "e = unused_index bs"
  define s' where "s' = put_fresh e ds s"
  define data where "data = bs @ fresh_buckets e ds"
  note f = f [folded s_def, unfolded trimmed_from_def, folded bs_def pos_def]
  note ch = chunks_concat [OF assms(2), of "bq_new_back_values q", folded ds_def]
  have core: "bucket_core s' data pos" "map (bucket_data s') data = map (bucket_data s) bs @ ds"
    using bucket_core_append [OF _ _ _ e_def s'_def, of pos] f ch by (simp_all add: data_def)
  let ?q' = "q1\<lparr> bq_stored_data := data, bq_new_back_values := [],
      bq_cursor := (if data = [] then None else Some (0, pos)), bq_delete_storage_first := False,
      bq_context := (if \<not> bq_delete_storage_first q \<or> data \<noteq> []
                     then s'\<lparr> bs_stored := Some (stored_indices_of data pos) \<rparr> else s') \<rparr>"
  have cur: "bq_cursor q1 = (if bs = [] then None else Some (0, pos))" "bs = [] \<longrightarrow> pos = 0 \<and> bs_stored s = None"
    "drop pos (concat (map (bucket_data s) bs)) = bucket_stored q" "bq_new_back_values q1 = bq_new_back_values q"
    using f by simp_all
  have ds: "ds = [] \<longleftrightarrow> bq_new_back_values q = []" by (simp add: ds_def chunks_empty assms(2))
  have cl: "fold bucket_write_apply (if bq_delete_storage_first q then [BDeleteView] else []) (bq_context q) = bucket_cleared q"
    by (simp add: bucket_cleared_def)
  have c2: "(if bq_new_back_values q \<noteq> [] \<and> bq_cursor q1 = None then Some (0, 0) else bq_cursor q1) =
      (if data = [] then None else Some (0, pos))"
    using cur(1,2) ds by (auto simp: data_def)
  let ?puts = "map (\<lambda>(i, d). BPutKey i d) (zip [e ..< e + length ds] ds)"
  let ?stored = "if \<not> bq_delete_storage_first q \<or> data \<noteq> [] then [BPutStored (stored_indices_of data pos)] else []"
  let ?cleared = "if bq_delete_storage_first q then [BDeleteView] else []"
  have fl: "bucket_flush n q = Ok (q1\<lparr> bq_stored_data := data, bq_new_back_values := [],
      bq_cursor := (if data = [] then None else Some (0, pos)), bq_delete_storage_first := False \<rparr>,
      ?cleared @ ops @ ?puts @ ?stored, bq_delete_storage_first q \<and> bq_new_back_values q = [])"
    unfolding bucket_flush_def Let_def t and_then.simps prod.case
      ds_def [symmetric] bs_def [symmetric] pos_def [symmetric] e_def [symmetric] data_def [symmetric] c2 ..
  have fo: "fold bucket_write_apply (?cleared @ ops @ ?puts @ ?stored) (bq_context q) =
      (if \<not> bq_delete_storage_first q \<or> data \<noteq> [] then s'\<lparr> bs_stored := Some (stored_indices_of data pos) \<rparr> else s')"
    unfolding fold_append comp_def cl s_def [symmetric] fold_bucket_puts s'_def [symmetric] by simp
  have "bucket_save n q = Ok ?q'"
    unfolding bucket_save_def fl and_then.simps prod.case fo ..
  moreover have "bucket_ok ?q'"
  proof -
    have "data = [] \<Longrightarrow> pos = 0 \<and> bs_stored s' = None"
      using cur(2) by (simp add: data_def s'_def put_fresh_def)
    moreover have "data \<noteq> [] \<Longrightarrow> is_loaded (snd (data ! 0)) \<and> pos < bucket_len (snd (data ! 0))"
      using core(1) by (simp add: bucket_core_def)
    ultimately show ?thesis
      using core(1) by (auto simp: bucket_ok_def bucket_base_def stored_indices_of_def simp flip: pos_def)
  qed
  moreover have "bucket_items ?q' = bucket_items q"
  proof -
    have "pos \<le> length (concat (map (bucket_data s) bs))"
      using f by (cases bs) (auto simp: bucket_core_def dest: bucket_wf_data)
    then have "drop pos (concat (map (bucket_data s') data)) = bucket_stored q @ bq_new_back_values q"
      using ch cur(3) by (simp add: core(2))
    moreover have "data = [] \<Longrightarrow> bucket_stored q @ bq_new_back_values q = []"
      using calculation by simp
    ultimately show ?thesis by (auto simp: bucket_items_def bucket_stored_def)
  qed
  moreover have "bucket_rollback ?q' = ?q'"
    by (cases q1) (simp add: bucket_rollback_def cursor_new_def pos_def)
  ultimately show ?thesis by blast
qed

lemma unload_bucket:
  assumes "bucket_wf s (i, b)"
  shows "bucket_wf s (i, NotLoaded (bucket_len b)) \<and> bucket_data s (i, NotLoaded (bucket_len b)) = bucket_data s (i, b)"
  using assms by (cases b) (auto simp: bucket_wf_def bucket_data_def)

lemma bucket_load_items:
  assumes "bucket_ok q"
  shows "bucket_ok (bucket_load (bq_context q))"
    "bucket_items (bucket_load (bq_context q)) = bucket_items (bucket_rollback q)"
proof -
  let ?s = "bq_context q"
  have base: "bucket_core ?s (bq_stored_data q) (bq_stored_position q)"
    and st: "(case bs_stored ?s of None \<Rightarrow> ([], 0) | Some r \<Rightarrow> r) = stored_indices_of (bq_stored_data q) (bq_stored_position q)"
    using assms by (simp_all add: bucket_ok_def bucket_base_def)
  have "bucket_ok (bucket_load ?s) \<and> bucket_items (bucket_load ?s) = bucket_items (bucket_rollback q)"
  proof (cases "bq_stored_data q")
    case Nil
    have "bs_values ?s 0 = None" using base Nil by (simp add: bucket_core_def)
    then have "bucket_load ?s = \<lparr> bq_context = ?s, bq_stored_data = [], bq_new_back_values = [],
        bq_stored_position = bq_stored_position q, bq_cursor = None, bq_delete_storage_first = False \<rparr>"
      using st by (simp add: bucket_load_def stored_indices_of_def Nil cursor_new_def)
    then show ?thesis
      using base st by (simp add: bucket_ok_def bucket_base_def bucket_items_def bucket_stored_def bucket_rollback_def
          cursor_new_def Nil)
  next
    case (Cons x rest)
    define rest' where "rest' = map (\<lambda>(i, b). (i, NotLoaded (bucket_len b) :: 'a bucket)) rest"
    obtain d where x: "x = (0, Loaded d)" and p: "bq_stored_position q < length d" and v: "bs_values ?s 0 = Some d"
      using base Cons by (cases x, cases "snd x") (auto simp: bucket_core_def bucket_wf_def)
    have w: "\<forall>b \<in> set rest. bucket_wf ?s b" using base Cons by (simp add: bucket_core_def)
    have l: "bucket_load ?s = \<lparr> bq_context = ?s, bq_stored_data = x # rest', bq_new_back_values = [],
        bq_stored_position = bq_stored_position q, bq_cursor = Some (0, bq_stored_position q),
        bq_delete_storage_first = False \<rparr>"
      using st by (simp add: bucket_load_def stored_indices_of_def Cons cursor_new_def v x rest'_def comp_def case_prod_beta)
    have same: "map (bucket_data ?s) rest' = map (bucket_data ?s) rest" "\<forall>b \<in> set rest'. bucket_wf ?s b"
      "map fst rest' = map fst rest"
      "map (\<lambda>(i, b). (bucket_len b, i)) rest' = map (\<lambda>(i, b). (bucket_len b, i)) rest"
      using w unload_bucket [of ?s] by (auto simp: rest'_def comp_def case_prod_beta)
    have "bucket_core ?s (x # rest') (bq_stored_position q)"
      using base same(2,3) Cons by (simp add: bucket_core_def) (metis list.set_map)
    moreover have "stored_indices_of (x # rest') = stored_indices_of (bq_stored_data q)"
      using same(4) by (simp add: fun_eq_iff stored_indices_of_def Cons)
    ultimately have "bucket_ok (bucket_load ?s)"
      using st p by (simp add: bucket_ok_def bucket_base_def l x)
    then show ?thesis
      using same(1) by (simp add: l bucket_items_def bucket_stored_def bucket_rollback_def cursor_new_def Cons cong: map_cong)
  qed
  then show "bucket_ok (bucket_load (bq_context q))"
    "bucket_items (bucket_load (bq_context q)) = bucket_items (bucket_rollback q)" by simp_all
qed





end
