(* ===== verification/Inbox.thy ===== *)
theory Inbox
  imports Certificates Buckets
begin

text \<open>
  The inbox of a chain for one sender (\<open>linera-chain/src/inbox.rs\<close>): bundles are added by
  cross-chain requests and removed by the blocks of the receiver, in the order of their
  cursors, and may be removed before they are added. The two queues are queue views.
  An operation that fails returns the inbox it left behind.
\<close>

section \<open>The model\<close>

datatype cursor = Cursor (cursor_height: block_height) (cursor_index: u32)

instantiation cursor :: linorder
begin

definition less_eq_cursor :: "cursor \<Rightarrow> cursor \<Rightarrow> bool" where
  "less_eq_cursor a b \<longleftrightarrow> cursor_height a < cursor_height b \<or> cursor_height a = cursor_height b \<and> cursor_index a \<le> cursor_index b"

definition less_cursor :: "cursor \<Rightarrow> cursor \<Rightarrow> bool" where
  "less_cursor a b \<longleftrightarrow> cursor_height a < cursor_height b \<or> cursor_height a = cursor_height b \<and> cursor_index a < cursor_index b"

instance
  by standard (auto simp: less_eq_cursor_def less_cursor_def cursor.expand)

end

lemmas cursor_order_defs = less_eq_cursor_def less_cursor_def

definition bundle_cursor :: "message_bundle \<Rightarrow> cursor" where
  "bundle_cursor b = Cursor (mb_height b) (mb_transaction_index b)"

definition cursor_try_add_one :: "cursor \<Rightarrow> (cursor, arithmetic_error) result" where
  "cursor_try_add_one c =
    and_then (ok_or (checked_add (cursor_index c) 1) Overflow) (\<lambda>i. Ok (Cursor (cursor_height c) i))"

record inbox =
  next_cursor_to_add :: cursor
  next_cursor_to_remove :: cursor
  added_bundles :: "message_bundle queue_view"
  removed_bundles :: "message_bundle queue_view"

datatype inbox_error =
    InboxView view_error
  | InboxArithmetic arithmetic_error
  | UnexpectedBundle message_bundle message_bundle
  | IncorrectOrder message_bundle cursor
  | UnskippableBundle message_bundle

definition chain_error_of_inbox :: "chain_id \<Rightarrow> chain_id \<Rightarrow> inbox_error \<Rightarrow> chain_error" where
  "chain_error_of_inbox chain origin e =
    (case e of
       InboxView _ \<Rightarrow> ChainInternalError ''view error''
     | InboxArithmetic a \<Rightarrow> ChainArithmeticError a
     | UnexpectedBundle b previous \<Rightarrow> UnexpectedMessage chain origin b previous
     | IncorrectOrder b c \<Rightarrow> IncorrectMessageOrder chain origin b (cursor_height c) (cursor_index c)
     | UnskippableBundle b \<Rightarrow> CannotSkipMessage chain origin b)"

definition next_block_height_to_receive :: "inbox \<Rightarrow> (block_height, arithmetic_error) result" where
  "next_block_height_to_receive ib =
    (let c = next_cursor_to_add ib in
     if cursor_index c = 0 then Ok (cursor_height c) else try_add_one (cursor_height c))"

definition discard_step :: "cursor \<Rightarrow> message_bundle \<Rightarrow> inbox_error loop_step" where
  "discard_step c previous =
    (if c \<le> bundle_cursor previous then Break
     else if bundle_is_skippable previous then Continue
     else Throw (UnskippableBundle previous))"

definition advance_removed :: "inbox \<Rightarrow> cursor \<Rightarrow> bool \<Rightarrow> inbox \<times> (bool, inbox_error) result" where
  "advance_removed ib c already_known =
    (case cursor_try_add_one c of
       Err e \<Rightarrow> (ib, Err (InboxArithmetic e))
     | Ok c' \<Rightarrow> (ib\<lparr> next_cursor_to_remove := c' \<rparr>, Ok already_known))"

definition remove_bundle :: "inbox \<Rightarrow> message_bundle \<Rightarrow> inbox \<times> (bool, inbox_error) result" where
  "remove_bundle ib b =
    (let c = bundle_cursor b in
     if c < next_cursor_to_remove ib then (ib, Err (IncorrectOrder b (next_cursor_to_remove ib)))
     else
       case drain (Suc (queue_count (added_bundles ib))) queue_front (Ok \<circ> queue_delete_front) (discard_step c) (added_bundles ib) of
         (q, _, Some (Inl e)) \<Rightarrow> (ib\<lparr> added_bundles := q \<rparr>, Err e)
       | (q, _, Some (Inr v)) \<Rightarrow> (ib\<lparr> added_bundles := q \<rparr>, Err (InboxView v))
       | (q, _, None) \<Rightarrow>
          let ib = ib\<lparr> added_bundles := q \<rparr> in
          case queue_front q of
            Some previous \<Rightarrow>
             if b \<noteq> previous then (ib, Err (UnexpectedBundle b previous))
             else advance_removed (ib\<lparr> added_bundles := queue_delete_front q \<rparr>) c True
          | None \<Rightarrow> advance_removed (ib\<lparr> removed_bundles := queue_push_back (removed_bundles ib) b \<rparr>) c False)"

definition advance_added :: "inbox \<Rightarrow> cursor \<Rightarrow> bool \<Rightarrow> inbox \<times> (bool, inbox_error) result" where
  "advance_added ib c newly_added =
    (case cursor_try_add_one c of
       Err e \<Rightarrow> (ib, Err (InboxArithmetic e))
     | Ok c' \<Rightarrow> (ib\<lparr> next_cursor_to_add := c' \<rparr>, Ok newly_added))"

definition add_bundle :: "inbox \<Rightarrow> message_bundle \<Rightarrow> inbox \<times> (bool, inbox_error) result" where
  "add_bundle ib b =
    (let c = bundle_cursor b in
     if c < next_cursor_to_add ib then (ib, Err (IncorrectOrder b (next_cursor_to_add ib)))
     else
       case queue_front (removed_bundles ib) of
         Some previous \<Rightarrow>
          if bundle_cursor previous = c then
            if b \<noteq> previous then (ib, Err (UnexpectedBundle b previous))
            else advance_added (ib\<lparr> removed_bundles := queue_delete_front (removed_bundles ib) \<rparr>) c False
          else if c < bundle_cursor previous \<and> bundle_is_skippable b then advance_added ib c False
          else (ib, Err (UnexpectedBundle b previous))
       | None \<Rightarrow> advance_added (ib\<lparr> added_bundles := queue_push_back (added_bundles ib) b \<rparr>) c True)"

section \<open>The queues of an inbox are determined by its history\<close>

definition inbox_new :: inbox where
  "inbox_new =
    (let empty = queue_load \<lparr> qs_indices = None, qs_values = Map.empty \<rparr>
     in \<lparr> next_cursor_to_add = Cursor 0 0, next_cursor_to_remove = Cursor 0 0,
          added_bundles = empty, removed_bundles = empty \<rparr>)"

definition inbox_save :: "inbox \<Rightarrow> inbox" where
  "inbox_save ib = ib\<lparr> added_bundles := queue_save (added_bundles ib), removed_bundles := queue_save (removed_bundles ib) \<rparr>"

text \<open>The inbox after bundles have been added and removed, with the two histories.\<close>

inductive inbox_run :: "inbox \<Rightarrow> message_bundle list \<Rightarrow> message_bundle list \<Rightarrow> bool" where
  start: "inbox_run inbox_new [] []"
| add: "inbox_run ib A R \<Longrightarrow> add_bundle ib b = (ib', Ok x) \<Longrightarrow> inbox_run ib' (A @ [b]) R"
| remove: "inbox_run ib A R \<Longrightarrow> remove_bundle ib b = (ib', Ok x) \<Longrightarrow> inbox_run ib' A (R @ [b])"
| save: "inbox_run ib A R \<Longrightarrow> inbox_run (inbox_save ib) A R"

definition increasing :: "message_bundle list \<Rightarrow> bool" where
  "increasing bs \<longleftrightarrow> sorted_wrt (\<lambda>a b. bundle_cursor a < bundle_cursor b) bs"

text \<open>The least cursor after a history.\<close>

definition next_after :: "message_bundle list \<Rightarrow> cursor \<Rightarrow> bool" where
  "next_after bs c \<longleftrightarrow> (\<forall>b \<in> set bs. bundle_cursor b < c) \<and> (\<forall>c' < c. bs \<noteq> [] \<and> c' \<le> bundle_cursor (last bs))"

definition inbox_inv :: "inbox \<Rightarrow> message_bundle list \<Rightarrow> message_bundle list \<Rightarrow> bool" where
  "inbox_inv ib A R \<longleftrightarrow>
    queue_ok (added_bundles ib) \<and> queue_ok (removed_bundles ib) \<and> increasing A \<and> increasing R \<and>
    next_after A (next_cursor_to_add ib) \<and> next_after R (next_cursor_to_remove ib) \<and>
    queue_items (added_bundles ib) = filter (\<lambda>b. next_cursor_to_remove ib \<le> bundle_cursor b) A \<and>
    queue_items (removed_bundles ib) = filter (\<lambda>b. next_cursor_to_add ib \<le> bundle_cursor b) R \<and>
    (\<forall>b \<in> set R. bundle_cursor b < next_cursor_to_add ib \<longrightarrow> b \<in> set A) \<and>
    (\<forall>b \<in> set A. bundle_cursor b < next_cursor_to_remove ib \<longrightarrow> b \<in> set R \<or> bundle_is_skippable b)"

lemma cursor_overflow: "(\<exists>c'. cursor_try_add_one c = Ok c') \<longleftrightarrow> cursor_index c \<noteq> - 1"
proof -
  have "unat (cursor_index c) + 1 < 2 ^ 32 \<longleftrightarrow> cursor_index c \<noteq> - 1"
    using unat_lt [of "cursor_index c"]
    by (auto simp: word_unat_eq_iff unsigned_minus_1_eq_mask mask_eq_exp_minus_1)
  then show ?thesis by (simp add: cursor_try_add_one_def checked_add_def ok_or_def)
qed

lemma cursor_succ: "cursor_try_add_one c = Ok c' \<Longrightarrow> x < c' \<longleftrightarrow> x \<le> c"
  by (cases c; cases x)
    (auto simp: cursor_try_add_one_def result_elims checked_add_Some cursor_order_defs word_less_nat_alt word_le_nat_alt)

lemma cursor_succ_le: "cursor_try_add_one c = Ok c' \<Longrightarrow> c' \<le> x \<longleftrightarrow> c < x"
  using cursor_succ [of c c' x] by (metis not_le)

lemma next_after_append:
  assumes "next_after bs n" "n \<le> bundle_cursor b" "cursor_try_add_one (bundle_cursor b) = Ok c'"
  shows "next_after (bs @ [b]) c'"
  using assms cursor_succ [OF assms(3)] unfolding next_after_def by (fastforce intro: order.strict_trans2)

lemma increasing_append:
  "increasing bs \<Longrightarrow> next_after bs n \<Longrightarrow> n \<le> bundle_cursor b \<Longrightarrow> increasing (bs @ [b])"
  unfolding increasing_def next_after_def by (auto simp: sorted_wrt_append intro: order.strict_trans2)

lemma increasing_unique:
  assumes "increasing bs" "a \<in> set bs" "b \<in> set bs" "bundle_cursor a = bundle_cursor b"
  shows "a = b"
  using assms by (induction bs) (auto simp: increasing_def)

lemma increasing_filter_Cons:
  assumes "increasing bs" "filter (\<lambda>b. n \<le> bundle_cursor b) bs = x # xs"
  shows "x \<in> set bs" "n \<le> bundle_cursor x" "\<And>b. b \<in> set bs \<Longrightarrow> n \<le> bundle_cursor b \<Longrightarrow> b \<noteq> x \<Longrightarrow> bundle_cursor x < bundle_cursor b"
    "filter (\<lambda>b. bundle_cursor x < bundle_cursor b) bs = xs"
proof -
  have x: "x \<in> set (filter (\<lambda>b. n \<le> bundle_cursor b) bs)" using assms(2) by simp
  then show "x \<in> set bs" "n \<le> bundle_cursor x" by simp_all
  have inc: "increasing (x # xs)"
    using assms by (metis increasing_def sorted_wrt_filter)
  show "bundle_cursor x < bundle_cursor b" if "b \<in> set bs" "n \<le> bundle_cursor b" "b \<noteq> x" for b
  proof -
    have "b \<in> set (filter (\<lambda>b. n \<le> bundle_cursor b) bs)" using that by simp
    then have "b \<in> set (x # xs)" by (simp only: assms(2))
    then show ?thesis using inc that(3) by (auto simp: increasing_def)
  qed
  have "filter (\<lambda>b. bundle_cursor x < bundle_cursor b) bs =
      filter (\<lambda>b. bundle_cursor x < bundle_cursor b) (filter (\<lambda>b. n \<le> bundle_cursor b) bs)"
    using \<open>n \<le> bundle_cursor x\<close> by (auto intro: filter_cong dest: order.trans less_imp_le)
  also have "\<dots> = xs"
    using inc by (auto simp: assms(2) increasing_def filter_id_conv)
  finally show "filter (\<lambda>b. bundle_cursor x < bundle_cursor b) bs = xs" .
qed

lemma increasing_dropWhile:
  assumes "increasing bs" "\<And>x. x \<in> set bs \<Longrightarrow> P x \<Longrightarrow> bundle_cursor x < c"
    and "\<And>x xs. dropWhile P bs = x # xs \<Longrightarrow> c \<le> bundle_cursor x"
  shows "dropWhile P bs = filter (\<lambda>b. c \<le> bundle_cursor b) bs"
    and "\<forall>b \<in> set bs. bundle_cursor b < c \<longrightarrow> P b"
proof -
  have low: "\<not> c \<le> bundle_cursor x" if "x \<in> set (takeWhile P bs)" for x
    using set_takeWhileD [OF that] assms(2) by (simp add: not_le)
  have high: "c \<le> bundle_cursor x" if "x \<in> set (dropWhile P bs)" for x
  proof (cases "dropWhile P bs")
    case (Cons y ys)
    have "increasing (takeWhile P bs @ y # ys)" using assms(1) Cons by (metis takeWhile_dropWhile_id)
    then have "x = y \<or> bundle_cursor y < bundle_cursor x"
      using that Cons by (simp add: increasing_def sorted_wrt_append) blast
    then show ?thesis using assms(3) [OF Cons] by (metis order.strict_trans1 order.strict_implies_order)
  next
    case Nil
    then have "x \<in> set []" using that by (simp only:)
    then show ?thesis by simp
  qed
  have "filter (\<lambda>b. c \<le> bundle_cursor b) (takeWhile P bs) = []"
    "filter (\<lambda>b. c \<le> bundle_cursor b) (dropWhile P bs) = dropWhile P bs"
    using low high by (simp_all add: filter_empty_conv filter_id_conv)
  then show "dropWhile P bs = filter (\<lambda>b. c \<le> bundle_cursor b) bs"
    by (metis append_Nil filter_append takeWhile_dropWhile_id)
  show "\<forall>b \<in> set bs. bundle_cursor b < c \<longrightarrow> P b"
  proof (intro ballI impI)
    fix b assume "b \<in> set bs" "bundle_cursor b < c"
    then have "b \<in> set (takeWhile P bs)"
      using high by (metis Un_iff leD set_append takeWhile_dropWhile_id)
    then show "P b" by (rule set_takeWhileD [THEN conjunct2])
  qed
qed

lemma inbox_invD:
  assumes "inbox_inv ib A R"
  shows "queue_ok (added_bundles ib)" "queue_ok (removed_bundles ib)" "increasing A" "increasing R"
    "next_after A (next_cursor_to_add ib)" "next_after R (next_cursor_to_remove ib)"
    "queue_items (added_bundles ib) = filter (\<lambda>b. next_cursor_to_remove ib \<le> bundle_cursor b) A"
    "queue_items (removed_bundles ib) = filter (\<lambda>b. next_cursor_to_add ib \<le> bundle_cursor b) R"
    "\<And>b. b \<in> set R \<Longrightarrow> bundle_cursor b < next_cursor_to_add ib \<Longrightarrow> b \<in> set A"
    "\<And>b. b \<in> set A \<Longrightarrow> bundle_cursor b < next_cursor_to_remove ib \<Longrightarrow> b \<in> set R \<or> bundle_is_skippable b"
  using assms by (simp_all add: inbox_inv_def)

lemma inbox_invI:
  assumes "queue_ok (added_bundles ib)" "queue_ok (removed_bundles ib)" "increasing A" "increasing R"
    "next_after A (next_cursor_to_add ib)" "next_after R (next_cursor_to_remove ib)"
    "queue_items (added_bundles ib) = filter (\<lambda>b. next_cursor_to_remove ib \<le> bundle_cursor b) A"
    "queue_items (removed_bundles ib) = filter (\<lambda>b. next_cursor_to_add ib \<le> bundle_cursor b) R"
    "\<And>b. b \<in> set R \<Longrightarrow> bundle_cursor b < next_cursor_to_add ib \<Longrightarrow> b \<in> set A"
    "\<And>b. b \<in> set A \<Longrightarrow> bundle_cursor b < next_cursor_to_remove ib \<Longrightarrow> b \<in> set R \<or> bundle_is_skippable b"
  shows "inbox_inv ib A R"
  using assms by (simp add: inbox_inv_def)

lemma advance_added_Ok: "advance_added ib c k = (ib', Ok x) \<longleftrightarrow>
    (\<exists>c'. cursor_try_add_one c = Ok c' \<and> ib' = ib\<lparr> next_cursor_to_add := c' \<rparr> \<and> x = k)"
  by (auto simp: advance_added_def split: result.splits)

lemma advance_removed_Ok: "advance_removed ib c k = (ib', Ok x) \<longleftrightarrow>
    (\<exists>c'. cursor_try_add_one c = Ok c' \<and> ib' = ib\<lparr> next_cursor_to_remove := c' \<rparr> \<and> x = k)"
  by (auto simp: advance_removed_def split: result.splits)

lemma add_bundle_empty:
  assumes "queue_front (removed_bundles ib) = None" "add_bundle ib b = (ib', Ok x)"
  obtains c' where "next_cursor_to_add ib \<le> bundle_cursor b" "cursor_try_add_one (bundle_cursor b) = Ok c'"
    "ib' = ib\<lparr> added_bundles := queue_push_back (added_bundles ib) b, next_cursor_to_add := c' \<rparr>" "x"
  using assms(2) unfolding add_bundle_def Let_def assms(1) option.case
  by (cases "bundle_cursor b < next_cursor_to_add ib") (auto simp: advance_added_Ok)

lemma add_bundle_known:
  assumes "queue_front (removed_bundles ib) = Some previous" "add_bundle ib b = (ib', Ok x)"
  obtains (known) c' where "next_cursor_to_add ib \<le> bundle_cursor b" "cursor_try_add_one (bundle_cursor b) = Ok c'"
      "b = previous" "\<not> x"
      "ib' = ib\<lparr> removed_bundles := queue_delete_front (removed_bundles ib), next_cursor_to_add := c' \<rparr>"
  | (skip) c' where "next_cursor_to_add ib \<le> bundle_cursor b" "cursor_try_add_one (bundle_cursor b) = Ok c'"
      "bundle_cursor b < bundle_cursor previous" "bundle_is_skippable b" "\<not> x"
      "ib' = ib\<lparr> next_cursor_to_add := c' \<rparr>"
proof -
  have le: "\<not> bundle_cursor b < next_cursor_to_add ib"
    using assms(2) unfolding add_bundle_def Let_def by (rule contrapos_pn) simp
  show thesis
  proof (cases "bundle_cursor previous = bundle_cursor b")
    case True
    have "b = previous"
      using assms(2) True le unfolding add_bundle_def Let_def assms(1) option.case by (rule_tac ccontr) simp
    moreover from this have "advance_added (ib\<lparr> removed_bundles := queue_delete_front (removed_bundles ib) \<rparr>)
        (bundle_cursor b) False = (ib', Ok x)"
      using assms(2) le unfolding add_bundle_def Let_def assms(1) option.case by simp
    ultimately show thesis
      using le known by (auto simp: advance_added_Ok)
  next
    case False
    have "bundle_cursor b < bundle_cursor previous \<and> bundle_is_skippable b"
      using assms(2) False le unfolding add_bundle_def Let_def assms(1) option.case by (rule_tac ccontr) simp
    moreover from this have "advance_added ib (bundle_cursor b) False = (ib', Ok x)"
      using assms(2) le False unfolding add_bundle_def Let_def assms(1) option.case by simp
    ultimately show thesis
      using le skip by (auto simp: advance_added_Ok)
  qed
qed

lemma filter_after:
  assumes "next_after bs n" "\<And>b. P b \<Longrightarrow> n \<le> bundle_cursor b"
  shows "filter P bs = []"
  using assms by (auto simp: next_after_def filter_empty_conv dest: leD)

lemma cursors_of_empty_filter: "filter (\<lambda>b. n \<le> bundle_cursor b) bs = [] \<Longrightarrow> b \<in> set bs \<Longrightarrow> bundle_cursor b < n"
  by (simp add: filter_empty_conv not_le)

lemma add_bundle_inv:
  assumes inv: "inbox_inv ib A R" and step: "add_bundle ib b = (ib', Ok x)"
  shows "inbox_inv ib' (A @ [b]) R"
proof (cases "queue_items (removed_bundles ib)")
  note I = inbox_invD [OF inv]
  case Nil
  then have "queue_front (removed_bundles ib) = None" using queue_front_items [OF I(2)] by simp
  from add_bundle_empty [OF this step] obtain c' where c': "next_cursor_to_add ib \<le> bundle_cursor b"
    "cursor_try_add_one (bundle_cursor b) = Ok c'"
    "ib' = ib\<lparr> added_bundles := queue_push_back (added_bundles ib) b, next_cursor_to_add := c' \<rparr>" by blast
  have R: "bundle_cursor r < next_cursor_to_add ib" if "r \<in> set R" for r
    using cursors_of_empty_filter [OF I(8) [symmetric, unfolded Nil] that] .
  have le: "next_cursor_to_remove ib \<le> bundle_cursor b"
    using I(6) R c'(1) unfolding next_after_def by (metis last_in_set leD leI order.strict_trans2)
  have above: "filter (\<lambda>b. c' \<le> bundle_cursor b) R = []"
    using R c'(1) cursor_succ_le [OF c'(2)] by (auto simp: filter_empty_conv dest: order.strict_trans2 order.asym)
  have "a \<in> set R \<or> bundle_is_skippable a" if "a \<in> set (A @ [b])" "bundle_cursor a < next_cursor_to_remove ib" for a
    using I(10) [OF _ that(2)] that le by (auto dest: leD)
  then show ?thesis
    unfolding c'(3)
    by (intro inbox_invI)
      (use I R le above c' increasing_append [OF I(3) I(5) c'(1)] next_after_append [OF I(5) c'(1) c'(2)] in
        \<open>simp_all add: queue_push_back_items Nil leD\<close>)
next
  note I = inbox_invD [OF inv]
  case (Cons previous rest)
  then have "queue_front (removed_bundles ib) = Some previous" using queue_front_items [OF I(2)] by simp
  note F = increasing_filter_Cons [OF I(4) I(8) [symmetric, unfolded Cons]]
  note prev_lt = I(6) [unfolded next_after_def, THEN conjunct1, rule_format, OF F(1)]
  from \<open>queue_front (removed_bundles ib) = Some previous\<close> step show ?thesis
  proof (cases rule: add_bundle_known)
    case (known c')
    have "r \<in> set (A @ [b])" if "r \<in> set R" "bundle_cursor r < c'" for r
      using F(3) [OF that(1)] I(9) [OF that(1)] that(2) known(3) unfolding cursor_succ [OF known(2)]
      by (cases "bundle_cursor r < next_cursor_to_add ib") (auto simp: not_less dest: leD)
    moreover have "a \<in> set R \<or> bundle_is_skippable a"
      if "a \<in> set (A @ [b])" "bundle_cursor a < next_cursor_to_remove ib" for a
      using I(10) [OF _ that(2)] that F(1) known(3) by auto
    moreover have "tl (filter (\<lambda>b. next_cursor_to_add ib \<le> bundle_cursor b) R) = rest"
      by (simp add: I(8) [symmetric] Cons)
    ultimately show ?thesis
      unfolding known(5)
      by (intro inbox_invI)
        (use I prev_lt F known increasing_append [OF I(3) I(5) known(1)] next_after_append [OF I(5) known(1) known(2)] in
          \<open>simp_all add: queue_delete_front_items Cons cursor_succ_le leD\<close>)
  next
    case (skip c')
    have lt: "bundle_cursor b < next_cursor_to_remove ib" using skip(3) prev_lt by (rule order.strict_trans)
    have "r \<in> set (A @ [b])" if "r \<in> set R" "bundle_cursor r < c'" for r
      using F(3) [OF that(1)] I(9) [OF that(1)] that(2) skip(3) unfolding cursor_succ [OF skip(2)]
      by (cases "bundle_cursor r < next_cursor_to_add ib") (auto simp: not_less dest: leD order.strict_trans)
    moreover have "filter (\<lambda>b. c' \<le> bundle_cursor b) R = filter (\<lambda>b. next_cursor_to_add ib \<le> bundle_cursor b) R"
      using F(3) skip(1,3) unfolding cursor_succ_le [OF skip(2)]
      by (intro filter_cong refl) (metis order.strict_trans order.strict_implies_order order.trans)
    moreover have "a \<in> set R \<or> bundle_is_skippable a"
      if "a \<in> set (A @ [b])" "bundle_cursor a < next_cursor_to_remove ib" for a
      using I(10) [OF _ that(2)] that skip(4) by auto
    ultimately show ?thesis
      unfolding skip(6)
      by (intro inbox_invI)
        (use I lt skip increasing_append [OF I(3) I(5) skip(1)] next_after_append [OF I(5) skip(1) skip(2)] in
          \<open>simp_all add: leD\<close>)
  qed
qed

lemma discard_drain:
  assumes "queue_ok q" "increasing (queue_items q)"
    and "drain (Suc (queue_count q)) queue_front (Ok \<circ> queue_delete_front) (discard_step c) q = (q', popped, None)"
  shows "queue_ok q'" "queue_items q' = filter (\<lambda>b. c \<le> bundle_cursor b) (queue_items q)"
    "\<forall>b \<in> set (queue_items q). bundle_cursor b < c \<longrightarrow> bundle_is_skippable b"
proof -
  define P where "P = (\<lambda>x. discard_step c x = Continue)"
  have P: "P x \<longleftrightarrow> bundle_cursor x < c \<and> bundle_is_skippable x" for x
    by (auto simp: P_def discard_step_def not_le dest: leD)
  from queue_fifo.drain_total [OF assms(1), of "Suc (queue_count q)" "discard_step c"] assms(3)
  have q': "queue_ok q'" "queue_items q' = dropWhile P (queue_items q)"
    and "(case list_front (dropWhile P (queue_items q)) of
         None \<Rightarrow> None | Some x \<Rightarrow> (case discard_step c x of Throw e \<Rightarrow> Some (Inl e :: inbox_error + view_error) | _ \<Rightarrow> None)) = None"
    by (auto simp: queue_count_items [OF assms(1)] P_def)
  then have stop: "c \<le> bundle_cursor x" if "dropWhile P (queue_items q) = x # xs" for x xs
    using that dropWhile_eq_Cons_conv [of P "queue_items q" x xs] by (auto simp: P discard_step_def split: if_splits)
  note split = increasing_dropWhile [OF assms(2) _ stop, of P]
  show "queue_ok q'" by (rule q')
  show "queue_items q' = filter (\<lambda>b. c \<le> bundle_cursor b) (queue_items q)"
    unfolding q'(2) by (rule split(1)) (simp_all add: P)
  have "\<forall>b \<in> set (queue_items q). bundle_cursor b < c \<longrightarrow> P b"
    by (rule split(2)) (simp_all add: P)
  then show "\<forall>b \<in> set (queue_items q). bundle_cursor b < c \<longrightarrow> bundle_is_skippable b"
    by (simp add: P)
qed

lemma discard_drain_complete:
  assumes "queue_ok q" "\<forall>b \<in> set (queue_items q). bundle_cursor b < c \<longrightarrow> bundle_is_skippable b"
  obtains q' popped where
    "drain (Suc (queue_count q)) queue_front (Ok \<circ> queue_delete_front) (discard_step c) q = (q', popped, None)"
proof -
  let ?P = "\<lambda>x. discard_step c x = Continue"
  have "(case list_front (dropWhile ?P (queue_items q)) of
      None \<Rightarrow> None | Some x \<Rightarrow> (case discard_step c x of Throw e \<Rightarrow> Some (Inl e :: inbox_error + view_error) | _ \<Rightarrow> None)) = None"
  proof (cases "dropWhile ?P (queue_items q)")
    case (Cons x xs)
    then have "x \<in> set (queue_items q)" by (metis list.set_intros(1) set_dropWhileD)
    with Cons assms(2) show ?thesis by (simp add: discard_step_def not_le)
  next
    case Nil
    then show ?thesis by (simp only: list_front_def list.case option.case)
  qed
  then show thesis
    using queue_fifo.drain_total [OF assms(1), of "Suc (queue_count q)" "discard_step c"] that
    by (auto simp: queue_count_items [OF assms(1)])
qed

lemma remove_bundle_Ok:
  assumes ok: "queue_ok (added_bundles ib)" "increasing (queue_items (added_bundles ib))"
    and step: "remove_bundle ib b = (ib', Ok x)"
  obtains q c' where "next_cursor_to_remove ib \<le> bundle_cursor b" "cursor_try_add_one (bundle_cursor b) = Ok c'"
    "queue_ok q" "queue_items q = filter (\<lambda>a. bundle_cursor b \<le> bundle_cursor a) (queue_items (added_bundles ib))"
    "\<forall>a \<in> set (queue_items (added_bundles ib)). bundle_cursor a < bundle_cursor b \<longrightarrow> bundle_is_skippable a"
    "x \<longleftrightarrow> queue_items q \<noteq> []" "x \<longrightarrow> hd (queue_items q) = b"
    "ib' = (if x then ib\<lparr> added_bundles := queue_delete_front q, next_cursor_to_remove := c' \<rparr>
      else ib\<lparr> added_bundles := q, removed_bundles := queue_push_back (removed_bundles ib) b, next_cursor_to_remove := c' \<rparr>)"
proof -
  obtain q popped res where drain: "drain (Suc (queue_count (added_bundles ib))) queue_front (Ok \<circ> queue_delete_front)
      (discard_step (bundle_cursor b)) (added_bundles ib) = (q, popped, res)"
    by (metis prod_cases3)
  have le: "\<not> bundle_cursor b < next_cursor_to_remove ib"
    using step unfolding remove_bundle_def Let_def by (rule contrapos_pn) simp
  have res: "res = None"
    using step le unfolding remove_bundle_def Let_def drain by (auto split: option.splits sum.splits)
  note D = discard_drain [OF ok drain [unfolded res]]
  show thesis
  proof (cases "queue_items q")
    case Nil
    then have "queue_front q = None" using queue_front_items [OF D(1)] by simp
    then show thesis
      using step le that [OF _ _ D] Nil unfolding remove_bundle_def Let_def drain res
      by (auto simp: advance_removed_Ok not_less)
  next
    case (Cons previous rest)
    then have front: "queue_front q = Some previous" using queue_front_items [OF D(1)] by simp
    then have "b = previous"
      using step le unfolding remove_bundle_def Let_def drain res by (rule_tac ccontr) simp
    with front step le
    have "advance_removed (ib\<lparr> added_bundles := queue_delete_front q \<rparr>) (bundle_cursor b) True = (ib', Ok x)"
      unfolding remove_bundle_def Let_def drain res by simp
    with \<open>b = previous\<close> show thesis
      using le that [OF _ _ D] Cons by (auto simp: advance_removed_Ok not_less)
  qed
qed

lemma remove_bundle_inv:
  assumes inv: "inbox_inv ib A R" and step: "remove_bundle ib b = (ib', Ok x)"
  shows "inbox_inv ib' A (R @ [b])"
proof -
  note I = inbox_invD [OF inv]
  have inc: "increasing (queue_items (added_bundles ib))"
    using I(3) unfolding I(7) increasing_def by (rule sorted_wrt_filter)
  from remove_bundle_Ok [OF I(1) inc step] obtain q c' where le: "next_cursor_to_remove ib \<le> bundle_cursor b"
    and c': "cursor_try_add_one (bundle_cursor b) = Ok c'" and q: "queue_ok q"
    and items: "queue_items q = filter (\<lambda>a. bundle_cursor b \<le> bundle_cursor a) (queue_items (added_bundles ib))"
    and skip: "\<forall>a \<in> set (queue_items (added_bundles ib)). bundle_cursor a < bundle_cursor b \<longrightarrow> bundle_is_skippable a"
    and x: "x \<longleftrightarrow> queue_items q \<noteq> []" "x \<longrightarrow> hd (queue_items q) = b"
    and ib': "ib' = (if x then ib\<lparr> added_bundles := queue_delete_front q, next_cursor_to_remove := c' \<rparr>
      else ib\<lparr> added_bundles := q, removed_bundles := queue_push_back (removed_bundles ib) b, next_cursor_to_remove := c' \<rparr>)" .
  have items': "queue_items q = filter (\<lambda>a. bundle_cursor b \<le> bundle_cursor a) A"
    unfolding items I(7) filter_filter using le by (auto intro: filter_cong dest: order.trans)
  have cov: "a \<in> set (R @ [b]) \<or> bundle_is_skippable a" if a: "a \<in> set A" "bundle_cursor a < c'"
      and eq: "bundle_cursor a = bundle_cursor b \<Longrightarrow> a = b" for a
    using I(10) [OF a(1)] a skip eq unfolding cursor_succ [OF c'] I(7)
    by (cases "bundle_cursor a < next_cursor_to_remove ib") (auto simp: not_less order.order_iff_strict)
  note append = increasing_append [OF I(4) I(6) le] next_after_append [OF I(6) le c']
  show ?thesis
  proof (cases x)
    case True
    then obtain rest where qi: "filter (\<lambda>a. bundle_cursor b \<le> bundle_cursor a) A = b # rest"
      using x items' by (metis list.collapse)
    note F = increasing_filter_Cons [OF I(3) qi]
    have lt: "bundle_cursor b < next_cursor_to_add ib" using I(5) F(1) by (simp add: next_after_def)
    have "a \<in> set (R @ [b]) \<or> bundle_is_skippable a" if "a \<in> set A" "bundle_cursor a < c'" for a
      using that by (rule cov) (use F(3) [OF that(1)] in auto)
    with True show ?thesis
      unfolding ib'
      by (intro inbox_invI)
        (use I(1-9) append F(1,4) lt q items' qi in \<open>auto simp: queue_delete_front_items cursor_succ_le [OF c'] leD\<close>)
  next
    case False
    then have none: "filter (\<lambda>a. bundle_cursor b \<le> bundle_cursor a) A = []" using x items' by simp
    have A: "bundle_cursor a < bundle_cursor b" if "a \<in> set A" for a
      using cursors_of_empty_filter [OF none that] .
    have ge: "next_cursor_to_add ib \<le> bundle_cursor b"
      using I(5) A unfolding next_after_def by (metis last_in_set leD leI)
    have "a \<in> set (R @ [b]) \<or> bundle_is_skippable a" if "a \<in> set A" "bundle_cursor a < c'" for a
      using that by (rule cov) (use A [OF that(1)] in auto)
    moreover have "filter (\<lambda>a. c' \<le> bundle_cursor a) A = []"
      using A unfolding cursor_succ_le [OF c'] by (auto simp: filter_empty_conv dest: order.asym)
    ultimately show ?thesis
      unfolding ib' using False
      by (intro inbox_invI)
        (use I(1-9) append ge q items' none in \<open>auto simp: queue_push_back_items leD\<close>)
  qed
qed

lemma queue_empty_load: "queue_ok (queue_load \<lparr> qs_indices = None, qs_values = Map.empty \<rparr>)
    \<and> queue_items (queue_load \<lparr> qs_indices = None, qs_values = Map.empty \<rparr>) = []"
  by (simp add: queue_load_def queue_ok_def queue_items_def queue_stored_def Let_def)

lemma inbox_new_inv: "inbox_inv inbox_new [] []"
proof -
  have least: "\<not> c < Cursor 0 0" for c
    by (cases c) (simp add: cursor_order_defs)
  show ?thesis
    using queue_empty_load least by (simp add: inbox_inv_def inbox_new_def Let_def increasing_def next_after_def)
qed

lemma inbox_run_inv: "inbox_run ib A R \<Longrightarrow> inbox_inv ib A R"
proof (induction rule: inbox_run.induct)
  case (save ib A R)
  note I = inbox_invD [OF save.IH]
  have "queue_ok (queue_save (added_bundles ib)) \<and> queue_items (queue_save (added_bundles ib)) = queue_items (added_bundles ib)"
    "queue_ok (queue_save (removed_bundles ib)) \<and> queue_items (queue_save (removed_bundles ib)) = queue_items (removed_bundles ib)"
    by (intro queue_save_items I)+
  then show ?case by (intro inbox_invI) (use I in \<open>simp_all add: inbox_save_def\<close>)
qed (blast intro: inbox_new_inv add_bundle_inv remove_bundle_inv)+

lemma remove_bundle_accepts:
  assumes inv: "inbox_inv ib A R" and b: "next_cursor_to_remove ib \<le> bundle_cursor b"
    "cursor_try_add_one (bundle_cursor b) = Ok c'"
    and skip: "\<And>a. a \<in> set A \<Longrightarrow> next_cursor_to_remove ib \<le> bundle_cursor a \<Longrightarrow> bundle_cursor a < bundle_cursor b \<Longrightarrow>
      bundle_is_skippable a"
    and known: "bundle_cursor b < next_cursor_to_add ib \<longrightarrow> b \<in> set A"
  shows "\<exists>ib'. remove_bundle ib b = (ib', Ok (b \<in> set A))"
proof -
  note I = inbox_invD [OF inv]
  have inc: "increasing (queue_items (added_bundles ib))"
    using I(3) unfolding I(7) increasing_def by (rule sorted_wrt_filter)
  obtain q popped where drain: "drain (Suc (queue_count (added_bundles ib))) queue_front (Ok \<circ> queue_delete_front)
      (discard_step (bundle_cursor b)) (added_bundles ib) = (q, popped, None)"
    using discard_drain_complete [OF I(1), of "bundle_cursor b"] skip by (auto simp: I(7))
  note D = discard_drain [OF I(1) inc drain]
  have q: "queue_items q = filter (\<lambda>a. bundle_cursor b \<le> bundle_cursor a) A"
    unfolding D(2) I(7) filter_filter using b(1) by (auto intro: filter_cong dest: order.trans)
  show ?thesis
  proof (cases "filter (\<lambda>a. bundle_cursor b \<le> bundle_cursor a) A")
    case Nil
    then have "b \<notin> set A" "queue_front q = None" using queue_front_items [OF D(1)] q by (auto simp: filter_empty_conv)
    with b show ?thesis
      unfolding remove_bundle_def Let_def drain by (simp add: advance_removed_def leD)
  next
    case (Cons previous rest)
    note F = increasing_filter_Cons [OF I(3) Cons]
    have "bundle_cursor b < next_cursor_to_add ib"
      using I(5) F(1,2) unfolding next_after_def by (meson order.strict_trans1)
    then have "b \<in> set A" using known by simp
    then have "previous = b" using F(2) F(3) [of b] by (auto dest: leD)
    moreover have "queue_front q = Some previous" using queue_front_items [OF D(1)] q Cons by simp
    ultimately show ?thesis
      using b \<open>b \<in> set A\<close> unfolding remove_bundle_def Let_def drain by (simp add: advance_removed_def leD)
  qed
qed

lemma remove_bundle_accepted:
  assumes inv: "inbox_inv ib A R" and step: "remove_bundle ib b = (ib', Ok x)"
  shows "next_cursor_to_remove ib \<le> bundle_cursor b" "\<exists>c'. cursor_try_add_one (bundle_cursor b) = Ok c'"
    "\<And>a. a \<in> set A \<Longrightarrow> next_cursor_to_remove ib \<le> bundle_cursor a \<Longrightarrow> bundle_cursor a < bundle_cursor b \<Longrightarrow>
      bundle_is_skippable a"
    "bundle_cursor b < next_cursor_to_add ib \<longrightarrow> b \<in> set A"
proof -
  note I = inbox_invD [OF inv]
  have inc: "increasing (queue_items (added_bundles ib))"
    using I(3) unfolding I(7) increasing_def by (rule sorted_wrt_filter)
  from remove_bundle_Ok [OF I(1) inc step] obtain q c' where le: "next_cursor_to_remove ib \<le> bundle_cursor b"
    and c': "cursor_try_add_one (bundle_cursor b) = Ok c'"
    and items: "queue_items q = filter (\<lambda>a. bundle_cursor b \<le> bundle_cursor a) (queue_items (added_bundles ib))"
    and skip: "\<forall>a \<in> set (queue_items (added_bundles ib)). bundle_cursor a < bundle_cursor b \<longrightarrow> bundle_is_skippable a"
    and x: "x \<longleftrightarrow> queue_items q \<noteq> []" "x \<longrightarrow> hd (queue_items q) = b" .
  show "next_cursor_to_remove ib \<le> bundle_cursor b" "\<exists>c'. cursor_try_add_one (bundle_cursor b) = Ok c'"
    using le c' by blast+
  show "bundle_is_skippable a"
    if "a \<in> set A" "next_cursor_to_remove ib \<le> bundle_cursor a" "bundle_cursor a < bundle_cursor b" for a
    using skip that by (simp add: I(7))
  show "bundle_cursor b < next_cursor_to_add ib \<longrightarrow> b \<in> set A"
  proof
    assume "bundle_cursor b < next_cursor_to_add ib"
    then have "A \<noteq> []" "bundle_cursor b \<le> bundle_cursor (last A)" using I(5) by (simp_all add: next_after_def)
    then have "last A \<in> set (queue_items q)"
      using le by (auto simp: items I(7) intro: order.trans)
    then have "hd (queue_items q) = b" "hd (queue_items q) \<in> set (queue_items q)" using x by auto
    then show "b \<in> set A" by (auto simp: items I(7))
  qed
qed

section \<open>Properties\<close>

text \<open>
  \<^bold>\<open>C15\<close>. After any sequence of additions, removals and saves of an inbox, the bundles waiting in
  the inbox are exactly the received ones at or after the removal cursor, and the bundles
  expected ahead of time are exactly the removed ones at or after the addition cursor. One of
  the two queues is always empty. Every bundle that was removed and whose turn to be received
  has passed was received with the same content, and every received bundle whose turn to be
  removed has passed was removed or could be skipped.
\<close>

theorem inbox_reconciles:
  assumes "inbox_run ib A R"
  shows "queue_items (added_bundles ib) = filter (\<lambda>b. next_cursor_to_remove ib \<le> bundle_cursor b) A
    \<and> queue_items (removed_bundles ib) = filter (\<lambda>b. next_cursor_to_add ib \<le> bundle_cursor b) R
    \<and> (queue_items (added_bundles ib) = [] \<or> queue_items (removed_bundles ib) = [])
    \<and> (\<forall>b \<in> set R. bundle_cursor b < next_cursor_to_add ib \<longrightarrow> b \<in> set A)
    \<and> (\<forall>b \<in> set A. bundle_cursor b < next_cursor_to_remove ib \<longrightarrow> b \<in> set R \<or> bundle_is_skippable b)"
proof -
  note I = inbox_invD [OF inbox_run_inv [OF assms]]
  have "queue_items (added_bundles ib) = []" if "next_cursor_to_add ib \<le> next_cursor_to_remove ib"
    unfolding I(7) using I(5) by (rule filter_after) (use that in \<open>rule order.trans\<close>)
  moreover have "queue_items (removed_bundles ib) = []" if "next_cursor_to_remove ib \<le> next_cursor_to_add ib"
    unfolding I(8) using I(6) by (rule filter_after) (use that in \<open>rule order.trans\<close>)
  ultimately show ?thesis
    using I by (meson linear)
qed

definition demo_bundle :: "block_height \<Rightarrow> bool \<Rightarrow> message_bundle" where
  "demo_bundle h skippable =
    \<lparr> mb_height = h, mb_timestamp = 0, mb_certificate_hash = 5, mb_transaction_index = 0,
      mb_messages = [\<lparr> pm_authenticated_signer = None, pm_grant = 0, pm_refund_grant_to = None,
        pm_kind = (if skippable then Simple else Protected), pm_index = 0, pm_message = UserMsg 9 [1] \<rparr>] \<rparr>"

definition demo_inbox :: inbox where
  "demo_inbox = fst (add_bundle (fst (remove_bundle inbox_new (demo_bundle 3 False))) (demo_bundle 1 True))"

lemmas demo_inbox_simps = demo_inbox_def demo_bundle_def inbox_new_def add_bundle_def remove_bundle_def bundle_cursor_def
  cursor_order_defs cursor_try_add_one_def checked_add_def queue_load_def queue_front_def queue_delete_front_def
  queue_push_back_def queue_count_def queue_stored_count_def queue_items_def queue_stored_def list_front_def
  advance_added_def advance_removed_def ok_or_def Let_def

lemma demo_remove: "\<exists>ib x. remove_bundle inbox_new (demo_bundle 3 False) = (ib, Ok x)"
  by (simp add: demo_inbox_simps) blast

lemma demo_add: "\<exists>x. add_bundle (fst (remove_bundle inbox_new (demo_bundle 3 False))) (demo_bundle 1 True) = (demo_inbox, Ok x)"
  by (simp add: demo_inbox_simps bundle_is_skippable_def message_is_skippable_def) blast

lemma demo_inbox_run: "inbox_run demo_inbox [demo_bundle 1 True] [demo_bundle 3 False]"
  using demo_remove demo_add inbox_run.start inbox_run.add inbox_run.remove
  by (metis append_Nil fst_conv)

lemma demo_inbox_cursors: "next_cursor_to_add demo_inbox = Cursor 1 1" "next_cursor_to_remove demo_inbox = Cursor 3 1"
  by (simp_all add: demo_inbox_simps bundle_is_skippable_def message_is_skippable_def)

theorem inbox_reconciles_witness:
  "inbox_run demo_inbox [demo_bundle 1 True] [demo_bundle 3 False] \<and>
   queue_items (added_bundles demo_inbox) = [] \<and> queue_items (removed_bundles demo_inbox) = [demo_bundle 3 False]"
  using inbox_reconciles [OF demo_inbox_run] demo_inbox_run
  by (simp add: demo_inbox_cursors bundle_cursor_def demo_bundle_def cursor_order_defs)

text \<open>
  \<^bold>\<open>C16\<close>. A block can consume a bundle from the inbox exactly when the bundle is not before the
  removal cursor, no unskippable received bundle before it is still waiting, its turn to be received
  has not passed unless it was received with the same content, and the cursor does not overflow.
  The result says whether the bundle had been received.
\<close>

theorem remove_bundle_exact:
  assumes "inbox_run ib A R"
  shows "if next_cursor_to_remove ib \<le> bundle_cursor b \<and> cursor_index (bundle_cursor b) \<noteq> - 1 \<and>
      (\<forall>a \<in> set A. next_cursor_to_remove ib \<le> bundle_cursor a \<and> bundle_cursor a < bundle_cursor b \<longrightarrow> bundle_is_skippable a) \<and>
      (bundle_cursor b < next_cursor_to_add ib \<longrightarrow> b \<in> set A)
    then \<exists>ib'. remove_bundle ib b = (ib', Ok (b \<in> set A))
    else \<exists>ib' e. remove_bundle ib b = (ib', Err e)"
proof -
  note inv = inbox_run_inv [OF assms]
  show ?thesis
  proof (cases "\<exists>ib' x. remove_bundle ib b = (ib', Ok x)")
    case True
    then obtain ib' x where step: "remove_bundle ib b = (ib', Ok x)" by blast
    note acc = remove_bundle_accepted [OF inv step]
    then have "\<exists>ib'. remove_bundle ib b = (ib', Ok (b \<in> set A))"
      using remove_bundle_accepts [OF inv acc(1)] by blast
    with acc cursor_overflow show ?thesis by simp
  next
    case False
    then obtain ib' e where err: "remove_bundle ib b = (ib', Err e)"
      by (metis result.exhaust surj_pair)
    with remove_bundle_accepts [OF inv] cursor_overflow [of "bundle_cursor b"] show ?thesis by fastforce
  qed
qed

theorem remove_bundle_exact_witness:
  "inbox_run demo_inbox [demo_bundle 1 True] [demo_bundle 3 False] \<and>
   (\<exists>ib'. remove_bundle demo_inbox (demo_bundle 4 True) = (ib', Ok False)) \<and>
   (\<exists>ib' e. remove_bundle demo_inbox (demo_bundle 2 True) = (ib', Err e))"
  using remove_bundle_exact [OF demo_inbox_run, of "demo_bundle 4 True"]
    remove_bundle_exact [OF demo_inbox_run, of "demo_bundle 2 True"] demo_inbox_run
  by (simp add: demo_inbox_cursors bundle_cursor_def demo_bundle_def cursor_order_defs)

end
