(* ===== verification/Outbox.thy ===== *)
theory Outbox
  imports Inbox
begin

text \<open>
  The outbox of a chain for one recipient (\<open>linera-chain/src/outbox.rs\<close>), a bucketed queue of the
  heights of the blocks that still have to be delivered, and the pending blobs of a block
  (\<open>linera-chain/src/pending_blobs.rs\<close>).
\<close>

section \<open>The outbox\<close>

record outbox =
  next_height_to_schedule :: block_height
  outbox_queue :: "block_height bucket_queue"

definition BLOCK_HEIGHT_BUCKET_SIZE :: nat where
  "BLOCK_HEIGHT_BUCKET_SIZE = 1000"

definition schedule_message :: "outbox \<Rightarrow> block_height \<Rightarrow> outbox \<times> (bool, arithmetic_error) result" where
  "schedule_message ob height =
    (if height < next_height_to_schedule ob then (ob, Ok False)
     else
       case try_add_one height of
         Err e \<Rightarrow> (ob, Err e)
       | Ok next \<Rightarrow>
          (ob\<lparr> next_height_to_schedule := next, outbox_queue := bucket_push_back (outbox_queue ob) height \<rparr>, Ok True))"

definition received_step :: "block_height \<Rightarrow> block_height \<Rightarrow> view_error loop_step" where
  "received_step height h = (if height < h then Break else Continue)"

definition outbox_mark_messages_as_received :: "outbox \<Rightarrow> block_height \<Rightarrow> outbox \<times> (block_height list, view_error) result" where
  "outbox_mark_messages_as_received ob height =
    (case drain (Suc (bucket_count (outbox_queue ob))) bucket_front bucket_delete_front (received_step height) (outbox_queue ob) of
       (q, updates, None) \<Rightarrow> (ob\<lparr> outbox_queue := q \<rparr>, Ok updates)
     | (q, _, Some (Inl e)) \<Rightarrow> (ob\<lparr> outbox_queue := q \<rparr>, Err e)
     | (q, _, Some (Inr e)) \<Rightarrow> (ob\<lparr> outbox_queue := q \<rparr>, Err e))"

definition outbox_new :: outbox where
  "outbox_new = \<lparr> next_height_to_schedule = 0, outbox_queue = bucket_load \<lparr> bs_stored = None, bs_values = Map.empty \<rparr> \<rparr>"

definition outbox_save :: "outbox \<Rightarrow> (outbox, view_error) result" where
  "outbox_save ob =
    and_then (bucket_save BLOCK_HEIGHT_BUCKET_SIZE (outbox_queue ob)) (\<lambda>q. Ok (ob\<lparr> outbox_queue := q \<rparr>))"

definition outbox_items :: "outbox \<Rightarrow> block_height list" where
  "outbox_items ob = bucket_items (outbox_queue ob)"

definition outbox_inv :: "outbox \<Rightarrow> bool" where
  "outbox_inv ob \<longleftrightarrow> bucket_ok (outbox_queue ob) \<and> sorted_wrt (<) (outbox_items ob) \<and>
    (\<forall>h \<in> set (outbox_items ob). h < next_height_to_schedule ob)"

text \<open>An outbox after a history of scheduled and of acknowledged heights.\<close>

inductive outbox_run :: "outbox \<Rightarrow> block_height list \<Rightarrow> block_height list \<Rightarrow> bool" where
  start: "outbox_run outbox_new [] []"
| schedule: "outbox_run ob S D \<Longrightarrow> schedule_message ob h = (ob', Ok x) \<Longrightarrow>
    outbox_run ob' (if x then S @ [h] else S) D"
| acknowledge: "outbox_run ob S D \<Longrightarrow> outbox_mark_messages_as_received ob h = (ob', Ok updates) \<Longrightarrow>
    outbox_run ob' S (D @ updates)"
| save: "outbox_run ob S D \<Longrightarrow> outbox_save ob = Ok ob' \<Longrightarrow> outbox_run ob' S D"

lemma outbox_new_inv: "outbox_inv outbox_new" "outbox_items outbox_new = []"
  by (simp_all add: outbox_inv_def outbox_new_def outbox_items_def bucket_ok_def bucket_base_def bucket_core_def
      bucket_load_def cursor_new_def stored_indices_of_def bucket_items_def bucket_stored_def)

lemma schedule_message_Ok:
  assumes "outbox_inv ob" "schedule_message ob h = (ob', Ok x)"
  shows "outbox_inv ob'" "outbox_items ob' = (if x then outbox_items ob @ [h] else outbox_items ob)"
    "x \<longleftrightarrow> next_height_to_schedule ob \<le> h" "x \<Longrightarrow> unat (next_height_to_schedule ob') = unat h + 1"
    "\<not> x \<Longrightarrow> ob' = ob"
proof -
  have "(\<not> x \<and> h < next_height_to_schedule ob \<and> ob' = ob) \<or>
    (x \<and> next_height_to_schedule ob \<le> h \<and> (\<exists>n. unat n = unat h + 1 \<and>
       ob' = ob\<lparr> next_height_to_schedule := n, outbox_queue := bucket_push_back (outbox_queue ob) h \<rparr>))"
    using assms(2) by (auto simp: schedule_message_def try_add_one_Ok split: if_splits result.splits)
  then show "outbox_inv ob'" "outbox_items ob' = (if x then outbox_items ob @ [h] else outbox_items ob)"
    "x \<longleftrightarrow> next_height_to_schedule ob \<le> h" "x \<Longrightarrow> unat (next_height_to_schedule ob') = unat h + 1"
    "\<not> x \<Longrightarrow> ob' = ob"
    using assms(1)
    by (fastforce simp: outbox_inv_def outbox_items_def bucket_push_back_items sorted_wrt_append word_less_nat_alt
        word_le_nat_alt)+
qed

lemma sorted_dropWhile:
  fixes xs :: "'a::linorder list"
  assumes "sorted_wrt (<) xs"
  shows "takeWhile (\<lambda>x. x \<le> h) xs = filter (\<lambda>x. x \<le> h) xs" "dropWhile (\<lambda>x. x \<le> h) xs = filter (\<lambda>x. h < x) xs"
proof -
  have "x \<le> h \<Longrightarrow> x \<in> set (takeWhile (\<lambda>x. x \<le> h) xs)" if "x \<in> set xs" for x
    using assms that by (induction xs) auto
  moreover have "x \<in> set (dropWhile (\<lambda>x. x \<le> h) xs) \<Longrightarrow> h < x" for x
    using assms by (induction xs) (auto split: if_splits)
  ultimately have take: "filter (\<lambda>x. x \<le> h) (takeWhile (\<lambda>x. x \<le> h) xs) = takeWhile (\<lambda>x. x \<le> h) xs"
    "filter (\<lambda>x. h < x) (takeWhile (\<lambda>x. x \<le> h) xs) = []"
    and drop: "filter (\<lambda>x. x \<le> h) (dropWhile (\<lambda>x. x \<le> h) xs) = []"
    "filter (\<lambda>x. h < x) (dropWhile (\<lambda>x. x \<le> h) xs) = dropWhile (\<lambda>x. x \<le> h) xs"
    by (auto simp: filter_id_conv filter_empty_conv not_le not_less dest: set_takeWhileD)
  show "takeWhile (\<lambda>x. x \<le> h) xs = filter (\<lambda>x. x \<le> h) xs"
    using filter_append [of "\<lambda>x. x \<le> h" "takeWhile (\<lambda>x. x \<le> h) xs" "dropWhile (\<lambda>x. x \<le> h) xs"] take drop by simp
  show "dropWhile (\<lambda>x. x \<le> h) xs = filter (\<lambda>x. h < x) xs"
    using filter_append [of "\<lambda>x. h < x" "takeWhile (\<lambda>x. x \<le> h) xs" "dropWhile (\<lambda>x. x \<le> h) xs"] take drop by simp
qed

lemma mark_received:
  assumes "outbox_inv ob"
  shows "\<exists>ob'. outbox_mark_messages_as_received ob h = (ob', Ok (filter (\<lambda>x. x \<le> h) (outbox_items ob))) \<and>
    outbox_inv ob' \<and> outbox_items ob' = filter (\<lambda>x. h < x) (outbox_items ob) \<and>
    next_height_to_schedule ob' = next_height_to_schedule ob"
proof -
  let ?q = "outbox_queue ob"
  have ok: "bucket_ok ?q" and sorted: "sorted_wrt (<) (bucket_items ?q)"
    using assms by (simp_all add: outbox_inv_def outbox_items_def)
  have step: "(\<lambda>x. received_step h x = Continue) = (\<lambda>x. x \<le> h)" by (auto simp: received_step_def fun_eq_iff)
  have err: "(case list_front xs of None \<Rightarrow> None
      | Some x \<Rightarrow> (case received_step h x of Throw e \<Rightarrow> Some (Inl e :: view_error + view_error) | _ \<Rightarrow> None)) = None" for xs
    by (simp add: received_step_def split: option.split)
  from bucket_fifo.drain_total [OF ok, of "Suc (bucket_count ?q)" "received_step h"]
  obtain q' where "drain (Suc (bucket_count ?q)) bucket_front bucket_delete_front (received_step h) ?q =
      (q', filter (\<lambda>x. x \<le> h) (bucket_items ?q), None)"
    and "bucket_ok q'" "bucket_items q' = filter (\<lambda>x. h < x) (bucket_items ?q)"
    unfolding step err sorted_dropWhile [OF sorted] by (auto simp: bucket_count_items [OF ok])
  then show ?thesis
    using assms by (auto simp: outbox_mark_messages_as_received_def outbox_inv_def outbox_items_def intro: sorted_wrt_filter)
qed

lemma outbox_save_Ok:
  assumes "outbox_inv ob" "outbox_save ob = Ok ob'"
  shows "outbox_inv ob'" "outbox_items ob' = outbox_items ob" "next_height_to_schedule ob' = next_height_to_schedule ob"
  using assms bucket_save_items [of "outbox_queue ob" BLOCK_HEIGHT_BUCKET_SIZE]
  by (auto simp: outbox_save_def outbox_inv_def outbox_items_def and_then_Ok BLOCK_HEIGHT_BUCKET_SIZE_def)

lemma outbox_run_inv:
  assumes "outbox_run ob S D"
  shows "outbox_inv ob \<and> S = D @ outbox_items ob \<and> sorted_wrt (<) S \<and> (\<forall>h \<in> set S. h < next_height_to_schedule ob)"
  using assms
proof (induction rule: outbox_run.induct)
  case start
  then show ?case by (simp add: outbox_new_inv)
next
  case (schedule ob S D h ob' x)
  then have inv: "outbox_inv ob" by simp
  note s = schedule_message_Ok [OF inv schedule.hyps(2)]
  show ?case
  proof (cases x)
    case True
    then have next': "h < next_height_to_schedule ob'" "next_height_to_schedule ob \<le> h"
      using s(3,4) by (simp_all add: word_less_nat_alt)
    have "k < h" if "k \<in> set S" for k using schedule.IH that next'(2) by (meson order.strict_trans2)
    then show ?thesis
      using True schedule.IH s(1,2) next' by (auto simp: sorted_wrt_append dest: order.strict_trans)
  next
    case False
    with s(5) have "ob' = ob" by simp
    with False schedule.IH show ?thesis by (simp only: if_False) blast
  qed
next
  case (acknowledge ob S D h ob' updates)
  then have "sorted_wrt (<) (outbox_items ob)" by (simp add: outbox_inv_def)
  from sorted_dropWhile [OF this, of h, symmetric]
  have "filter (\<lambda>x. x \<le> h) (outbox_items ob) @ filter (\<lambda>x. h < x) (outbox_items ob) = outbox_items ob" by simp
  with mark_received [of ob h] acknowledge show ?case by auto
next
  case (save ob S D ob')
  then show ?case using outbox_save_Ok [of ob ob'] by auto
qed

text \<open>
  \<^bold>\<open>C17\<close>. Over any history of an outbox, the scheduled heights are exactly the acknowledged ones
  followed by the ones still in the queue: every height is delivered once and in order. An
  acknowledgement never fails, returns the queued heights up to the given one, and keeps the
  others; the save of the outbox never fails either and keeps the queue.
\<close>

theorem outbox_delivers_once:
  assumes "outbox_run ob S D"
  shows "S = D @ outbox_items ob \<and> sorted_wrt (<) S
    \<and> (\<exists>ob'. outbox_mark_messages_as_received ob h = (ob', Ok (filter (\<lambda>x. x \<le> h) (outbox_items ob)))
        \<and> outbox_items ob' = filter (\<lambda>x. h < x) (outbox_items ob))
    \<and> (\<exists>ob'. outbox_save ob = Ok ob' \<and> outbox_items ob' = outbox_items ob)"
proof -
  note inv = outbox_run_inv [OF assms]
  then have "bucket_ok (outbox_queue ob)" by (simp add: outbox_inv_def)
  then obtain q where "bucket_save BLOCK_HEIGHT_BUCKET_SIZE (outbox_queue ob) = Ok q" "bucket_items q = bucket_items (outbox_queue ob)"
    using bucket_save_items [of "outbox_queue ob" BLOCK_HEIGHT_BUCKET_SIZE] by (auto simp: BLOCK_HEIGHT_BUCKET_SIZE_def)
  then have "\<exists>ob'. outbox_save ob = Ok ob' \<and> outbox_items ob' = outbox_items ob"
    by (simp add: outbox_save_def outbox_items_def)
  with inv mark_received [of ob h] show ?thesis by auto
qed

definition demo_outbox :: outbox where
  "demo_outbox = fst (schedule_message (fst (schedule_message outbox_new 3)) 8)"

lemma demo_outbox_run: "outbox_run demo_outbox [3, 8] []"
proof -
  have "schedule_message outbox_new 3 = (fst (schedule_message outbox_new 3), Ok True)"
    "schedule_message (fst (schedule_message outbox_new 3)) 8 = (demo_outbox, Ok True)"
    by (simp_all add: demo_outbox_def schedule_message_def outbox_new_def try_add_one_def checked_add_def ok_or_def)
  from outbox_run.schedule [OF outbox_run.schedule [OF outbox_run.start this(1)] this(2)]
  show ?thesis by simp
qed

theorem outbox_delivers_once_witness:
  "outbox_items demo_outbox = [3, 8] \<and>
   (\<exists>ob'. outbox_mark_messages_as_received demo_outbox 5 = (ob', Ok [3]) \<and> outbox_items ob' = [8])"
proof -
  note * = outbox_delivers_once [OF demo_outbox_run, of 5]
  then have "outbox_items demo_outbox = [3, 8]" by simp
  with * show ?thesis by simp
qed

section \<open>Pending blobs\<close>

record pending_blobs_view =
  pb_round :: round
  pb_validated :: bool
  pb_pending_blobs :: "(blob_id, blob option) btree_map"

definition pending_blobs_new :: pending_blobs_view where
  "pending_blobs_new = \<lparr> pb_round = Fast, pb_validated = False, pb_pending_blobs = [] \<rparr>"

definition pending_blobs_get :: "pending_blobs_view \<Rightarrow> blob_id \<Rightarrow> blob option" where
  "pending_blobs_get v bid = Option.bind (btm_get (pb_pending_blobs v) bid) id"

definition maybe_insert :: "pending_blobs_view \<Rightarrow> blob \<Rightarrow> pending_blobs_view \<times> bool" where
  "maybe_insert v b =
    (case btm_get (pb_pending_blobs v) (blob_id_of b) of
       None \<Rightarrow> (v, False)
     | Some None \<Rightarrow> (v\<lparr> pb_pending_blobs := btm_insert (blob_id_of b) (Some b) (pb_pending_blobs v) \<rparr>, True)
     | Some (Some _) \<Rightarrow> (v, True))"

definition pending_blobs_update ::
  "pending_blobs_view \<Rightarrow> round \<Rightarrow> bool \<Rightarrow> (blob_id, blob option) btree_map \<Rightarrow> (pending_blobs_view, chain_error) result" where
  "pending_blobs_update v round validated maybe_blobs =
    and_then (ensure (pb_round v \<le> round) (InsufficientRound (pb_round v))) (\<lambda>_.
    let v = (if pb_round v < round then pending_blobs_new\<lparr> pb_round := round, pb_validated := validated \<rparr> else v)
    in Ok (v\<lparr> pb_pending_blobs := fold (\<lambda>(bid, mb). btm_insert bid mb) maybe_blobs (pb_pending_blobs v) \<rparr>))"

lemma pending_blobs_update_result:
  assumes "btm_ok (pb_pending_blobs v)"
  shows "case pending_blobs_update v r validated req of
      Err e \<Rightarrow> r < pb_round v \<and> e = InsufficientRound (pb_round v)
    | Ok v' \<Rightarrow> pb_round v \<le> r \<and> pb_round v' = r \<and> btm_ok (pb_pending_blobs v') \<and>
        pb_validated v' = (if pb_round v < r then validated else pb_validated v) \<and>
        (\<forall>bid. btm_get (pb_pending_blobs v') bid =
          (case map_of (rev req) bid of Some mb \<Rightarrow> Some mb
           | None \<Rightarrow> if pb_round v < r then None else btm_get (pb_pending_blobs v) bid))"
proof -
  consider "r < pb_round v" | "pb_round v < r" | "pb_round v = r" by (metis linorder_less_linear)
  then show ?thesis
    using btm.get_fold_ins [OF assms, of req] btm.ok_fold_ins [OF assms, of req]
      btm.get_fold_ins [OF btm_ok_Nil, of req] btm.ok_fold_ins [OF btm_ok_Nil, of req]
    by cases (auto simp: pending_blobs_update_def pending_blobs_new_def ensure_def Let_def cong: option.case_cong)
qed

lemma option_option_cases:
  fixes x :: "'a option option"
  obtains "x = None" | "x = Some None" | y where "x = Some (Some y)"
  by (cases x) (metis option.exhaust)+

lemma maybe_insert_result:
  assumes "btm_ok (pb_pending_blobs v)"
  shows "\<forall>b v' known. maybe_insert v b = (v', known) \<longrightarrow>
      known = (btm_get (pb_pending_blobs v) (blob_id_of b) \<noteq> None) \<and> pb_round v' = pb_round v \<and> btm_ok (pb_pending_blobs v') \<and>
      (\<forall>bid. pending_blobs_get v' bid =
        (if known \<and> bid = blob_id_of b \<and> pending_blobs_get v bid = None then Some b else pending_blobs_get v bid))"
proof (intro allI impI)
  fix b v' known
  assume "maybe_insert v b = (v', known)"
  then show "known = (btm_get (pb_pending_blobs v) (blob_id_of b) \<noteq> None) \<and> pb_round v' = pb_round v \<and>
      btm_ok (pb_pending_blobs v') \<and>
      (\<forall>bid. pending_blobs_get v' bid =
        (if known \<and> bid = blob_id_of b \<and> pending_blobs_get v bid = None then Some b else pending_blobs_get v bid))"
    unfolding maybe_insert_def pending_blobs_get_def
    using assms by (cases "btm_get (pb_pending_blobs v) (blob_id_of b)" rule: option_option_cases) auto
qed

text \<open>
  \<^bold>\<open>C18\<close>. An update of the pending blobs is refused exactly when its round is lower than the round
  they are for. A higher round discards everything kept for the lower round; the same round adds the new
  requirements to the old ones and leaves the validated flag as it was. Inserting a blob tells
  whether it is required, fills it in only where it is missing, and touches no other entry.
\<close>

theorem pending_blobs_lifecycle:
  assumes "btm_ok (pb_pending_blobs v)"
  shows "(case pending_blobs_update v r validated req of
      Err e \<Rightarrow> r < pb_round v \<and> e = InsufficientRound (pb_round v)
    | Ok v' \<Rightarrow> pb_round v \<le> r \<and> pb_round v' = r \<and> btm_ok (pb_pending_blobs v') \<and>
        pb_validated v' = (if pb_round v < r then validated else pb_validated v) \<and>
        (\<forall>bid. btm_get (pb_pending_blobs v') bid =
          (case map_of (rev req) bid of Some mb \<Rightarrow> Some mb
           | None \<Rightarrow> if pb_round v < r then None else btm_get (pb_pending_blobs v) bid))) \<and>
   (\<forall>b v' known. maybe_insert v b = (v', known) \<longrightarrow>
      known = (btm_get (pb_pending_blobs v) (blob_id_of b) \<noteq> None) \<and> pb_round v' = pb_round v \<and> btm_ok (pb_pending_blobs v') \<and>
      (\<forall>bid. pending_blobs_get v' bid =
        (if known \<and> bid = blob_id_of b \<and> pending_blobs_get v bid = None then Some b else pending_blobs_get v bid)))"
  using pending_blobs_update_result [OF assms] maybe_insert_result [OF assms] by blast

theorem pending_blobs_lifecycle_witness:
  "\<exists>v b. pending_blobs_update pending_blobs_new (MultiLeader 0) True [(blob_id_of b, None)] = Ok v \<and>
    snd (maybe_insert v b) \<and> pending_blobs_get (fst (maybe_insert v b)) (blob_id_of b) = Some b"
proof -
  define b where "b = \<lparr> blob_hash = 5, blob_content = \<lparr> content_blob_type = Data, content_bytes = [] \<rparr> \<rparr>"
  define v where "v = pending_blobs_new\<lparr> pb_round := MultiLeader 0, pb_validated := True, pb_pending_blobs := [(blob_id_of b, None)] \<rparr>"
  have ok: "btm_ok (pb_pending_blobs v)" by (simp add: v_def btm_ok_Cons)
  have "pending_blobs_update pending_blobs_new (MultiLeader 0) True [(blob_id_of b, None)] = Ok v"
    by (simp add: v_def pending_blobs_update_def pending_blobs_new_def ensure_def less_eq_round_def less_round_def)
  moreover have "btm_get (pb_pending_blobs v) (blob_id_of b) \<noteq> None" "pending_blobs_get v (blob_id_of b) = None"
    by (simp_all add: v_def pending_blobs_get_def)
  moreover from calculation(2,3) have "snd (maybe_insert v b)" "pending_blobs_get (fst (maybe_insert v b)) (blob_id_of b) = Some b"
    using pending_blobs_lifecycle [of v, OF ok, THEN conjunct2, rule_format, of b "fst (maybe_insert v b)" "snd (maybe_insert v b)"]
    by (simp_all del: split_paired_All)
  ultimately show ?thesis by blast
qed

end
