(* ===== verification/Chain.thy ===== *)
theory Chain
  imports Execution Manager Outbox
begin

text \<open>
  The state of a chain (\<open>linera-chain/src/chain.rs\<close>): the execution of blocks, the application of
  confirmed blocks, inboxes and outboxes. The views of the code are the data they hold. The hash of the
  execution state is a parameter. A worker that meets an error rolls the chain back to what is
  saved, so errors carry no state.
\<close>

section \<open>State\<close>

record chain_tip_state =
  tip_block_hash :: "crypto_hash option"
  tip_next_block_height :: block_height
  tip_num_incoming_bundles :: u32
  tip_num_operations :: u32
  tip_num_outgoing_messages :: u32

text \<open>The origin of a bundle and its cursor.\<close>

type_synonym bundle_in_inbox = "chain_id \<times> cursor"

record timestamped_bundle =
  tb_entry :: bundle_in_inbox
  tb_seen :: timestamp

record 'd chain_state =
  ch_execution_state :: execution_state
  ch_execution_state_hash :: "crypto_hash option"
  ch_tip_state :: chain_tip_state
  ch_manager :: "'d chain_manager"
  ch_pending_validated_blobs :: pending_blobs_view
  ch_pending_proposed_blobs :: "(account_owner, pending_blobs_view) btree_map"
  ch_confirmed_log :: "crypto_hash list"
  ch_received_log :: "(chain_id \<times> block_height) list"
  ch_received_certificate_trackers :: "(validator_public_key, u64) btree_map"
  ch_inboxes :: "(chain_id, inbox) btree_map"
  ch_unskippable_bundles :: "timestamped_bundle bucket_queue"
  ch_removed_unskippable_bundles :: "bundle_in_inbox btree_set"
  ch_previous_message_blocks :: "(chain_id, block_height) btree_map"
  ch_previous_event_blocks :: "(stream_id, block_height) btree_map"
  ch_outboxes :: "(chain_id, outbox) btree_map"
  ch_outbox_counters :: "(block_height, u32) btree_map"
  ch_nonempty_outboxes :: "chain_id btree_set"
  ch_preprocessed_blocks :: "(block_height, crypto_hash) btree_map"

record 'd chain_env =
  ce_executor :: executor
  ce_sizes :: block_sizes
  ce_crypto :: crypto
  ce_sampler :: "'d sampler"
  ce_state_hash :: "execution_state \<Rightarrow> crypto_hash"

abbreviation ce_ctx :: "'d chain_env \<Rightarrow> exec_ctx" where
  "ce_ctx ce \<equiv> en_ctx (ce_executor ce)"

abbreviation ce_hashes :: "'d chain_env \<Rightarrow> hashes" where
  "ce_hashes ce \<equiv> cr_hashes (ce_crypto ce)"

abbreviation ch_system :: "'d chain_state \<Rightarrow> system_state" where
  "ch_system ch \<equiv> ex_system (ch_execution_state ch)"

definition chain_arith :: "('a, arithmetic_error) result \<Rightarrow> ('a, chain_error) result" where
  "chain_arith = map_err ChainArithmeticError"

section \<open>The tip\<close>

definition verify_block_chaining :: "chain_tip_state \<Rightarrow> proposed_block \<Rightarrow> (unit, chain_error) result" where
  "verify_block_chaining tip pb =
    and_then (ensure (pb_height pb = tip_next_block_height tip)
      (UnexpectedBlockHeight (tip_next_block_height tip) (pb_height pb))) (\<lambda>_.
    ensure (pb_previous_block_hash pb = tip_block_hash tip) UnexpectedPreviousBlockHash)"

definition already_validated_block :: "chain_tip_state \<Rightarrow> block_height \<Rightarrow> (bool, chain_error) result" where
  "already_validated_block tip height =
    and_then (ensure (height \<le> tip_next_block_height tip) (MissingEarlierBlocks (tip_next_block_height tip))) (\<lambda>_.
    Ok (height < tip_next_block_height tip))"

definition count_transaction :: "u32 \<times> u32 \<Rightarrow> transaction \<Rightarrow> (u32 \<times> u32, chain_error) result" where
  "count_transaction = (\<lambda>(bundles, operations) tx.
    case tx of
      ReceiveMessages _ \<Rightarrow> and_then (chain_arith (try_add_one bundles)) (\<lambda>n. Ok (n, operations))
    | ExecuteOperation _ \<Rightarrow> and_then (chain_arith (try_add_one operations)) (\<lambda>n. Ok (bundles, n)))"

definition update_counters ::
  "chain_tip_state \<Rightarrow> transaction list \<Rightarrow> outgoing_message list list \<Rightarrow> (chain_tip_state, chain_error) result" where
  "update_counters tip txs messages =
    and_then (try_fold count_transaction (0, 0) txs) (\<lambda>(bundles, operations).
    and_then (chain_arith (try_add (tip_num_incoming_bundles tip) bundles)) (\<lambda>nb.
    and_then (chain_arith (try_add (tip_num_operations tip) operations)) (\<lambda>no.
    let count = sum_list (map length messages) in
    and_then (chain_arith (ok_or (if count < 2 ^ 32 then Some (of_nat count :: u32) else None) Overflow)) (\<lambda>n.
    and_then (chain_arith (try_add (tip_num_outgoing_messages tip) n)) (\<lambda>nm.
    Ok (tip\<lparr> tip_num_incoming_bundles := nb, tip_num_operations := no, tip_num_outgoing_messages := nm \<rparr>))))))"

section \<open>Initialization\<close>

definition chain_current_committee :: "'d chain_env \<Rightarrow> 'd chain_state \<Rightarrow> (epoch \<times> committee, chain_error) result" where
  "chain_current_committee ce ch = ok_or (current_committee (ch_system ch)) (InactiveChain (xc_chain_id (ce_ctx ce)))"

definition fallback_keys :: "'d chain_state \<Rightarrow> (account_public_key \<times> u64) list" where
  "fallback_keys ch =
    (case current_committee (ch_system ch) of None \<Rightarrow> [] | Some (_, c) \<Rightarrow> account_keys_and_weights c)"

definition reset_manager :: "'d chain_env \<Rightarrow> 'd chain_state \<Rightarrow> block_height \<Rightarrow> timestamp \<Rightarrow> 'd chain_state" where
  "reset_manager ce ch height local_time =
    ch\<lparr> ch_manager := manager_reset (ce_crypto ce) (ce_sampler ce) (sy_ownership (ch_system ch)) height local_time
          (fallback_keys ch) \<rparr>"

definition initialize_if_needed :: "'d chain_env \<Rightarrow> 'd chain_state \<Rightarrow> timestamp \<Rightarrow> ('d chain_state, chain_error) result" where
  "initialize_if_needed ce ch local_time =
    and_then (with_execution_context BlockContext
        (initialize_chain (en_codec (ce_executor ce)) (ce_ctx ce) (ch_system ch) (xc_chain_id (ce_ctx ce)))) (\<lambda>(s, already).
    if already then Ok ch
    else
      let st = (ch_execution_state ch)\<lparr> ex_system := s \<rparr>;
          ch = ch\<lparr> ch_execution_state := st, ch_execution_state_hash := Some (ce_state_hash ce st) \<rparr>
      in Ok (reset_manager ce ch 0 local_time))"

definition reset_chain_manager :: "'d chain_env \<Rightarrow> 'd chain_state \<Rightarrow> block_height \<Rightarrow> timestamp \<Rightarrow> 'd chain_state" where
  "reset_chain_manager ce ch next_height local_time =
    reset_manager ce (ch\<lparr> ch_pending_validated_blobs := pending_blobs_new, ch_pending_proposed_blobs := [] \<rparr>)
      next_height local_time"

section \<open>Executing a block\<close>

definition permission_step ::
  "application_permissions \<Rightarrow> application_id list \<Rightarrow> transaction \<Rightarrow> (application_id list, chain_error) result" where
  "permission_step p mandatory tx =
    (case tx of
       ExecuteOperation op \<Rightarrow>
        if is_exempt_from_permissions op then Ok []
        else
          and_then (ensure (can_execute_operations p (operation_application_id op))
            (AuthorizedApplications (the (execute_operations p)))) (\<lambda>_.
          Ok (case op of UserOp app _ \<Rightarrow> removeAll app mandatory | SystemOp _ \<Rightarrow> mandatory))
     | ReceiveMessages ib \<Rightarrow>
        Ok (foldl (\<lambda>mandatory pm. case pm_message pm of UserMsg app _ \<Rightarrow> removeAll app mandatory | SystemMsg _ \<Rightarrow> mandatory)
          mandatory (mb_messages (ib_bundle ib))))"

definition check_app_permissions :: "application_permissions \<Rightarrow> proposed_block \<Rightarrow> (unit, chain_error) result" where
  "check_app_permissions p pb =
    and_then (try_fold (permission_step p) (remdups (mandatory_applications p)) (pb_transactions pb)) (\<lambda>mandatory.
    ensure (mandatory = []) (MissingMandatoryApplications mandatory))"

text \<open>The blocks that last sent to a recipient, or last published on a stream, with their hashes.\<close>

definition previous_block_step ::
  "('k::linorder, block_height) btree_map \<Rightarrow> crypto_hash list \<Rightarrow> ('k, crypto_hash \<times> block_height) btree_map \<Rightarrow> 'k
    \<Rightarrow> (('k, crypto_hash \<times> block_height) btree_map, chain_error) result" where
  "previous_block_step heights log m k =
    (case btm_get heights k of
       None \<Rightarrow> Ok m
     | Some h \<Rightarrow>
        if unat h < length log then Ok (btm_insert k (log ! unat h, h) m)
        else Err (ChainInternalError ''missing entry in confirmed_log''))"

definition previous_blocks ::
  "('k::linorder, block_height) btree_map \<Rightarrow> crypto_hash list \<Rightarrow> 'k btree_set
    \<Rightarrow> (('k, crypto_hash \<times> block_height) btree_map, chain_error) result" where
  "previous_blocks heights log ks = try_fold (previous_block_step heights log) [] ks"

definition publish_blob ::
  "block_sizes \<Rightarrow> resource_control_policy \<Rightarrow> system_state \<Rightarrow> blob \<Rightarrow> (system_state, chain_error) result" where
  "publish_blob bz policy s b =
    and_then (with_execution_context BlockContext (check_blob_size (bz_decompressed bz) policy (blob_content b))) (\<lambda>_.
    Ok (s\<lparr> sy_used_blobs := bts_insert (blob_id_of b) (sy_used_blobs s) \<rparr>))"

definition execute_block_inner ::
  "'d chain_env \<Rightarrow> execution_state \<Rightarrow> crypto_hash list \<Rightarrow> (chain_id, block_height) btree_map
    \<Rightarrow> (stream_id, block_height) btree_map \<Rightarrow> proposed_block \<Rightarrow> timestamp \<Rightarrow> u32 option \<Rightarrow> blob list
    \<Rightarrow> oracle_response list list option \<Rightarrow> (execution_state \<times> block_execution_outcome, chain_error) result" where
  "execute_block_inner ce st log message_blocks event_blocks pb local_time round published replaying =
    (let s = (ex_system st)\<lparr> sy_timestamp := pb_timestamp pb \<rparr> in
     and_then (ok_or (current_committee s) (InactiveChain (pb_chain_id pb))) (\<lambda>(_, committee).
     let policy = committee_policy committee;
         rc = \<lparr> rc_policy = policy, rc_tracker = tracker_default, rc_account = pb_authenticated_signer pb \<rparr> in
     and_then (try_fold (publish_blob (ce_sizes ce) policy) s published) (\<lambda>s.
     and_then (BlockExecutionTracker_new rc (btm_of_list (map (\<lambda>b. (blob_id_of b, b)) published)) local_time replaying pb) (\<lambda>b.
     and_then (try_fold (execute_transaction (ce_executor ce) (ce_sizes ce) round) (b, st\<lparr> ex_system := s \<rparr>)
         (pb_transactions pb)) (\<lambda>(b, st).
     and_then (previous_blocks message_blocks log (bt_recipients b)) (\<lambda>pmb.
     and_then (previous_blocks event_blocks log (bt_event_streams b)) (\<lambda>peb.
     and_then (finalize b) (\<lambda>(messages, responses, events, blobs, results).
     Ok (st, \<lparr> beo_messages = messages, beo_previous_message_blocks = pmb, beo_previous_event_blocks = peb,
               beo_state_hash = ce_state_hash ce st, beo_oracle_responses = responses, beo_events = events,
               beo_blobs = blobs, beo_operation_results = results \<rparr>)))))))))"

definition execute_block ::
  "'d chain_env \<Rightarrow> 'd chain_state \<Rightarrow> proposed_block \<Rightarrow> timestamp \<Rightarrow> u32 option \<Rightarrow> blob list
    \<Rightarrow> oracle_response list list option \<Rightarrow> ('d chain_state \<times> block_execution_outcome, chain_error) result" where
  "execute_block ce ch pb local_time round published replaying =
    and_then (ensure (pb_chain_id pb = xc_chain_id (ce_ctx ce)) (ChainInternalError ''panic'')) (\<lambda>_.
    and_then (initialize_if_needed ce ch local_time) (\<lambda>ch.
    let chain_timestamp = sy_timestamp (ch_system ch) in
    and_then (ensure (chain_timestamp \<le> pb_timestamp pb) (InvalidBlockTimestamp chain_timestamp (pb_timestamp pb))) (\<lambda>_.
    and_then (ensure (pb_transactions pb \<noteq> []) EmptyBlock) (\<lambda>_.
    and_then (ensure (pb_published_blob_ids pb = bts_of_list (map blob_id_of published))
      (ChainInternalError ''published_blobs mismatch'')) (\<lambda>_.
    and_then (ensure (\<not> sy_closed (ch_system ch) \<or> has_only_rejected_messages pb) ClosedChain) (\<lambda>_.
    and_then (check_app_permissions (sy_application_permissions (ch_system ch)) pb) (\<lambda>_.
    and_then (execute_block_inner ce (ch_execution_state ch) (ch_confirmed_log ch) (ch_previous_message_blocks ch)
        (ch_previous_event_blocks ch) pb local_time round published replaying) (\<lambda>(st, out).
    Ok (ch\<lparr> ch_execution_state := st \<rparr>, out)))))))))"

section \<open>Outboxes\<close>

definition load_outbox :: "'d chain_state \<Rightarrow> chain_id \<Rightarrow> outbox" where
  "load_outbox ch target = (case btm_get (ch_outboxes ch) target of None \<Rightarrow> outbox_new | Some ob \<Rightarrow> ob)"

text \<open>The hash of the block with the last message that was added to an outbox.\<close>

definition last_scheduled_hash :: "'d chain_state \<Rightarrow> outbox \<Rightarrow> (crypto_hash option, chain_error) result" where
  "last_scheduled_hash ch ob =
    (case try_sub_one (next_height_to_schedule ob) of
       Err _ \<Rightarrow> Ok None
     | Ok height \<Rightarrow>
        if height < tip_next_block_height (ch_tip_state ch) then
          if unat height < length (ch_confirmed_log ch) then Ok (Some (ch_confirmed_log ch ! unat height))
          else Err (ChainInternalError ''missing entry in confirmed_log'')
        else
          (case btm_get (ch_preprocessed_blocks ch) height of
             Some hash \<Rightarrow> Ok (Some hash)
           | None \<Rightarrow> Err (ChainInternalError ''missing entry in preprocessed_blocks'')))"

text \<open>Whether the messages of a block that may leave a gap can be added to an outbox.\<close>

definition may_schedule :: "'d chain_state \<Rightarrow> block \<Rightarrow> chain_id \<Rightarrow> outbox \<Rightarrow> (bool, chain_error) result" where
  "may_schedule ch blk target ob =
    (let block_height = bh_height (b_header blk); next_height = tip_next_block_height (ch_tip_state ch) in
     if block_height \<le> next_height then Ok True
     else if block_height < next_height_to_schedule ob then Ok False
     else
       and_then (last_scheduled_hash ch ob) (\<lambda>maybe_prev_hash.
       case (maybe_prev_hash, btm_get (bb_previous_message_blocks (b_body blk)) target) of
         (None, None) \<Rightarrow> Ok True
       | (Some _, None) \<Rightarrow>
          Err (ChainInternalError ''block indicates no previous message block, but we have one in the outbox'')
       | (None, Some (_, height)) \<Rightarrow> Ok (height < next_height)
       | (Some prev_hash, Some (hash, _)) \<Rightarrow> Ok (prev_hash = hash)))"

definition schedule_target :: "block \<Rightarrow> 'd chain_state \<Rightarrow> chain_id \<Rightarrow> ('d chain_state, chain_error) result" where
  "schedule_target blk ch target =
    (let ob = load_outbox ch target; block_height = bh_height (b_header blk) in
     and_then (may_schedule ch blk target ob) (\<lambda>may.
     if \<not> may then Ok (ch\<lparr> ch_outboxes := btm_insert target ob (ch_outboxes ch) \<rparr>)
     else
       case schedule_message ob block_height of (ob, scheduled) \<Rightarrow>
       and_then (chain_arith scheduled) (\<lambda>newly.
       let ch = ch\<lparr> ch_outboxes := btm_insert target ob (ch_outboxes ch) \<rparr> in
       Ok (if newly then
             ch\<lparr> ch_outbox_counters := btm_insert block_height
                    ((case btm_get (ch_outbox_counters ch) block_height of None \<Rightarrow> 0 | Some n \<Rightarrow> n) + 1) (ch_outbox_counters ch),
                 ch_nonempty_outboxes := bts_insert target (ch_nonempty_outboxes ch) \<rparr>
           else ch))))"

definition process_outgoing_messages :: "'d chain_state \<Rightarrow> block \<Rightarrow> ('d chain_state \<times> chain_id list, chain_error) result" where
  "process_outgoing_messages ch blk =
    (let targets = recipients blk in
     and_then (try_fold (schedule_target blk) ch targets) (\<lambda>ch. Ok (ch, targets)))"

definition count_received :: "(block_height, u32) btree_map \<Rightarrow> block_height \<Rightarrow> ((block_height, u32) btree_map, chain_error) result" where
  "count_received counters update =
    and_then (ok_or (btm_get counters update) (ChainInternalError ''message counter should be present'')) (\<lambda>counter.
    and_then (chain_arith (ok_or (checked_sub counter 1) Underflow)) (\<lambda>counter.
    Ok (if counter = 0 then btm_remove update counters else btm_insert update counter counters)))"

definition chain_mark_messages_as_received ::
  "'d chain_state \<Rightarrow> chain_id \<Rightarrow> block_height \<Rightarrow> ('d chain_state \<times> bool, chain_error) result" where
  "chain_mark_messages_as_received ch target height =
    (case outbox_mark_messages_as_received (load_outbox ch target) height of (ob, received) \<Rightarrow>
     and_then (map_err (\<lambda>_. ChainInternalError ''view error'') received) (\<lambda>updates.
     let ch = ch\<lparr> ch_outboxes := btm_insert target ob (ch_outboxes ch) \<rparr> in
     if updates = [] then Ok (ch, False)
     else
       and_then (try_fold count_received (ch_outbox_counters ch) updates) (\<lambda>counters.
       let ch = ch\<lparr> ch_outbox_counters := counters \<rparr> in
       Ok (if bucket_count (outbox_queue ob) \<noteq> 0 then ch
           else
             let ch = ch\<lparr> ch_nonempty_outboxes := bts_remove target (ch_nonempty_outboxes ch) \<rparr> in
             if next_height_to_schedule ob \<le> tip_next_block_height (ch_tip_state ch)
             then ch\<lparr> ch_outboxes := btm_remove target (ch_outboxes ch) \<rparr> else ch, True))))"

definition all_messages_delivered_up_to :: "'d chain_state \<Rightarrow> block_height \<Rightarrow> bool" where
  "all_messages_delivered_up_to ch height =
    (case ch_outbox_counters ch of [] \<Rightarrow> True | (key, _) # _ \<Rightarrow> height < key)"

section \<open>Confirmed blocks\<close>

definition apply_confirmed_block ::
  "'d chain_env \<Rightarrow> 'd chain_state \<Rightarrow> block \<Rightarrow> timestamp \<Rightarrow> ('d chain_state, chain_error) result" where
  "apply_confirmed_block ce ch blk local_time =
    (let hash = h_block (ce_hashes ce) blk; height = bh_height (b_header blk);
         ch = ch\<lparr> ch_execution_state_hash := Some (bh_state_hash (b_header blk)) \<rparr> in
     and_then (process_outgoing_messages ch blk) (\<lambda>(ch, targets).
     let ch = ch\<lparr> ch_previous_message_blocks :=
                    foldl (\<lambda>m target. btm_insert target height m) (ch_previous_message_blocks ch) targets,
                 ch_previous_event_blocks :=
                    foldl (\<lambda>m e. btm_insert (event_stream_id e) height m) (ch_previous_event_blocks ch)
                      (concat (bb_events (b_body blk))) \<rparr> in
     and_then (chain_arith (try_add_one height)) (\<lambda>next_height.
     let ch = reset_chain_manager ce ch next_height local_time; tip = ch_tip_state ch in
     and_then (chain_arith (try_add_one (tip_next_block_height tip))) (\<lambda>next.
     and_then (update_counters (tip\<lparr> tip_block_hash := Some hash, tip_next_block_height := next \<rparr>)
         (bb_transactions (b_body blk)) (bb_messages (b_body blk))) (\<lambda>tip.
     Ok (ch\<lparr> ch_tip_state := tip, ch_confirmed_log := ch_confirmed_log ch @ [hash],
            ch_preprocessed_blocks := btm_remove height (ch_preprocessed_blocks ch) \<rparr>))))))"

definition preprocess_block :: "'d chain_env \<Rightarrow> 'd chain_state \<Rightarrow> block \<Rightarrow> ('d chain_state, chain_error) result" where
  "preprocess_block ce ch blk =
    (let hash = h_block (ce_hashes ce) blk; height = bh_height (b_header blk) in
     if height < tip_next_block_height (ch_tip_state ch) then Ok ch
     else
       and_then (process_outgoing_messages ch blk) (\<lambda>(ch, _).
       Ok (ch\<lparr> ch_preprocessed_blocks := btm_insert height hash (ch_preprocessed_blocks ch) \<rparr>)))"

text \<open>
  The indices of a map view come in the order of their serialised keys, which is not the order of
  the heights: \<open>key\<close> is the serialisation of a height.
\<close>

definition next_height_to_preprocess :: "(block_height \<Rightarrow> bytes) \<Rightarrow> 'd chain_state \<Rightarrow> block_height" where
  "next_height_to_preprocess key ch =
    (case rev (sort_key key (btm_keys (ch_preprocessed_blocks ch))) of
       height # _ \<Rightarrow> saturating_add height 1
     | [] \<Rightarrow> tip_next_block_height (ch_tip_state ch))"

section \<open>Inboxes\<close>

definition load_inbox :: "'d chain_state \<Rightarrow> chain_id \<Rightarrow> inbox" where
  "load_inbox ch origin = (case btm_get (ch_inboxes ch) origin of None \<Rightarrow> inbox_new | Some ib \<Rightarrow> ib)"

definition missing_description :: "'d chain_env \<Rightarrow> chain_error \<Rightarrow> bool" where
  "missing_description ce e =
    (case e of
       ChainExecutionError (BlobsNotFound bids) _ \<Rightarrow>
        list_all (\<lambda>bid. id_blob_type bid = ChainDescriptionBlob \<and> id_hash bid = xc_chain_id (ce_ctx ce)) bids
     | _ \<Rightarrow> False)"

definition receive_message_bundle ::
  "'d chain_env \<Rightarrow> 'd chain_state \<Rightarrow> chain_id \<Rightarrow> message_bundle \<Rightarrow> timestamp \<Rightarrow> bool \<Rightarrow> ('d chain_state, chain_error) result" where
  "receive_message_bundle ce ch origin bundle local_time add_to_received_log =
    and_then (ensure (mb_messages bundle \<noteq> []) (ChainInternalError ''panic'')) (\<lambda>_.
    and_then (case initialize_if_needed ce ch local_time of
                Ok ch \<Rightarrow> Ok ch
              | Err e \<Rightarrow> if missing_description ce e then Ok ch else Err e) (\<lambda>ch.
    case add_bundle (load_inbox ch origin) bundle of (ib, added) \<Rightarrow>
    and_then (map_err (\<lambda>_. ChainInternalError ''while processing messages in certified block'') added) (\<lambda>newly_added.
    let ch = ch\<lparr> ch_inboxes := btm_insert origin ib (ch_inboxes ch) \<rparr>;
        ch = (if newly_added \<and> \<not> bundle_is_skippable bundle
              then ch\<lparr> ch_unskippable_bundles := bucket_push_back (ch_unskippable_bundles ch)
                        \<lparr> tb_entry = (origin, bundle_cursor bundle), tb_seen = local_time \<rparr> \<rparr>
              else ch)
    in Ok (if add_to_received_log then ch\<lparr> ch_received_log := ch_received_log ch @ [(origin, mb_height bundle)] \<rparr> else ch))))"

definition update_received_certificate_trackers ::
  "'d chain_state \<Rightarrow> (validator_public_key, u64) btree_map \<Rightarrow> 'd chain_state" where
  "update_received_certificate_trackers ch new_trackers =
    ch\<lparr> ch_received_certificate_trackers :=
      foldl (\<lambda>m (name, tracker). btm_insert name
          (case btm_get m name of None \<Rightarrow> tracker | Some t \<Rightarrow> if t < tracker then tracker else t) m)
        (ch_received_certificate_trackers ch) new_trackers \<rparr>"

definition bundles_by_origin_step ::
  "chain_id \<Rightarrow> timestamp \<Rightarrow> (chain_id, message_bundle list) btree_map \<Rightarrow> incoming_bundle
    \<Rightarrow> ((chain_id, message_bundle list) btree_map, chain_error) result" where
  "bundles_by_origin_step chain timestamp m ib =
    and_then (ensure (mb_timestamp (ib_bundle ib) \<le> timestamp)
      (IncorrectBundleTimestamp chain (mb_timestamp (ib_bundle ib)) timestamp)) (\<lambda>_.
    Ok (btm_insert (ib_origin ib)
      ((case btm_get m (ib_origin ib) of None \<Rightarrow> [] | Some bs \<Rightarrow> bs) @ [ib_bundle ib]) m))"

definition remove_one ::
  "chain_id \<Rightarrow> bool \<Rightarrow> chain_id \<Rightarrow> inbox \<times> bundle_in_inbox btree_set \<Rightarrow> message_bundle
    \<Rightarrow> (inbox \<times> bundle_in_inbox btree_set, chain_error) result" where
  "remove_one chain must_be_present origin = (\<lambda>(ib, removed) bundle.
    case remove_bundle ib bundle of (ib, res) \<Rightarrow>
    and_then (map_err (chain_error_of_inbox chain origin) res) (\<lambda>was_present.
    and_then (ensure (\<not> must_be_present \<or> was_present) (MissingCrossChainUpdate chain origin (mb_height bundle))) (\<lambda>_.
    Ok (ib, if was_present \<and> \<not> bundle_is_skippable bundle then bts_insert (origin, bundle_cursor bundle) removed else removed))))"

definition remove_origin ::
  "chain_id \<Rightarrow> bool \<Rightarrow> 'd chain_state \<times> bundle_in_inbox btree_set \<Rightarrow> chain_id \<times> message_bundle list
    \<Rightarrow> ('d chain_state \<times> bundle_in_inbox btree_set, chain_error) result" where
  "remove_origin chain must_be_present = (\<lambda>(ch, removed) (origin, bundles).
    and_then (try_fold (remove_one chain must_be_present origin) (load_inbox ch origin, removed) bundles) (\<lambda>(ib, removed).
    Ok (ch\<lparr> ch_inboxes := btm_insert origin ib (ch_inboxes ch) \<rparr>, removed)))"

text \<open>
  The loop that deletes removed bundles from the front of the queue. An iteration deletes an
  entry, so the length of the queue is enough fuel.
\<close>

fun clean_unskippable ::
  "nat \<Rightarrow> timestamped_bundle bucket_queue \<Rightarrow> bundle_in_inbox btree_set \<Rightarrow> bundle_in_inbox btree_set
    \<Rightarrow> (timestamped_bundle bucket_queue \<times> bundle_in_inbox btree_set \<times> bundle_in_inbox btree_set, view_error) result" where
  "clean_unskippable 0 q removed old = Ok (q, removed, old)"
| "clean_unskippable (Suc fuel) q removed old =
    (case bucket_front q of
       None \<Rightarrow> Ok (q, removed, old)
     | Some e \<Rightarrow>
        if List.member removed (tb_entry e) then
          and_then (bucket_delete_front q) (\<lambda>q. clean_unskippable fuel q (bts_remove (tb_entry e) removed) old)
        else if List.member old (tb_entry e) then
          and_then (bucket_delete_front q) (\<lambda>q. clean_unskippable fuel q removed (bts_remove (tb_entry e) old))
        else Ok (q, removed, old))"

definition remove_unskippable ::
  "'d chain_state \<Rightarrow> bundle_in_inbox btree_set \<Rightarrow> ('d chain_state, view_error) result" where
  "remove_unskippable ch removed =
    (if removed = [] then Ok ch
     else
       let q = ch_unskippable_bundles ch; old = ch_removed_unskippable_bundles ch in
       and_then (case bucket_front q of
                   None \<Rightarrow> Ok (q, removed, old)
                 | Some e \<Rightarrow>
                    if List.member removed (tb_entry e) then
                      and_then (bucket_delete_front q) (\<lambda>q.
                      clean_unskippable (bucket_count q) q (bts_remove (tb_entry e) removed) old)
                    else Ok (q, removed, old)) (\<lambda>(q, removed, old).
       Ok (ch\<lparr> ch_unskippable_bundles := q, ch_removed_unskippable_bundles := foldl (\<lambda>s e. bts_insert e s) old removed \<rparr>)))"

definition remove_bundles_from_inboxes ::
  "'d chain_env \<Rightarrow> 'd chain_state \<Rightarrow> timestamp \<Rightarrow> bool \<Rightarrow> incoming_bundle list \<Rightarrow> ('d chain_state, chain_error) result" where
  "remove_bundles_from_inboxes ce ch timestamp must_be_present incoming_bundles =
    (let chain = xc_chain_id (ce_ctx ce) in
     and_then (try_fold (bundles_by_origin_step chain timestamp) [] incoming_bundles) (\<lambda>by_origin.
     and_then (try_fold (remove_origin chain must_be_present) (ch, []) by_origin) (\<lambda>(ch, removed).
     map_err (\<lambda>_. ChainInternalError ''view error'') (remove_unskippable ch removed))))"

section \<open>Replaying a block\<close>

lemma tracker_new_replay:
  "BlockExecutionTracker_new rc published lt' (Some rr) pb =
    and_then (BlockExecutionTracker_new rc published lt None pb) (\<lambda>b. Ok (replay_block lt' rr b))"
  "BlockExecutionTracker_new rc published lt None pb = Ok b \<Longrightarrow>
    bt_replaying b = None \<and> bt_transaction_index b = 0 \<and> bt_oracle_responses b = []"
  by (auto simp: BlockExecutionTracker_new_def and_then_assoc replay_block_def and_then_Ok)

lemma initialized_stays: "sy_description (ch_system ch) \<noteq> None \<Longrightarrow> initialize_if_needed ce ch lt = Ok ch"
  by (simp add: initialize_if_needed_def initialize_chain_def with_execution_context_def)

lemma execute_block_inner_replays:
  assumes env: "replay_env (ce_executor ce) (ce_executor ce') lt' r" "ce_sizes ce' = ce_sizes ce" "ce_state_hash ce' = ce_state_hash ce"
    and run: "execute_block_inner ce st log mbs ebs pb lt round published None = Ok (st1, out)"
    and len: "length (pb_transactions pb) < 2 ^ 32"
  shows "execute_block_inner ce' st log mbs ebs pb lt' r published (Some (beo_oracle_responses out)) = Ok (st1, out)"
proof -
  let ?s = "(ex_system st)\<lparr> sy_timestamp := pb_timestamp pb \<rparr>"
  let ?pub = "btm_of_list (map (\<lambda>b. (blob_id_of b, b)) published)"
  let ?rc = "\<lambda>c. \<lparr> rc_policy = committee_policy c, rc_tracker = tracker_default, rc_account = pb_authenticated_signer pb \<rparr>"
  from run obtain ep c s b b1 pmb peb where c: "current_committee ?s = Some (ep, c)"
    and s: "try_fold (publish_blob (ce_sizes ce) (committee_policy c)) ?s published = Ok s"
    and b: "BlockExecutionTracker_new (?rc c) ?pub lt None pb = Ok b"
    and fold: "try_fold (execute_transaction (ce_executor ce) (ce_sizes ce) round) (b, st\<lparr> ex_system := s \<rparr>) (pb_transactions pb) = Ok (b1, st1)"
    and prev: "previous_blocks mbs log (bt_recipients b1) = Ok pmb" "previous_blocks ebs log (bt_event_streams b1) = Ok peb"
    and fin: "and_then (finalize b1) (\<lambda>(messages, responses, events, blobs, results).
     Ok (st1, \<lparr> beo_messages = messages, beo_previous_message_blocks = pmb, beo_previous_event_blocks = peb,
               beo_state_hash = ce_state_hash ce st1, beo_oracle_responses = responses, beo_events = events,
               beo_blobs = blobs, beo_operation_results = results \<rparr>)) = Ok (st1, out)"
    by (auto simp: execute_block_inner_def Let_def and_then_Ok ok_or_Ok)
  from fin have out: "beo_oracle_responses out = bt_oracle_responses b1"
    by (auto simp: finalize_def and_then_Ok)
  from tracker_new_replay(2) [OF b] have "bt_replaying b = None" "unat (bt_transaction_index b) = length (bt_oracle_responses b)"
    "length (bt_oracle_responses b) + length (pb_transactions pb) < 2 ^ 32" "bt_oracle_responses b = []"
    using len by simp_all
  from transactions_replay [OF env(1) fold this(1-3)] this(4)
  have "try_fold (execute_transaction (ce_executor ce') (ce_sizes ce) r) (replay_block lt' (bt_oracle_responses b1) b, st\<lparr> ex_system := s \<rparr>)
      (pb_transactions pb) = Ok (replay_block lt' (bt_oracle_responses b1) b1, st1)"
    by (metis append_Nil append_Nil2)
  with c s b prev fin show ?thesis
    by (simp add: execute_block_inner_def Let_def env tracker_new_replay(1) [where lt = lt] out)
qed


text \<open>A chain whose contracts ask a service once and then stop.\<close>

definition demo_run :: "actor \<Rightarrow> amount resource_controller \<Rightarrow> account option \<Rightarrow> application_id \<Rightarrow> user_action
    \<Rightarrow> (actor \<times> bytes option \<times> amount resource_controller, execution_error) result" where
  "demo_run ac c refund app action =
    and_then (tracker_oracle (ac_tracker ac) (Ok (OracleService [7]))) (\<lambda>(t, _). Ok (ac\<lparr> ac_tracker := t \<rparr>, None, c))"

definition demo_env :: "unit chain_env" where
  "demo_env =
    \<lparr> ce_executor = \<lparr> en_depth = 0, en_codec = demo_codec,
        en_ctx = (demo_ctx 5)\<lparr> xc_contains_blob := \<lambda>_. True \<rparr>, en_rounds = 1, en_run = demo_run \<rparr>,
      ce_sizes = \<lparr> bz_bundle = (\<lambda>_. 1), bz_operation = (\<lambda>_. 1), bz_outcome = (\<lambda>_. 1), bz_result = (\<lambda>_. 1),
        bz_decompressed = (\<lambda>_ _. Ok True) \<rparr>,
      ce_crypto = demo_crypto, ce_sampler = demo_sampler, ce_state_hash = (\<lambda>_. 9) \<rparr>"

definition demo_chain :: "unit chain_state" where
  "demo_chain =
    \<lparr> ch_execution_state =
        \<lparr> ex_system = demo_system\<lparr>
            sy_description := Some \<lparr> cd_origin = Root 0, cd_timestamp = 0, cd_config =
              \<lparr> icc_ownership = single (Address20 1), icc_epoch = 0, icc_min_active_epoch = 0, icc_max_active_epoch = 0,
                icc_balance = 1000, icc_application_permissions = permissions_default \<rparr> \<rparr>,
            sy_committees := [(0, demo_single)] \<rparr>,
          ex_users = [], ex_stream_event_counts = [] \<rparr>,
      ch_execution_state_hash = None,
      ch_tip_state = \<lparr> tip_block_hash = None, tip_next_block_height = 0, tip_num_incoming_bundles = 0, tip_num_operations = 0,
        tip_num_outgoing_messages = 0 \<rparr>,
      ch_manager = demo_manager, ch_pending_validated_blobs = pending_blobs_new, ch_pending_proposed_blobs = [],
      ch_confirmed_log = [], ch_received_log = [], ch_received_certificate_trackers = [], ch_inboxes = [],
      ch_unskippable_bundles = bucket_load \<lparr> bs_stored = None, bs_values = Map.empty \<rparr>, ch_removed_unskippable_bundles = [],
      ch_previous_message_blocks = [], ch_previous_event_blocks = [], ch_outboxes = [], ch_outbox_counters = [],
      ch_nonempty_outboxes = [], ch_preprocessed_blocks = [] \<rparr>"

definition demo_chain_block :: proposed_block where
  "demo_chain_block =
    \<lparr> pb_chain_id = 5, pb_epoch = 0,
      pb_transactions = [ExecuteOperation (UserOp 3 []), ExecuteOperation (SystemOp (VerifyBlob (BlobId Data 3)))],
      pb_height = 0, pb_timestamp = 10, pb_authenticated_signer = None, pb_previous_block_hash = None \<rparr>"

lemma demo_runtime_replays: "runtime_replays (ce_executor demo_env) (ce_executor demo_env) lt r"
  unfolding runtime_replays_def
proof (intro allI replays_atI)
  fix c refund app action ac b
  assume "en_run (ce_executor demo_env) ac c refund app action = Ok b" "tt_replaying (ac_tracker (fst on_actor ac)) = None"
  then obtain t r where t: "tracker_oracle (ac_tracker ac) (Ok (OracleService [7])) = Ok (t, r)"
    "b = (ac\<lparr> ac_tracker := t \<rparr>, None, c)" "tt_replaying (ac_tracker ac) = None"
    by (auto simp: demo_env_def demo_run_def and_then_Ok)
  from tracker_oracle_replays [OF t(1,3)] show "\<exists>rs. records (ac_tracker (fst on_actor ac)) rs (ac_tracker (fst on_first b)) \<and>
      (\<forall>rest. en_run (ce_executor demo_env) (snd on_actor (replay_actor lt (rs @ rest)) ac) c refund app (in_round r' action) =
        Ok (snd on_first (replay_actor lt rest) b))" for r'
    by (intro exI [of _ "[r]"]) (simp add: demo_env_def demo_run_def t(2) replay_actor_def)
qed

lemmas demo_chain_simps = demo_chain_def demo_chain_block_def demo_env_def demo_system_def demo_ctx_def demo_codec_def

lemmas demo_block_simps = check_app_permissions_def permission_step_def permissions_default_def
  is_exempt_from_permissions_def can_execute_operations_def ensure_def operation_application_id_def
  pb_published_blob_ids_def current_committee_def demo_single_def Committee_new_def BlockExecutionTracker_new_def
  track_block_size_def tracker_default_def no_fees_def ok_or_def with_execution_context_def EMPTY_BLOCK_SIZE_def
  checked_add_def

lemmas demo_tx_simps = execute_transaction_def new_transaction_tracker_def bt_current_responses_def
  TransactionTracker_new_def run_transaction_def bt_execution_context_def with_state_def with_state_and_grant_def
  execute_operation_def run_user_action_def state_balance_def arith_def sources_balance_def demo_run_def
  tracker_oracle_def next_replayed_oracle_response_def merge_balance_def rc_balance_def sources_holder_def
  amount_holder_def process_subscriptions_def take_streams_to_process_def add_operation_result_def
  process_txn_outcome_def track_txn_outcome_def finalize_def into_outcome_def word_max_def track_operation_def
  update_balance_def charge_def operation_bytes_price_def blob_read_price_def try_add_def try_add_one_def try_mul_def
  checked_mul_def checked_sub_def try_sub_def try_sub_assign_def try_add_assign_def sources_try_add_assign_def
  system_execute_operation_def assert_blob_exists_def track_blob_read_def blob_used_def replay_oracle_response_def
  Let_def

lemma demo_block_permitted:
  "pb_published_blob_ids demo_chain_block = bts_of_list []"
  "check_app_permissions (sy_application_permissions (ch_system demo_chain)) demo_chain_block = Ok ()"
  "initialize_if_needed demo_env demo_chain lt = Ok demo_chain"
  by (simp_all add: initialized_stays demo_chain_simps demo_block_simps operations_in_def List.map_filter_def operation_of_def operation_published_blob_ids_def)

lemma demo_block_executes:
  "(case execute_block demo_env demo_chain demo_chain_block 10 (Some 0) [] None of
      Ok (_, out) \<Rightarrow> beo_oracle_responses out | Err _ \<Rightarrow> []) = [[OracleService [7]], [OracleBlob (BlobId Data 3)]]"
  by (simp add: execute_block_def execute_block_inner_def demo_block_permitted)
    (simp add: demo_chain_simps demo_block_simps demo_tx_simps bt_recipients_def bt_event_streams_def previous_blocks_def bts_of_list_def)


end
