(* ===== verification/Chain_Invariants.thy ===== *)
theory Chain_Invariants
  imports Chain
begin

text \<open>
  Invariants of the state of a chain over the operations of \<open>linera-chain/src/chain.rs\<close>: the log of
  confirmed blocks agrees with the tip, and the counters of the outboxes count what is in them.
\<close>

section \<open>The outboxes and their counters\<close>

definition outbox_heights :: "'d chain_state \<Rightarrow> chain_id \<Rightarrow> block_height list" where
  "outbox_heights ch target = outbox_items (load_outbox ch target)"

definition counter :: "'d chain_state \<Rightarrow> block_height \<Rightarrow> u32" where
  "counter ch h = (case btm_get (ch_outbox_counters ch) h of None \<Rightarrow> 0 | Some n \<Rightarrow> n)"

definition waiting :: "'d chain_state \<Rightarrow> block_height \<Rightarrow> chain_id set" where
  "waiting ch h = {target. h \<in> set (outbox_heights ch target)}"

definition outboxes_ok :: "'d chain_state \<Rightarrow> bool" where
  "outboxes_ok ch \<longleftrightarrow> btm_ok (ch_outboxes ch) \<and> (\<forall>target. outbox_inv (load_outbox ch target)) \<and>
    btm_ok (ch_outbox_counters ch) \<and> (\<forall>h. btm_get (ch_outbox_counters ch) h \<noteq> Some 0) \<and>
    (\<forall>h. unat (counter ch h) = card (waiting ch h)) \<and>
    set (ch_nonempty_outboxes ch) = {target. outbox_heights ch target \<noteq> []}"

lemma waiting_bound:
  "waiting ch h \<subseteq> fst ` set (ch_outboxes ch)" "finite (waiting ch h)" "card (waiting ch h) \<le> length (ch_outboxes ch)"
proof -
  show sub: "waiting ch h \<subseteq> fst ` set (ch_outboxes ch)"
  proof
    fix t assume "t \<in> waiting ch h"
    then have "btm_get (ch_outboxes ch) t \<noteq> None"
      by (cases "btm_get (ch_outboxes ch) t") (simp_all add: waiting_def outbox_heights_def load_outbox_def outbox_new_inv)
    then show "t \<in> fst ` set (ch_outboxes ch)" by (simp add: map_of_eq_None_iff)
  qed
  then show "finite (waiting ch h)" by (rule finite_subset) simp
  from card_mono [OF _ sub] card_length [of "map fst (ch_outboxes ch)"]
  show "card (waiting ch h) \<le> length (ch_outboxes ch)" by simp
qed

lemma load_outbox_insert:
  assumes "btm_ok (ch_outboxes ch)"
  shows "load_outbox (ch\<lparr> ch_outboxes := btm_insert target ob (ch_outboxes ch) \<rparr>) = (load_outbox ch)(target := ob)"
  using assms by (simp add: load_outbox_def fun_eq_iff)

text \<open>Two states with the same mailboxes satisfy the invariant alike.\<close>

lemma outboxes_ok_same:
  assumes "ch_outboxes ch' = ch_outboxes ch" "ch_outbox_counters ch' = ch_outbox_counters ch" "ch_nonempty_outboxes ch' = ch_nonempty_outboxes ch"
  shows "outboxes_ok ch' = outboxes_ok ch" "outbox_heights ch' = outbox_heights ch" "waiting ch' = waiting ch" "counter ch' = counter ch"
    "load_outbox ch' = load_outbox ch"
  using assms by (auto simp: outboxes_ok_def outbox_heights_def waiting_def counter_def load_outbox_def fun_eq_iff)

text \<open>Loading an entry of the collection adds it, which changes nothing that can be observed.\<close>

lemma outboxes_ok_load:
  assumes "outboxes_ok ch"
  shows "outboxes_ok (ch\<lparr> ch_outboxes := btm_insert target (load_outbox ch target) (ch_outboxes ch) \<rparr>)"
proof -
  let ?ch = "ch\<lparr> ch_outboxes := btm_insert target (load_outbox ch target) (ch_outboxes ch) \<rparr>"
  have "load_outbox ?ch = load_outbox ch" using assms load_outbox_insert [of ch] by (auto simp: outboxes_ok_def)
  with assms show ?thesis by (simp add: outboxes_ok_def outbox_heights_def waiting_def counter_def)
qed

lemma outboxes_ok_schedule:
  assumes inv: "outboxes_ok ch" and sched: "schedule_message (load_outbox ch target) h = (ob, Ok True)"
    and small: "length (btm_insert target ob (ch_outboxes ch)) < 2 ^ 32"
    and ch': "ch' = ch\<lparr> ch_outboxes := btm_insert target ob (ch_outboxes ch),
      ch_outbox_counters := btm_insert h (counter ch h + 1) (ch_outbox_counters ch),
      ch_nonempty_outboxes := bts_insert target (ch_nonempty_outboxes ch) \<rparr>"
  shows "outboxes_ok ch'" "outbox_heights ch' = (outbox_heights ch)(target := outbox_heights ch target @ [h])"
proof -
  from inv have ok: "btm_ok (ch_outboxes ch)" "btm_ok (ch_outbox_counters ch)" "outbox_inv (load_outbox ch target)"
    by (simp_all add: outboxes_ok_def)
  note s = schedule_message_Ok [OF ok(3) sched]
  have load: "load_outbox ch' = (load_outbox ch)(target := ob)"
    using load_outbox_insert [OF ok(1)] by (simp add: ch' load_outbox_def fun_eq_iff)
  then show heights: "outbox_heights ch' = (outbox_heights ch)(target := outbox_heights ch target @ [h])"
    using s(2) by (simp add: outbox_heights_def fun_eq_iff)
  have "h \<notin> set (outbox_heights ch target)"
    using ok(3) s(3) by (auto simp: outbox_inv_def outbox_heights_def)
  then have wait: "waiting ch' k = (if k = h then insert target (waiting ch h) else waiting ch k)" "target \<notin> waiting ch h" for k
    by (auto simp: waiting_def heights)
  have "card (waiting ch' h) < 2 ^ 32" using waiting_bound(3) [of ch' h] small by (simp add: ch')
  then have card: "card (waiting ch h) + 1 < 2 ^ 32" using wait by (simp add: waiting_bound)
  from inv have count: "unat (counter ch h) = card (waiting ch h)" by (simp add: outboxes_ok_def)
  with card have plus: "unat (counter ch h + 1) = card (waiting ch h) + 1"
    using unat_add_lem [of "counter ch h" 1] by simp
  then have nz: "counter ch h + 1 \<noteq> 0" by auto
  have counter: "counter ch' = (counter ch)(h := counter ch h + 1)"
    using ok(2) by (simp add: counter_def ch' fun_eq_iff)
  show "outboxes_ok ch'"
    unfolding outboxes_ok_def
  proof (intro conjI allI)
    show "unat (counter ch' k) = card (waiting ch' k)" for k
      using inv plus wait by (simp add: counter outboxes_ok_def waiting_bound)
    show "set (ch_nonempty_outboxes ch') = {target. outbox_heights ch' target \<noteq> []}"
      using inv unfolding heights by (auto simp: ch' outboxes_ok_def)
    show "btm_get (ch_outbox_counters ch') k \<noteq> Some 0" for k
      using inv ok(2) nz by (simp add: ch' outboxes_ok_def)
  qed (use inv ok s(1) in \<open>auto simp: outboxes_ok_def load, auto simp: ch' outboxes_ok_def\<close>)
qed

lemma schedule_target_ok:
  assumes inv: "outboxes_ok ch" and run: "schedule_target blk ch target = Ok ch'" and small: "length (ch_outboxes ch') < 2 ^ 32"
  shows "outboxes_ok ch'"
proof -
  let ?h = "bh_height (b_header blk)" and ?ob = "load_outbox ch target"
  from run obtain may where may: "may_schedule ch blk target ?ob = Ok may" by (auto simp: schedule_target_def Let_def and_then_Ok)
  obtain ob r where sched: "schedule_message ?ob ?h = (ob, r)" by fastforce
  show ?thesis
  proof (cases "may \<and> r = Ok True")
    case True
    with run may sched have "ch' = ch\<lparr> ch_outboxes := btm_insert target ob (ch_outboxes ch),
        ch_outbox_counters := btm_insert ?h (counter ch ?h + 1) (ch_outbox_counters ch),
        ch_nonempty_outboxes := bts_insert target (ch_nonempty_outboxes ch) \<rparr>"
      by (simp add: schedule_target_def Let_def counter_def chain_arith_def)
    from outboxes_ok_schedule(1) [OF inv _ _ this] sched True small this show ?thesis by simp
  next
    case False
    with run may sched have "ch' = ch\<lparr> ch_outboxes := btm_insert target ?ob (ch_outboxes ch) \<rparr>"
      using inv schedule_message_Ok(5) [of ?ob ?h ob False]
      by (auto simp: schedule_target_def Let_def chain_arith_def and_then_Ok map_err_Ok outboxes_ok_def split: if_splits)
    with outboxes_ok_load [OF inv] show ?thesis by simp
  qed
qed

lemma btm_insert_length: "length m \<le> length (btm_insert k v m)"
  by (induction k v m rule: btm_insert.induct) auto

text \<open>Scheduling changes the mailboxes and nothing else.\<close>

definition mail_only :: "'d chain_state \<Rightarrow> 'd chain_state \<Rightarrow> bool" where
  "mail_only ch ch' \<longleftrightarrow> ch = ch'\<lparr> ch_outboxes := ch_outboxes ch, ch_outbox_counters := ch_outbox_counters ch,
    ch_nonempty_outboxes := ch_nonempty_outboxes ch \<rparr>"

lemma mail_only_sel:
  assumes "mail_only ch ch'"
  shows "ch_tip_state ch' = ch_tip_state ch" "ch_confirmed_log ch' = ch_confirmed_log ch"
    "ch_previous_message_blocks ch' = ch_previous_message_blocks ch" "ch_previous_event_blocks ch' = ch_previous_event_blocks ch"
  using assms by (cases ch; cases ch'; simp add: mail_only_def)+

lemma schedule_target_frame:
  assumes "schedule_target blk ch target = Ok ch'"
  shows "length (ch_outboxes ch) \<le> length (ch_outboxes ch') \<and> mail_only ch ch'"
  using assms btm_insert_length
  by (auto simp: schedule_target_def Let_def and_then_Ok mail_only_def split: if_splits prod.splits)

lemma schedule_targets:
  assumes "try_fold (schedule_target blk) ch targets = Ok ch'"
  shows "length (ch_outboxes ch) \<le> length (ch_outboxes ch') \<and> mail_only ch ch' \<and>
    (outboxes_ok ch \<longrightarrow> length (ch_outboxes ch') < 2 ^ 32 \<longrightarrow> outboxes_ok ch')"
  using assms
proof (induction targets arbitrary: ch)
  case (Cons target targets)
  then obtain ch1 where 1: "schedule_target blk ch target = Ok ch1" "try_fold (schedule_target blk) ch1 targets = Ok ch'"
    by (auto simp: and_then_Ok)
  have "mail_only ch ch1 \<Longrightarrow> mail_only ch1 ch' \<Longrightarrow> mail_only ch ch'"
    by (cases ch; cases ch1; cases ch'; simp add: mail_only_def)
  with Cons.IH [OF 1(2)] schedule_target_frame [OF 1(1)] schedule_target_ok [OF _ 1(1)] show ?case by auto
qed (simp add: mail_only_def)

text \<open>Acknowledged heights are taken off their counters, which are there and are not zero.\<close>

lemma count_received_Ok:
  assumes "btm_ok m" "btm_get m u = Some n" "n \<noteq> 0"
  shows "\<exists>m'. count_received m u = Ok m' \<and> btm_ok m' \<and> btm_get m' = (btm_get m)(u := if n = 1 then None else Some (n - 1))"
proof -
  have "checked_sub n 1 = Some (n - 1)" using assms(3) by (simp add: checked_sub_def word_le_nat_alt unat_gt_0 Suc_le_eq)
  with assms show ?thesis
    by (auto simp: count_received_def chain_arith_def ok_or_def)
qed

lemma counts_received_Ok:
  assumes "btm_ok m" "distinct us" "\<And>u. u \<in> set us \<Longrightarrow> \<exists>n. btm_get m u = Some n \<and> n \<noteq> 0"
  shows "\<exists>m'. try_fold count_received m us = Ok m' \<and> btm_ok m' \<and>
    btm_get m' = (\<lambda>u. if u \<in> set us then (if btm_get m u = Some 1 then None else map_option (\<lambda>n. n - 1) (btm_get m u)) else btm_get m u)"
  using assms
proof (induction us arbitrary: m)
  case (Cons u us)
  then obtain n where n: "btm_get m u = Some n" "n \<noteq> 0" by auto
  from count_received_Ok [OF Cons.prems(1) this] obtain m1 where
    m1: "count_received m u = Ok m1" "btm_ok m1" "btm_get m1 = (btm_get m)(u := if n = 1 then None else Some (n - 1))" by blast
  have "\<exists>n. btm_get m1 v = Some n \<and> n \<noteq> 0" if "v \<in> set us" for v
    using Cons.prems(2,3) that by (auto simp: m1(3))
  from Cons.IH [OF m1(2) _ this] Cons.prems(2) m1 n show ?case by (fastforce simp: fun_eq_iff)
qed auto

definition taken_off :: "block_height list \<Rightarrow> (block_height \<rightharpoonup> u32) \<Rightarrow> (block_height \<rightharpoonup> u32)" where
  "taken_off us m = (\<lambda>u. if u \<in> set us then (if m u = Some 1 then None else map_option (\<lambda>n. n - 1) (m u)) else m u)"

lemma outboxes_ok_received:
  assumes inv: "outboxes_ok ch" and us: "us = filter (\<lambda>k. k \<le> h) (outbox_heights ch target)"
    and load: "load_outbox ch' = (load_outbox ch)(target := ob)"
    and ob: "outbox_inv ob" "outbox_items ob = filter (\<lambda>k. h < k) (outbox_heights ch target)"
    and ok: "btm_ok (ch_outboxes ch')" "btm_ok (ch_outbox_counters ch')"
    and counters: "btm_get (ch_outbox_counters ch') = taken_off us (btm_get (ch_outbox_counters ch))"
    and nonempty: "set (ch_nonempty_outboxes ch') = set (ch_nonempty_outboxes ch) - (if outbox_items ob = [] then {target} else {})"
  shows "outboxes_ok ch'" "outbox_heights ch' = (outbox_heights ch)(target := filter (\<lambda>k. h < k) (outbox_heights ch target))"
proof -
  show heights: "outbox_heights ch' = (outbox_heights ch)(target := filter (\<lambda>k. h < k) (outbox_heights ch target))"
    by (simp add: outbox_heights_def load fun_eq_iff ob(2))
  have wait: "waiting ch' k = (if k \<in> set us then waiting ch k - {target} else waiting ch k)"
    "k \<in> set us \<Longrightarrow> target \<in> waiting ch k" for k
    by (auto simp: waiting_def heights us)
  have card: "unat (counter ch' k) = card (waiting ch' k)" "btm_get (ch_outbox_counters ch') k \<noteq> Some 0" for k
  proof -
    have old: "unat (counter ch k) = card (waiting ch k)" "btm_get (ch_outbox_counters ch) k \<noteq> Some 0"
      using inv by (simp_all add: outboxes_ok_def)
    have "unat (counter ch' k) = card (waiting ch' k) \<and> btm_get (ch_outbox_counters ch') k \<noteq> Some 0"
    proof (cases "k \<in> set us")
      case True
      with wait(2) have "0 < card (waiting ch k)" by (auto simp: card_gt_0_iff waiting_bound)
      with old obtain n where n: "btm_get (ch_outbox_counters ch) k = Some n" "n \<noteq> 0" "unat n = card (waiting ch k)"
        by (auto simp: counter_def split: option.splits)
      then have "unat (n - 1) = card (waiting ch k) - 1" using unat_minus_one [of n] by simp
      with True wait n show ?thesis by (auto simp: counter_def counters taken_off_def waiting_bound)
    next
      case False
      with old wait show ?thesis by (simp add: counter_def counters taken_off_def)
    qed
    then show "unat (counter ch' k) = card (waiting ch' k)" "btm_get (ch_outbox_counters ch') k \<noteq> Some 0" by simp_all
  qed
  have "set (ch_nonempty_outboxes ch') = {target. outbox_heights ch' target \<noteq> []}"
    using inv unfolding heights nonempty ob(2) outboxes_ok_def by auto
  with card ok ob(1) inv show "outboxes_ok ch'" by (simp add: outboxes_ok_def load)
qed

lemma mark_messages_as_received_ok:
  fixes ch :: "'d chain_state"
  assumes inv: "outboxes_ok ch"
  shows "\<exists>ch'. chain_mark_messages_as_received ch target h = Ok (ch', \<exists>k \<in> set (outbox_heights ch target). k \<le> h) \<and>
    outboxes_ok ch' \<and> mail_only ch ch' \<and>
    outbox_heights ch' = (outbox_heights ch)(target := filter (\<lambda>k. h < k) (outbox_heights ch target))"
proof -
  let ?us = "filter (\<lambda>k. k \<le> h) (outbox_heights ch target)"
  from inv have ok: "btm_ok (ch_outboxes ch)" "btm_ok (ch_outbox_counters ch)" "outbox_inv (load_outbox ch target)"
    by (simp_all add: outboxes_ok_def)
  from mark_received [OF ok(3), of h] obtain ob where
    ob: "outbox_mark_messages_as_received (load_outbox ch target) h = (ob, Ok ?us)" "outbox_inv ob"
      "outbox_items ob = filter (\<lambda>k. h < k) (outbox_heights ch target)"
    by (auto simp: outbox_heights_def)
  have count: "bucket_count (outbox_queue ob) = length (outbox_items ob)"
    using ob(2) by (simp add: outbox_inv_def outbox_items_def bucket_count_items)
  let ?ch = "ch\<lparr> ch_outboxes := btm_insert target ob (ch_outboxes ch) \<rparr>"
  have dist: "distinct ?us"
    using ok(3) by (simp add: outbox_inv_def outbox_heights_def strict_sorted_iff)
  have there: "\<exists>n. btm_get (ch_outbox_counters ch) u = Some n \<and> n \<noteq> 0" if "u \<in> set ?us" for u
  proof -
    from that have "target \<in> waiting ch u" by (simp add: waiting_def)
    then have "0 < card (waiting ch u)" by (auto simp: card_gt_0_iff waiting_bound)
    with inv show ?thesis by (fastforce simp: outboxes_ok_def counter_def split: option.splits)
  qed
  from counts_received_Ok [OF ok(2) dist there] obtain counters where counters:
    "try_fold count_received (ch_outbox_counters ch) ?us = Ok counters" "btm_ok counters"
    "btm_get counters = taken_off ?us (btm_get (ch_outbox_counters ch))"
    by (auto simp: taken_off_def)
  have load: "ch_outboxes c = btm_insert target ob (ch_outboxes ch) \<Longrightarrow> load_outbox c = (load_outbox ch)(target := ob)"
    "ch_outboxes c = btm_remove target (btm_insert target ob (ch_outboxes ch)) \<Longrightarrow> load_outbox c = (load_outbox ch)(target := outbox_new)"
    for c :: "'d chain_state"
    using ok(1) by (simp_all add: load_outbox_def fun_eq_iff)
  note received = outboxes_ok_received [OF inv refl _ _ _ _ _ _ _, where h = h and target = target]
  show ?thesis
  proof (cases "?us = []")
    case True
    then have same: "filter (\<lambda>k. h < k) (outbox_heights ch target) = outbox_heights ch target"
      by (auto simp: filter_empty_conv filter_id_conv not_le)
    let ?ch' = "ch\<lparr> ch_outboxes := btm_insert target ob (ch_outboxes ch) \<rparr>"
    have "taken_off ?us m = m" for m using True by (simp add: taken_off_def)
    moreover have "target \<notin> set (ch_nonempty_outboxes ch)" if "outbox_items ob = []"
      using that inv by (simp add: ob(3) same outboxes_ok_def)
    ultimately have "outboxes_ok ?ch'" "outbox_heights ?ch' = (outbox_heights ch)(target := filter (\<lambda>k. h < k) (outbox_heights ch target))"
      using received [of ?ch' ob] load_outbox_insert [OF ok(1), of target ob] ob(2,3) ok by auto
    moreover have "chain_mark_messages_as_received ch target h = Ok (?ch', False)" using True ob(1) by (simp add: chain_mark_messages_as_received_def)
    moreover have "mail_only ch ?ch'" by (simp add: mail_only_def)
    ultimately show ?thesis using True by (auto simp: filter_empty_conv)
  next
    case False
    let ?n = "if outbox_items ob = [] then bts_remove target (ch_nonempty_outboxes ch) else ch_nonempty_outboxes ch"
    let ?prune = "outbox_items ob = [] \<and> next_height_to_schedule ob \<le> tip_next_block_height (ch_tip_state ch)"
    let ?o = "if ?prune then btm_remove target (btm_insert target ob (ch_outboxes ch)) else btm_insert target ob (ch_outboxes ch)"
    let ?ch' = "ch\<lparr> ch_outboxes := ?o, ch_outbox_counters := counters, ch_nonempty_outboxes := ?n \<rparr>"
    have "load_outbox ?ch' = (load_outbox ch)(target := if ?prune then outbox_new else ob)" by (simp add: load)
    from received [OF this] have "outboxes_ok ?ch'" "outbox_heights ?ch' = (outbox_heights ch)(target := filter (\<lambda>k. h < k) (outbox_heights ch target))"
      using ob(2,3) ok counters outbox_new_inv by auto
    moreover have "chain_mark_messages_as_received ch target h = Ok (?ch', True)"
      using False ob(1) counters(1) by (simp add: chain_mark_messages_as_received_def count)
    moreover have "mail_only ch ?ch'" by (simp add: mail_only_def)
    moreover have "\<exists>k \<in> set (outbox_heights ch target). k \<le> h" using False by (auto simp: filter_empty_conv)
    ultimately show ?thesis by (intro exI [of _ ?ch']) simp
  qed
qed

lemma delivered_exact:
  assumes "outboxes_ok ch"
  shows "all_messages_delivered_up_to ch h \<longleftrightarrow> (\<forall>target. \<forall>k \<in> set (outbox_heights ch target). h < k)"
proof -
  let ?m = "ch_outbox_counters ch"
  have ok: "btm_ok ?m" using assms by (simp add: outboxes_ok_def)
  have mem: "k \<in> fst ` set ?m \<longleftrightarrow> (\<exists>target. k \<in> set (outbox_heights ch target))" for k
  proof -
    have "k \<in> fst ` set ?m \<longleftrightarrow> counter ch k \<noteq> 0"
      using assms map_of_eq_None_iff [of ?m k] by (auto simp: outboxes_ok_def counter_def split: option.splits)
    also have "\<dots> \<longleftrightarrow> card (waiting ch k) \<noteq> 0" using assms by (simp add: outboxes_ok_def unat_eq_zero [symmetric])
    finally show ?thesis using waiting_bound(2) [of ch k] by (auto simp: waiting_def)
  qed
  have "all_messages_delivered_up_to ch h \<longleftrightarrow> (\<forall>k \<in> fst ` set ?m. h < k)"
    using ok by (cases ?m) (auto simp: all_messages_delivered_up_to_def btm_ok_Cons)
  then show ?thesis unfolding mem Ball_def by blast
qed

section \<open>The log of confirmed blocks\<close>

definition log_ok :: "'d chain_state \<Rightarrow> bool" where
  "log_ok ch \<longleftrightarrow> length (ch_confirmed_log ch) = unat (tip_next_block_height (ch_tip_state ch)) \<and>
    tip_block_hash (ch_tip_state ch) = (if ch_confirmed_log ch = [] then None else Some (last (ch_confirmed_log ch))) \<and>
    (\<forall>h \<in> snd ` set (ch_previous_message_blocks ch). h < tip_next_block_height (ch_tip_state ch)) \<and>
    (\<forall>h \<in> snd ` set (ch_previous_event_blocks ch). h < tip_next_block_height (ch_tip_state ch))"

lemma btm_insert_values: "snd ` set (btm_insert k v m) \<subseteq> insert v (snd ` set m)"
  by (induction k v m rule: btm_insert.induct) auto

lemma foldl_insert_values: "snd ` set (foldl (\<lambda>m x. btm_insert (f x) v m) m xs) \<subseteq> insert v (snd ` set m)"
proof (induction xs arbitrary: m)
  case (Cons x xs)
  from Cons [of "btm_insert (f x) v m"] btm_insert_values [of "f x" v m] show ?case by auto
qed auto

lemma previous_blocks_Ok:
  assumes "\<forall>h \<in> snd ` set heights. unat h < length log"
  shows "\<exists>m. previous_blocks heights log ks = Ok m"
proof -
  have "\<exists>m'. try_fold (previous_block_step heights log) m ks = Ok m'" for m
  proof (induction ks arbitrary: m)
    case (Cons k ks)
    have "\<exists>m'. previous_block_step heights log m k = Ok m'"
      using assms by (fastforce simp: previous_block_step_def split: option.split dest: map_of_SomeD)
    with Cons show ?case by auto
  qed simp
  then show ?thesis by (simp add: previous_blocks_def)
qed

lemma update_counters_tip:
  "update_counters tip txs ms = Ok tip' \<Longrightarrow> tip_block_hash tip' = tip_block_hash tip \<and> tip_next_block_height tip' = tip_next_block_height tip"
  by (auto simp: update_counters_def Let_def and_then_Ok)

lemma apply_confirmed_block_Ok:
  assumes "apply_confirmed_block ce ch blk lt = Ok ch'"
  obtains ch1 where "try_fold (schedule_target blk) (ch\<lparr> ch_execution_state_hash := Some (bh_state_hash (b_header blk)) \<rparr>) (recipients blk) = Ok ch1"
    "ch_outboxes ch' = ch_outboxes ch1" "ch_outbox_counters ch' = ch_outbox_counters ch1" "ch_nonempty_outboxes ch' = ch_nonempty_outboxes ch1"
    "ch_confirmed_log ch' = ch_confirmed_log ch1 @ [h_block (ce_hashes ce) blk]"
    "tip_block_hash (ch_tip_state ch') = Some (h_block (ce_hashes ce) blk)"
    "unat (tip_next_block_height (ch_tip_state ch')) = unat (tip_next_block_height (ch_tip_state ch1)) + 1"
    "snd ` set (ch_previous_message_blocks ch') \<subseteq> insert (bh_height (b_header blk)) (snd ` set (ch_previous_message_blocks ch1))"
    "snd ` set (ch_previous_event_blocks ch') \<subseteq> insert (bh_height (b_header blk)) (snd ` set (ch_previous_event_blocks ch1))"
proof -
  let ?h = "bh_height (b_header blk)"
  from assms obtain ch1 n n' tip where
    1: "try_fold (schedule_target blk) (ch\<lparr> ch_execution_state_hash := Some (bh_state_hash (b_header blk)) \<rparr>) (recipients blk) = Ok ch1"
    and n: "try_add_one ?h = Ok n" and n': "try_add_one (tip_next_block_height (ch_tip_state ch1)) = Ok n'"
    and tip: "update_counters ((ch_tip_state ch1)\<lparr> tip_block_hash := Some (h_block (ce_hashes ce) blk), tip_next_block_height := n' \<rparr>)
      (bb_transactions (b_body blk)) (bb_messages (b_body blk)) = Ok tip"
    and ch': "ch_outboxes ch' = ch_outboxes ch1" "ch_outbox_counters ch' = ch_outbox_counters ch1" "ch_nonempty_outboxes ch' = ch_nonempty_outboxes ch1"
      "ch_confirmed_log ch' = ch_confirmed_log ch1 @ [h_block (ce_hashes ce) blk]" "ch_tip_state ch' = tip"
      "ch_previous_message_blocks ch' = foldl (\<lambda>m target. btm_insert target ?h m) (ch_previous_message_blocks ch1) (recipients blk)"
      "ch_previous_event_blocks ch' = foldl (\<lambda>m e. btm_insert (event_stream_id e) ?h m) (ch_previous_event_blocks ch1) (concat (bb_events (b_body blk)))"
    by (auto simp: apply_confirmed_block_def process_outgoing_messages_def Let_def and_then_Ok chain_arith_def map_err_Ok
        reset_chain_manager_def reset_manager_def)
  from n' have "unat n' = unat (tip_next_block_height (ch_tip_state ch1)) + 1" by (simp add: try_add_one_Ok)
  with that [OF 1 ch'(1-4)] update_counters_tip [OF tip]
    foldl_insert_values [of "\<lambda>x. x" ?h "ch_previous_message_blocks ch1" "recipients blk"]
    foldl_insert_values [of event_stream_id ?h "ch_previous_event_blocks ch1" "concat (bb_events (b_body blk))"]
  show ?thesis by (simp add: ch'(5-7))
qed

section \<open>The operations of a chain\<close>

text \<open>
  A confirmed block is applied at the next height, which the worker checks. The counters have 32 bits,
  so a chain is taken to have fewer than \<open>2 ^ 32\<close> recipients.
\<close>

inductive chain_step :: "'d chain_env \<Rightarrow> 'd chain_state \<Rightarrow> 'd chain_state \<Rightarrow> bool" for ce where
  executed: "execute_block ce ch pb lt round published replaying = Ok (ch', out) \<Longrightarrow> chain_step ce ch ch'"
| confirmed: "apply_confirmed_block ce ch blk lt = Ok ch' \<Longrightarrow>
    bh_height (b_header blk) = tip_next_block_height (ch_tip_state ch) \<Longrightarrow> length (ch_outboxes ch') < 2 ^ 32 \<Longrightarrow> chain_step ce ch ch'"
| preprocessed: "preprocess_block ce ch blk = Ok ch' \<Longrightarrow> length (ch_outboxes ch') < 2 ^ 32 \<Longrightarrow> chain_step ce ch ch'"
| acknowledged: "chain_mark_messages_as_received ch target h = Ok (ch', x) \<Longrightarrow> chain_step ce ch ch'"
| received: "receive_message_bundle ce ch origin bundle lt add_to_log = Ok ch' \<Longrightarrow> chain_step ce ch ch'"
| removed: "remove_bundles_from_inboxes ce ch timestamp must_be_present bundles = Ok ch' \<Longrightarrow> chain_step ce ch ch'"
| synchronized: "chain_step ce ch (update_received_certificate_trackers ch trackers)"

definition same_mail :: "'d chain_state \<Rightarrow> 'd chain_state \<Rightarrow> bool" where
  "same_mail ch ch' \<longleftrightarrow> ch_outboxes ch' = ch_outboxes ch \<and> ch_outbox_counters ch' = ch_outbox_counters ch \<and>
    ch_nonempty_outboxes ch' = ch_nonempty_outboxes ch \<and> ch_tip_state ch' = ch_tip_state ch \<and> ch_confirmed_log ch' = ch_confirmed_log ch \<and>
    ch_previous_message_blocks ch' = ch_previous_message_blocks ch \<and> ch_previous_event_blocks ch' = ch_previous_event_blocks ch \<and>
    ch_preprocessed_blocks ch' = ch_preprocessed_blocks ch"

lemma same_mail_ok: "same_mail ch ch' \<Longrightarrow> outboxes_ok ch' = outboxes_ok ch \<and> log_ok ch' = log_ok ch"
  using outboxes_ok_same(1) [of ch' ch] by (simp add: same_mail_def log_ok_def)

lemma initialize_same_mail: "initialize_if_needed ce ch lt = Ok ch' \<Longrightarrow> same_mail ch ch'"
  by (auto simp: initialize_if_needed_def and_then_Ok Let_def reset_manager_def same_mail_def split: if_splits)

lemma execute_same_mail: "execute_block ce ch pb lt round published replaying = Ok (ch', out) \<Longrightarrow> same_mail ch ch'"
  using initialize_same_mail [of ce ch lt] by (auto simp: execute_block_def and_then_Ok Let_def same_mail_def)

lemma receive_same_mail:
  assumes "receive_message_bundle ce ch origin bundle lt add_to_log = Ok ch'"
  shows "same_mail ch ch'"
proof -
  from assms obtain ch1 where init: "(case initialize_if_needed ce ch lt of Ok ch \<Rightarrow> Ok ch
      | Err e \<Rightarrow> if missing_description ce e then Ok ch else Err e) = Ok ch1"
    by (auto simp: receive_message_bundle_def and_then_Ok)
  then have "same_mail ch ch1"
    using initialize_same_mail [of ce ch lt] by (auto simp: same_mail_def split: result.splits if_splits)
  moreover obtain ib added where "add_bundle (load_inbox ch1 origin) bundle = (ib, added)" by fastforce
  with assms init have "same_mail ch1 ch'"
    by (auto simp: receive_message_bundle_def and_then_Ok Let_def same_mail_def simp del: not_None_eq)
  ultimately show ?thesis by (simp add: same_mail_def)
qed

lemma remove_origin_same_mail: "try_fold (remove_origin chain must) (ch, r) by_origin = Ok (ch', r') \<Longrightarrow> same_mail ch ch'"
proof (induction by_origin arbitrary: ch r)
  case (Cons x xs)
  then obtain ch1 r1 where "remove_origin chain must (ch, r) x = Ok (ch1, r1)" "try_fold (remove_origin chain must) (ch1, r1) xs = Ok (ch', r')"
    by (auto simp: and_then_Ok)
  with Cons.IH [of ch1 r1] show ?case by (auto simp: remove_origin_def and_then_Ok same_mail_def split: prod.splits)
qed (simp add: same_mail_def)

lemma remove_unskippable_same_mail: "remove_unskippable ch removed = Ok ch' \<Longrightarrow> same_mail ch ch'"
  by (cases "removed = []") (auto simp: remove_unskippable_def Let_def and_then_Ok same_mail_def simp del: not_None_eq)

lemma remove_same_mail:
  assumes "remove_bundles_from_inboxes ce ch timestamp must bundles = Ok ch'"
  shows "same_mail ch ch'"
proof -
  from assms obtain by_origin ch1 removed where
    "try_fold (remove_origin (xc_chain_id (ce_ctx ce)) must) (ch, []) by_origin = Ok (ch1, removed)" "remove_unskippable ch1 removed = Ok ch'"
    by (auto simp: remove_bundles_from_inboxes_def Let_def and_then_Ok map_err_Ok)
  from remove_origin_same_mail [OF this(1)] remove_unskippable_same_mail [OF this(2)] show ?thesis by (simp add: same_mail_def)
qed

lemma mail_only_log: "mail_only ch ch' \<Longrightarrow> log_ok ch' = log_ok ch"
  by (simp add: log_ok_def mail_only_sel)

lemma confirmed_step_ok:
  assumes inv: "outboxes_ok ch" "log_ok ch" and run: "apply_confirmed_block ce ch blk lt = Ok ch'"
    and height: "bh_height (b_header blk) = tip_next_block_height (ch_tip_state ch)" and small: "length (ch_outboxes ch') < 2 ^ 32"
  shows "outboxes_ok ch' \<and> log_ok ch'"
proof -
  let ?ch = "ch\<lparr> ch_execution_state_hash := Some (bh_state_hash (b_header blk)) \<rparr>"
  from run obtain ch1 where fold: "try_fold (schedule_target blk) ?ch (recipients blk) = Ok ch1"
    and same: "ch_outboxes ch' = ch_outboxes ch1" "ch_outbox_counters ch' = ch_outbox_counters ch1" "ch_nonempty_outboxes ch' = ch_nonempty_outboxes ch1"
    and log: "ch_confirmed_log ch' = ch_confirmed_log ch1 @ [h_block (ce_hashes ce) blk]"
      "tip_block_hash (ch_tip_state ch') = Some (h_block (ce_hashes ce) blk)"
      "unat (tip_next_block_height (ch_tip_state ch')) = unat (tip_next_block_height (ch_tip_state ch1)) + 1"
      "snd ` set (ch_previous_message_blocks ch') \<subseteq> insert (bh_height (b_header blk)) (snd ` set (ch_previous_message_blocks ch1))"
      "snd ` set (ch_previous_event_blocks ch') \<subseteq> insert (bh_height (b_header blk)) (snd ` set (ch_previous_event_blocks ch1))"
    by (rule apply_confirmed_block_Ok)
  from schedule_targets [OF fold] have mail: "mail_only ?ch ch1" "outboxes_ok ?ch \<Longrightarrow> outboxes_ok ch1" using small same by auto
  have "outboxes_ok ?ch" using inv(1) outboxes_ok_same(1) [of ?ch ch] by simp
  with mail(2) outboxes_ok_same(1) [OF same] have "outboxes_ok ch'" by simp
  moreover have "k < tip_next_block_height (ch_tip_state ch')" if "k \<le> tip_next_block_height (ch_tip_state ch)" for k
    using that log(3) mail_only_sel(1) [OF mail(1)] by (simp add: word_less_nat_alt word_le_nat_alt)
  with log inv(2) have "log_ok ch'" by (fastforce simp: log_ok_def mail_only_sel [OF mail(1)] height)
  ultimately show ?thesis by simp
qed

lemma chain_step_ok:
  assumes "chain_step ce ch ch'" "outboxes_ok ch" "log_ok ch"
  shows "outboxes_ok ch' \<and> log_ok ch'"
  using assms
proof (cases rule: chain_step.cases)
  case (preprocessed blk)
  show ?thesis
  proof (cases "bh_height (b_header blk) < tip_next_block_height (ch_tip_state ch)")
    case True
    with preprocessed assms show ?thesis by (simp add: preprocess_block_def Let_def)
  next
    case False
    with preprocessed obtain ch1 pre where fold: "try_fold (schedule_target blk) ch (recipients blk) = Ok ch1"
      and ch': "ch' = ch1\<lparr> ch_preprocessed_blocks := pre \<rparr>"
      by (auto simp: preprocess_block_def process_outgoing_messages_def Let_def and_then_Ok)
    from schedule_targets [OF fold] have "outboxes_ok ch1" "mail_only ch ch1" using preprocessed assms(2) by (simp_all add: ch')
    moreover have "outboxes_ok ch' = outboxes_ok ch1" by (rule outboxes_ok_same(1)) (simp_all add: ch')
    ultimately show ?thesis using assms(3) mail_only_log [of ch ch1] by (simp add: ch' log_ok_def)
  qed
next
  case (acknowledged target h x)
  from mark_messages_as_received_ok [OF assms(2), of target h] acknowledged assms mail_only_log [of ch ch'] show ?thesis by auto
next
  case (synchronized trackers)
  then show ?thesis
    using assms same_mail_ok [of ch ch'] by (simp add: same_mail_def update_received_certificate_trackers_def)
next
  case (executed pb lt round published replaying out)
  from same_mail_ok [OF execute_same_mail [OF this]] assms(2,3) show ?thesis by simp
next
  case (confirmed blk lt)
  from confirmed_step_ok [OF assms(2,3) this] show ?thesis .
next
  case (received origin mb lt add_to_log)
  from same_mail_ok [OF receive_same_mail [OF this]] assms(2,3) show ?thesis by simp
next
  case (removed timestamp must bundles)
  from same_mail_ok [OF remove_same_mail [OF this]] assms(2,3) show ?thesis by simp
qed

definition fresh_chain :: "'d chain_state \<Rightarrow> bool" where
  "fresh_chain ch \<longleftrightarrow> ch_outboxes ch = [] \<and> ch_outbox_counters ch = [] \<and> ch_nonempty_outboxes ch = [] \<and>
    ch_confirmed_log ch = [] \<and> tip_block_hash (ch_tip_state ch) = None \<and> tip_next_block_height (ch_tip_state ch) = 0 \<and>
    ch_previous_message_blocks ch = [] \<and> ch_previous_event_blocks ch = []"

lemma fresh_chain_ok: "fresh_chain ch \<Longrightarrow> outboxes_ok ch \<and> log_ok ch"
  by (simp add: fresh_chain_def outboxes_ok_def log_ok_def load_outbox_def outbox_new_inv outbox_heights_def counter_def waiting_def)

lemma chain_run_ok:
  assumes "(chain_step ce)\<^sup>*\<^sup>* ch0 ch" "fresh_chain ch0"
  shows "outboxes_ok ch \<and> log_ok ch"
  using assms(1) by (induction rule: rtranclp_induct) (use fresh_chain_ok [OF assms(2)] chain_step_ok in blast)+

text \<open>
  \<^bold>\<open>C6\<close>. Over any history of a chain, the log of confirmed blocks has exactly as many entries as the tip
  has seen heights and ends with the hash of the tip, as the documentation of the state says. So the
  execution of a block always finds the hashes of the blocks that last sent to a recipient or
  last published on a stream.
\<close>

theorem confirmed_log_exact:
  assumes "(chain_step ce)\<^sup>*\<^sup>* ch0 ch" "fresh_chain ch0"
  shows "length (ch_confirmed_log ch) = unat (tip_next_block_height (ch_tip_state ch)) \<and>
    tip_block_hash (ch_tip_state ch) = (if ch_confirmed_log ch = [] then None else Some (last (ch_confirmed_log ch))) \<and>
    (\<exists>m. previous_blocks (ch_previous_message_blocks ch) (ch_confirmed_log ch) targets = Ok m) \<and>
    (\<exists>m. previous_blocks (ch_previous_event_blocks ch) (ch_confirmed_log ch) streams = Ok m)"
proof -
  from chain_run_ok [OF assms] have log: "log_ok ch" by simp
  then have "\<forall>h \<in> snd ` set (ch_previous_message_blocks ch). unat h < length (ch_confirmed_log ch)"
    "\<forall>h \<in> snd ` set (ch_previous_event_blocks ch). unat h < length (ch_confirmed_log ch)"
    by (simp_all add: log_ok_def word_less_nat_alt)
  from this [THEN previous_blocks_Ok] log show ?thesis by (auto simp: log_ok_def)
qed

text \<open>A block at height zero that sends messages to two chains.\<close>

definition demo_confirmed :: block where
  "demo_confirmed = Block_new demo_hashes (demo_proposed_block\<lparr> pb_height := 0, pb_previous_block_hash := None \<rparr>) demo_outcome"

lemma demo_confirmed_simps:
  "bh_height (b_header demo_confirmed) = 0" "bh_state_hash (b_header demo_confirmed) = 4" "recipients demo_confirmed = [5, 7]"
  "bb_messages (b_body demo_confirmed) = [[demo_outgoing 5, demo_outgoing 7], [demo_outgoing 5], [demo_outgoing 7]]"
  "bb_transactions (b_body demo_confirmed) = []" "bb_events (b_body demo_confirmed) = []" "h_block (ce_hashes demo_env) demo_confirmed = 4"
  by (simp_all add: demo_confirmed_def Block_new_def demo_proposed_block_def demo_outcome_def recipients_def bts_of_list_def
      demo_outgoing_def OutgoingMessage_new_def demo_env_def demo_crypto_def demo_hashes_def)

lemma demo_chain_fresh: "fresh_chain demo_chain"
  by (simp add: fresh_chain_def demo_chain_def)

lemma demo_schedule:
  assumes "btm_ok (ch_outboxes ch)" "tip_next_block_height (ch_tip_state ch) = 0" "btm_get (ch_outboxes ch) t = None"
  shows "\<exists>ob c n. schedule_target demo_confirmed ch t = Ok (ch\<lparr> ch_outboxes := btm_insert t ob (ch_outboxes ch), ch_outbox_counters := c, ch_nonempty_outboxes := n \<rparr>)
    \<and> outbox_items ob = [0]"
  using assms schedule_message_Ok(2) [OF outbox_new_inv(1), of 0]
  by (simp add: schedule_target_def Let_def may_schedule_def demo_confirmed_simps load_outbox_def schedule_message_def outbox_new_def
      try_add_one_def checked_add_def ok_or_def chain_arith_def)
    (auto simp: outbox_new_inv(2) [unfolded outbox_new_def])

lemma demo_applied:
  "\<exists>ch. apply_confirmed_block demo_env demo_chain demo_confirmed 0 = Ok ch \<and> length (ch_outboxes ch) = 2 \<and>
    ch_confirmed_log ch = [4] \<and> outbox_heights ch 5 = [0] \<and> outbox_heights ch 7 = [0]"
proof -
  let ?ch = "demo_chain\<lparr> ch_execution_state_hash := Some 4 \<rparr>"
  have start: "ch_outboxes ?ch = []" "tip_next_block_height (ch_tip_state ?ch) = 0" by (simp_all add: demo_chain_def)
  with demo_schedule [of ?ch 5] obtain ob c n where
    1: "schedule_target demo_confirmed ?ch 5 = Ok (?ch\<lparr> ch_outboxes := [(5, ob)], ch_outbox_counters := c, ch_nonempty_outboxes := n \<rparr>)"
      "outbox_items ob = [0]" by auto
  let ?ch1 = "?ch\<lparr> ch_outboxes := [(5, ob)], ch_outbox_counters := c, ch_nonempty_outboxes := n \<rparr>"
  from demo_schedule [of ?ch1 7] obtain ob' c' n' where
    2: "schedule_target demo_confirmed ?ch1 7 = Ok (?ch1\<lparr> ch_outboxes := [(5, ob), (7, ob')], ch_outbox_counters := c', ch_nonempty_outboxes := n' \<rparr>)"
      "outbox_items ob' = [0]" by (auto simp: btm_ok_Cons demo_chain_def)
  have "update_counters \<lparr> tip_block_hash = Some 4, tip_next_block_height = 1, tip_num_incoming_bundles = 0, tip_num_operations = 0,
      tip_num_outgoing_messages = 0 \<rparr> [] [[demo_outgoing 5, demo_outgoing 7], [demo_outgoing 5], [demo_outgoing 7]] =
    Ok \<lparr> tip_block_hash = Some 4, tip_next_block_height = 1, tip_num_incoming_bundles = 0, tip_num_operations = 0,
      tip_num_outgoing_messages = 4 \<rparr>"
    by (simp add: update_counters_def chain_arith_def try_add_def checked_add_def ok_or_def Let_def)
  with 1 2 show ?thesis
    by (auto simp: apply_confirmed_block_def process_outgoing_messages_def demo_confirmed_simps Let_def chain_arith_def
        try_add_one_def checked_add_def ok_or_def reset_chain_manager_def reset_manager_def demo_chain_def outbox_heights_def load_outbox_def)
qed

theorem confirmed_log_exact_witness:
  "\<exists>ch. apply_confirmed_block demo_env demo_chain demo_confirmed 0 = Ok ch \<and> tip_next_block_height (ch_tip_state ch) = 1 \<and>
    tip_block_hash (ch_tip_state ch) = Some 4 \<and>
    (\<exists>m. previous_blocks (ch_previous_message_blocks ch) (ch_confirmed_log ch) [5, 7] = Ok m)"
proof -
  from demo_applied obtain ch where ch: "apply_confirmed_block demo_env demo_chain demo_confirmed 0 = Ok ch"
    "length (ch_outboxes ch) = 2" "ch_confirmed_log ch = [4]" by blast
  have "chain_step demo_env demo_chain ch"
    by (rule chain_step.confirmed [OF ch(1)]) (simp_all add: ch(2) demo_confirmed_simps demo_chain_def)
  note log = confirmed_log_exact [OF r_into_rtranclp [of "chain_step demo_env", OF this] demo_chain_fresh, of "[5, 7]" "[]"]
  then have "unat (tip_next_block_height (ch_tip_state ch)) = unat (1 :: u64)" by (simp add: ch(3))
  then have "tip_next_block_height (ch_tip_state ch) = 1" by (simp only: word_unat_eq_iff)
  with log ch show ?thesis by (intro exI [of _ ch]) simp
qed

text \<open>
  \<^bold>\<open>C7\<close>. Over any history of a chain, the counter of a height is the number of recipients whose outbox
  still holds the height, and the recipients with a message waiting are known exactly. So all messages up
  to a height are reported as delivered if and only if no outbox holds such a height, which is what the
  worker waits for before it reports the delivery. An acknowledgement never fails: it takes the
  heights up to the given one off the outbox of the recipient and leaves the others alone.
\<close>

theorem outboxes_counted:
  assumes "(chain_step ce)\<^sup>*\<^sup>* ch0 ch" "fresh_chain ch0"
  shows "unat (counter ch h) = card (waiting ch h) \<and>
    set (ch_nonempty_outboxes ch) = {target. outbox_heights ch target \<noteq> []} \<and>
    (all_messages_delivered_up_to ch h \<longleftrightarrow> (\<forall>target. \<forall>k \<in> set (outbox_heights ch target). h < k)) \<and>
    (\<exists>ch'. chain_mark_messages_as_received ch target h = Ok (ch', \<exists>k \<in> set (outbox_heights ch target). k \<le> h) \<and>
      outbox_heights ch' = (outbox_heights ch)(target := filter (\<lambda>k. h < k) (outbox_heights ch target)))"
proof -
  from chain_run_ok [OF assms] have inv: "outboxes_ok ch" by simp
  with delivered_exact [OF inv] mark_messages_as_received_ok [OF inv, of target h] show ?thesis
    by (auto simp: outboxes_ok_def)
qed

theorem outboxes_counted_witness:
  "\<exists>ch ch'. apply_confirmed_block demo_env demo_chain demo_confirmed 0 = Ok ch \<and> \<not> all_messages_delivered_up_to ch 0 \<and>
    chain_mark_messages_as_received ch 5 0 = Ok (ch', True) \<and> outbox_heights ch' 5 = [] \<and> outbox_heights ch' 7 = [0]"
proof -
  from demo_applied obtain ch where ch: "apply_confirmed_block demo_env demo_chain demo_confirmed 0 = Ok ch"
    "length (ch_outboxes ch) = 2" "outbox_heights ch 5 = [0]" "outbox_heights ch 7 = [0]" by blast
  have "chain_step demo_env demo_chain ch"
    by (rule chain_step.confirmed [OF ch(1)]) (simp_all add: ch(2) demo_confirmed_simps demo_chain_def)
  note c = outboxes_counted [OF r_into_rtranclp [of "chain_step demo_env", OF this] demo_chain_fresh, of 0 5]
  then obtain ch' where "chain_mark_messages_as_received ch 5 0 = Ok (ch', True)"
    "outbox_heights ch' = (outbox_heights ch)(5 := filter (\<lambda>k. 0 < k) (outbox_heights ch 5))"
    using ch(3) by auto
  moreover have "\<not> all_messages_delivered_up_to ch 0"
    using c ch(3) by (metis less_irrefl list.set_intros(1))
  ultimately show ?thesis using ch by auto
qed

section \<open>The queue of unskippable bundles\<close>

text \<open>With the length of the queue as fuel the loop returns, and only stops where the loop of the code does.\<close>

lemma clean_unskippable_total:
  assumes "bucket_ok q" "length (bucket_items q) \<le> fuel"
  shows "\<exists>q' removed' old'. clean_unskippable fuel q removed old = Ok (q', removed', old') \<and> bucket_ok q' \<and>
    (\<forall>e. bucket_front q' = Some e \<longrightarrow> tb_entry e \<notin> set removed' \<union> set old')"
  using assms
proof (induction fuel arbitrary: q removed old)
  case 0
  then show ?case by (simp add: bucket_front_items)
next
  case (Suc fuel)
  obtain q1 where q1: "bucket_delete_front q = Ok q1" "bucket_ok q1" "bucket_items q1 = tl (bucket_items q)"
    using bucket_delete_front_items [OF Suc.prems(1)] by blast
  with Suc.prems(2) have "length (bucket_items q1) \<le> fuel" by simp
  note IH = Suc.IH [OF q1(2) this]
  show ?case
  proof (cases "bucket_front q")
    case (Some e)
    with IH Suc.prems(1) show ?thesis by (simp add: q1(1))
  qed (use Suc.prems(1) in simp)
qed

section \<open>The next height to preprocess\<close>

text \<open>The key of a height in a map view is its BCS form, eight bytes with the lowest first.\<close>

definition little_endian :: "(block_height \<Rightarrow> bytes) \<Rightarrow> bool" where
  "little_endian key \<longleftrightarrow> (\<forall>h. key h = map (\<lambda>i. ucast (drop_bit (8 * i) h)) [0..<8])"

lemma little_endian_less: "little_endian key \<Longrightarrow> (ucast b :: u8) < ucast a \<Longrightarrow> key b < key a"
  by (simp add: little_endian_def upt_rec)



end
