(* ===== verification/Worker.thy ===== *)
theory Worker
  imports Chain_Invariants
begin

text \<open>
  The worker of a chain (\<open>linera-core/src/chain_worker/state.rs\<close>): its handlers of proposals,
  certificates, cross-chain messages, blobs and queries. The state holds the chain as it is saved in
  storage; a handler works on a copy and the copy becomes the state when the code saves it, so
  what an error leaves behind is exactly what was saved before. The storage is a parameter, and what
  is written to it is part of the result. The clock is read through arguments. The cache of block
  values, which only saves a client from sending a block twice, is left out.
\<close>

section \<open>State\<close>

datatype worker_error =
    WCryptoError
  | WArithmeticError arithmetic_error
  | WViewError
  | ReadCertificatesError "crypto_hash list"
  | WChainError chain_error
  | WInvalidOwner
  | WInvalidSigner account_owner
  | WUnexpectedBlockHeight block_height block_height
  | WInvalidEpoch chain_id epoch epoch
  | WEventsNotFound "event_id list"
  | InvalidCrossChainRequest
  | InvalidBlockChaining
  | IncorrectOutcome block_execution_outcome block_execution_outcome
  | InvalidTimestamp
  | FastBlockUsingOracles
  | WBlobsNotFound "blob_id list"
  | ConfirmedLogEntryNotFound block_height chain_id
  | PreprocessedBlocksEntryNotFound block_height chain_id
  | InvalidBlockProposal invariant_error
  | UnexpectedBlob
  | TooManyPublishedBlobs u64
  | MissingNetworkDescription

record chain_worker_config =
  wc_key_pair :: "signer option"
  wc_allow_inactive_chains :: bool
  wc_allow_messages_from_deprecated_epochs :: bool
  wc_grace_period :: nat
  wc_max_received_log_entries :: nat

text \<open>What the storage answers, and which of the cached execution states are still in the cache.\<close>

record storage =
  sto_blob :: "blob_id \<Rightarrow> blob option"
  sto_committee :: "epoch \<Rightarrow> (committee option, worker_error) result"
  sto_certificate :: "crypto_hash \<Rightarrow> block certificate option"
  sto_admin_chain :: "chain_id option"
  sto_cached :: "crypto_hash \<Rightarrow> bool"
  sto_proposal_size :: "proposed_block \<Rightarrow> nat"

record blob_state =
  bs_last_used_by :: "crypto_hash option"
  bs_chain_id :: chain_id
  bs_block_height :: block_height
  bs_epoch :: "epoch option"

definition to_blob_state :: "hashes \<Rightarrow> block \<Rightarrow> bool \<Rightarrow> blob_state" where
  "to_blob_state hs blk is_stored =
    \<lparr> bs_last_used_by = (if is_stored then Some (h_block hs blk) else None), bs_chain_id = bh_chain_id (b_header blk),
      bs_block_height = bh_height (b_header blk), bs_epoch = (if is_stored then Some (bh_epoch (b_header blk)) else None) \<rparr>"

datatype storage_write =
    WriteBlobsAndCertificate "blob list" "block certificate"
  | WriteEvents "(event_id \<times> bytes) list"
  | MaybeWriteBlobStates "blob_id list" blob_state

type_synonym delivery_notifier = "(block_height, nat list) btree_map"

record 'd worker =
  wk_config :: chain_worker_config
  wk_chain :: "'d chain_state"
  wk_active :: bool
  wk_state_cache :: "(crypto_hash, execution_state) btree_map"
  wk_tracked_chains :: "chain_id btree_set option"
  wk_notifier :: delivery_notifier

datatype block_outcome = Processed | Preprocessed | Skipped

datatype cross_chain_request =
    UpdateRecipient chain_id chain_id "(epoch \<times> message_bundle) list"
  | ConfirmUpdatedRecipient chain_id chain_id block_height

datatype reason =
    NewBlock block_height crypto_hash "stream_id btree_set"
  | NewIncomingBundle chain_id block_height
  | NewRound block_height round

record network_actions =
  na_cross_chain_requests :: "cross_chain_request list"
  na_notifications :: "(chain_id \<times> reason) list"

definition no_actions :: network_actions where
  "no_actions = \<lparr> na_cross_chain_requests = [], na_notifications = [] \<rparr>"

text \<open>A handler gives the worker after it and a result.\<close>

type_synonym ('d, 'a) handled = "'d worker \<times> ('a, worker_error) result"

definition attempt :: "'d worker \<Rightarrow> ('a, worker_error) result \<Rightarrow> ('a \<Rightarrow> ('d, 'b) handled) \<Rightarrow> ('d, 'b) handled" where
  "attempt w r f = (case r of Ok x \<Rightarrow> f x | Err e \<Rightarrow> (w, Err e))"

definition continue :: "('d, 'a) handled \<Rightarrow> ('d worker \<Rightarrow> 'a \<Rightarrow> ('d, 'b) handled) \<Rightarrow> ('d, 'b) handled" where
  "continue h f = (case h of (w, Ok x) \<Rightarrow> f w x | (w, Err e) \<Rightarrow> (w, Err e))"

definition save :: "'d worker \<Rightarrow> 'd chain_state \<Rightarrow> 'd worker" where
  "save w ch = w\<lparr> wk_chain := ch \<rparr>"

definition worker_error_of :: "chain_error \<Rightarrow> worker_error" where
  "worker_error_of e = (case e of ChainExecutionError (BlobsNotFound bids) _ \<Rightarrow> WBlobsNotFound bids | _ \<Rightarrow> WChainError e)"

definition chain_try :: "('a, chain_error) result \<Rightarrow> ('a, worker_error) result" where
  "chain_try = map_err worker_error_of"

section \<open>Reading\<close>

definition missing_blob_ids :: "(blob_id, blob option) btree_map \<Rightarrow> blob_id list" where
  "missing_blob_ids maybe_blobs = map fst (filter (\<lambda>(_, b). b = None) maybe_blobs)"

definition check_block_epoch :: "epoch \<Rightarrow> chain_id \<Rightarrow> epoch \<Rightarrow> (unit, worker_error) result" where
  "check_block_epoch chain_epoch block_chain block_epoch =
    ensure (block_epoch = chain_epoch) (WInvalidEpoch block_chain chain_epoch block_epoch)"

definition local_blob :: "'d chain_state \<Rightarrow> (blob_id, blob) btree_map option \<Rightarrow> blob_id \<Rightarrow> blob option" where
  "local_blob ch created bid =
    (case Option.bind created (\<lambda>m. btm_get m bid) of
       Some b \<Rightarrow> Some b
     | None \<Rightarrow>
        (case pending_blob (ch_manager ch) bid of
           Some b \<Rightarrow> Some b
         | None \<Rightarrow>
            (case pending_blobs_get (ch_pending_validated_blobs ch) bid of
               Some b \<Rightarrow> Some b
             | None \<Rightarrow>
                (case List.map_filter (\<lambda>(_, v). pending_blobs_get v bid) (ch_pending_proposed_blobs ch) of
                   [] \<Rightarrow> None | b # _ \<Rightarrow> Some b))))"

definition maybe_get_required_blobs ::
  "storage \<Rightarrow> 'd chain_state \<Rightarrow> blob_id list \<Rightarrow> (blob_id, blob) btree_map option \<Rightarrow> (blob_id, blob option) btree_map" where
  "maybe_get_required_blobs sto ch bids created =
    (let maybe_blobs = map (\<lambda>bid. (bid, local_blob ch created bid)) (bts_of_list bids)
     in foldl (\<lambda>m bid. btm_insert bid (sto_blob sto bid) m) maybe_blobs (missing_blob_ids maybe_blobs))"

definition found_blobs :: "(blob_id, blob option) btree_map \<Rightarrow> (blob_id, blob) btree_map" where
  "found_blobs maybe_blobs = List.map_filter (\<lambda>(bid, b). map_option (Pair bid) b) maybe_blobs"

definition get_required_blobs ::
  "storage \<Rightarrow> 'd chain_state \<Rightarrow> blob_id list \<Rightarrow> (blob_id, blob) btree_map \<Rightarrow> ((blob_id, blob) btree_map, worker_error) result" where
  "get_required_blobs sto ch bids created =
    (let maybe_blobs = maybe_get_required_blobs sto ch bids (Some created);
         not_found = missing_blob_ids maybe_blobs
     in and_then (ensure (not_found = []) (WBlobsNotFound not_found)) (\<lambda>_. Ok (found_blobs maybe_blobs)))"

definition download_pending_blob :: "storage \<Rightarrow> 'd worker \<Rightarrow> blob_id \<Rightarrow> (blob, worker_error) result" where
  "download_pending_blob sto w bid =
    (case pending_blob (ch_manager (wk_chain w)) bid of
       Some b \<Rightarrow> Ok b
     | None \<Rightarrow> ok_or (sto_blob sto bid) (WBlobsNotFound [bid]))"

section \<open>Cross-chain requests and notifications\<close>

text \<open>The hash of the block at a height: in the log below the tip, among the preprocessed blocks above it.\<close>

definition hash_at :: "chain_id \<Rightarrow> 'd chain_state \<Rightarrow> block_height \<Rightarrow> (crypto_hash, worker_error) result" where
  "hash_at chain ch h =
    (if h < tip_next_block_height (ch_tip_state ch) then
       if unat h < length (ch_confirmed_log ch) then Ok (ch_confirmed_log ch ! unat h)
       else Err (ConfirmedLogEntryNotFound h chain)
     else ok_or (btm_get (ch_preprocessed_blocks ch) h) (PreprocessedBlocksEntryNotFound h chain))"

definition hashes_at :: "chain_id \<Rightarrow> 'd chain_state \<Rightarrow> block_height list \<Rightarrow> (crypto_hash list, worker_error) result" where
  "hashes_at chain ch hs = try_fold (\<lambda>acc h. and_then (hash_at chain ch h) (\<lambda>x. Ok (acc @ [x]))) [] hs"

definition create_cross_chain_requests ::
  "hashes \<Rightarrow> storage \<Rightarrow> chain_id \<Rightarrow> 'd chain_state \<Rightarrow> (chain_id, block_height list) btree_map
    \<Rightarrow> (cross_chain_request list, worker_error) result" where
  "create_cross_chain_requests hs sto chain ch heights_by_recipient =
    (let heights = bts_of_list (concat (map snd heights_by_recipient)) in
     and_then (hashes_at chain ch heights) (\<lambda>hashes.
     let invalid = filter (\<lambda>h. sto_certificate sto h = None) hashes in
     and_then (ensure (invalid = []) (ReadCertificatesError invalid)) (\<lambda>_.
     let certificates = zip heights (map (\<lambda>h. the (sto_certificate sto h)) hashes) in
     Ok (map (\<lambda>(recipient, heights).
           UpdateRecipient chain recipient (concat (map (\<lambda>h.
             let cert = the (map_of certificates h)
             in message_bundles_for (c_value cert) recipient (h_block hs (c_value cert))) heights)))
         heights_by_recipient))))"

definition tracked_targets :: "'d worker \<Rightarrow> 'd chain_state \<Rightarrow> chain_id list" where
  "tracked_targets w ch =
    (case wk_tracked_chains w of
       None \<Rightarrow> ch_nonempty_outboxes ch
     | Some tracked \<Rightarrow> filter (List.member tracked) (ch_nonempty_outboxes ch))"

definition outbox_entries :: "'d chain_state \<Rightarrow> chain_id list \<Rightarrow> (outbox list, worker_error) result" where
  "outbox_entries ch targets =
    and_then (ensure (list_all (\<lambda>t. btm_get (ch_outboxes ch) t \<noteq> None) targets)
      (WChainError (ChainInternalError ''Missing outboxes''))) (\<lambda>_.
    Ok (map (load_outbox ch) targets))"

definition create_network_actions ::
  "'d chain_env \<Rightarrow> storage \<Rightarrow> 'd worker \<Rightarrow> 'd chain_state \<Rightarrow> round option \<Rightarrow> (network_actions, worker_error) result" where
  "create_network_actions ce sto w ch old_round =
    (let chain = xc_chain_id (ce_ctx ce); targets = tracked_targets w ch in
     and_then (outbox_entries ch targets) (\<lambda>outboxes.
     and_then (try_fold (\<lambda>m (target, ob).
         and_then (map_err (\<lambda>_. WViewError) (bucket_elements (outbox_queue ob))) (\<lambda>heights. Ok (btm_insert target heights m)))
       [] (zip targets outboxes)) (\<lambda>heights_by_recipient.
     and_then (create_cross_chain_requests (ce_hashes ce) sto chain ch heights_by_recipient) (\<lambda>requests.
     let round = cm_current_round (ch_manager ch);
         notifications = (case old_round of
           None \<Rightarrow> []
         | Some old \<Rightarrow>
            if old < round then [(chain, NewRound (tip_next_block_height (ch_tip_state ch)) round)] else [])
     in Ok \<lparr> na_cross_chain_requests = requests, na_notifications = notifications \<rparr>))))"

definition has_messages_lower_or_equal_than :: "cross_chain_request \<Rightarrow> block_height \<Rightarrow> bool" where
  "has_messages_lower_or_equal_than r height =
    (case r of
       UpdateRecipient _ _ ((_, b) # _) \<Rightarrow> mb_height b \<le> height
     | _ \<Rightarrow> False)"

subsection \<open>Waiting for deliveries\<close>

definition notifier_register :: "delivery_notifier \<Rightarrow> block_height \<Rightarrow> nat \<Rightarrow> delivery_notifier" where
  "notifier_register ns height waiter =
    btm_insert height ((case btm_get ns height of None \<Rightarrow> [] | Some ws \<Rightarrow> ws) @ [waiter]) ns"

text \<open>The waiters that are notified, and the others.\<close>

definition notifier_notify :: "delivery_notifier \<Rightarrow> block_height \<Rightarrow> delivery_notifier \<times> nat list" where
  "notifier_notify ns height =
    (let pending = (case try_add_one height of
           Ok first_undelivered \<Rightarrow> filter (\<lambda>(h, _). first_undelivered \<le> h) ns
         | Err _ \<Rightarrow> [])
     in (pending, concat (map snd (filter (\<lambda>e. e \<notin> set pending) ns))))"

text \<open>The second component is the waiter that is notified at once.\<close>

definition register_delivery_notifier ::
  "'d worker \<Rightarrow> block_height \<Rightarrow> network_actions \<Rightarrow> nat option \<Rightarrow> 'd worker \<times> nat list" where
  "register_delivery_notifier w height actions waiter =
    (case waiter of
       None \<Rightarrow> (w, [])
     | Some n \<Rightarrow>
        if list_ex (\<lambda>r. has_messages_lower_or_equal_than r height) (na_cross_chain_requests actions)
        then (w\<lparr> wk_notifier := notifier_register (wk_notifier w) height n \<rparr>, []) else (w, [n]))"

definition all_messages_to_tracked_chains_delivered_up_to ::
  "'d worker \<Rightarrow> 'd chain_state \<Rightarrow> block_height \<Rightarrow> (bool, worker_error) result" where
  "all_messages_to_tracked_chains_delivered_up_to w ch height =
    (if all_messages_delivered_up_to ch height then Ok True
     else
       case wk_tracked_chains w of
         None \<Rightarrow> Ok False
       | Some tracked \<Rightarrow>
          and_then (outbox_entries ch (filter (List.member tracked) (ch_nonempty_outboxes ch))) (\<lambda>outboxes.
          Ok (\<not> list_ex (\<lambda>ob. case bucket_front (outbox_queue ob) of None \<Rightarrow> False | Some key \<Rightarrow> key \<le> height) outboxes)))"

section \<open>Voting handlers\<close>

definition initialize_and_save_if_needed :: "'d chain_env \<Rightarrow> 'd worker \<Rightarrow> timestamp \<Rightarrow> ('d, unit) handled" where
  "initialize_and_save_if_needed ce w now =
    (if wk_active w then (w, Ok ())
     else attempt w (chain_try (initialize_if_needed ce (wk_chain w) now)) (\<lambda>ch. ((save w ch)\<lparr> wk_active := True \<rparr>, Ok ())))"

text \<open>The execution of a proposal, whose resulting state is cached.\<close>

definition worker_execute_block ::
  "'d chain_env \<Rightarrow> 'd worker \<Rightarrow> 'd chain_state \<Rightarrow> proposed_block \<Rightarrow> timestamp \<Rightarrow> u32 option \<Rightarrow> blob list
    \<Rightarrow> ('d, 'd chain_state \<times> block_execution_outcome) handled" where
  "worker_execute_block ce w ch pb local_time round published =
    attempt w (chain_try (execute_block ce ch pb local_time round published None)) (\<lambda>(ch, out).
    (w\<lparr> wk_state_cache := btm_insert (beo_state_hash out) (ch_execution_state ch) (wk_state_cache w) \<rparr>, Ok (ch, out)))"

definition check_certificate :: "'d chain_env \<Rightarrow> 't certificate_value \<Rightarrow> 't certificate \<Rightarrow> committee \<Rightarrow> (unit, worker_error) result" where
  "check_certificate ce T cert c = chain_try (certificate_check (cr_verify (ce_crypto ce)) T cert c)"

definition process_timeout ::
  "'d chain_env \<Rightarrow> storage \<Rightarrow> 'd worker \<Rightarrow> timeout certificate \<Rightarrow> timestamp \<Rightarrow> ('d, network_actions) handled" where
  "process_timeout ce sto w cert now =
    continue (initialize_and_save_if_needed ce w now) (\<lambda>w _.
    let ch = wk_chain w in
    attempt w (chain_try (chain_current_committee ce ch)) (\<lambda>(chain_epoch, committee).
    attempt w (check_certificate ce (timeout_value (ce_hashes ce)) cert committee) (\<lambda>_.
    attempt w (chain_try (already_validated_block (ch_tip_state ch) (to_height (c_value cert)))) (\<lambda>already.
    if already then (w, Ok no_actions)
    else
      attempt w (ensure (to_epoch (c_value cert) = chain_epoch)
        (WInvalidEpoch (to_chain_id (c_value cert)) chain_epoch (to_epoch (c_value cert)))) (\<lambda>_.
      let old_round = cm_current_round (ch_manager ch);
          ch = ch\<lparr> ch_manager := handle_timeout_certificate (ch_manager ch) cert now \<rparr>;
          w = save w ch
      in (w, create_network_actions ce sto w ch (Some old_round)))))))"

definition load_proposal_blobs :: "'d chain_env \<Rightarrow> storage \<Rightarrow> 'd worker \<Rightarrow> block_proposal \<Rightarrow> ('d, blob list) handled" where
  "load_proposal_blobs ce sto w p =
    (let ch = wk_chain w; owner = proposal_owner (ce_crypto ce) p;
         maybe_blobs = maybe_get_required_blobs sto ch (proposal_required_blob_ids p) None;
         missing = missing_blob_ids maybe_blobs in
     if missing \<noteq> [] then
       let pending = (if open_multi_leader_rounds (sy_ownership (ch_system ch)) then [] else ch_pending_proposed_blobs ch);
           entry = (case btm_get pending owner of None \<Rightarrow> pending_blobs_new | Some v \<Rightarrow> v);
           validated = (case bp_original_proposal p of Some (OriginalRegular _) \<Rightarrow> True | _ \<Rightarrow> False)
       in attempt w (chain_try (pending_blobs_update entry (pc_round (bp_content p)) validated maybe_blobs)) (\<lambda>v.
          (save w (ch\<lparr> ch_pending_proposed_blobs := btm_insert owner v pending \<rparr>), Err (WBlobsNotFound missing)))
     else (w, Ok (List.map_filter (\<lambda>bid. case btm_get maybe_blobs bid of None \<Rightarrow> None | Some b \<Rightarrow> b)
            (pb_published_blob_ids (pc_block (bp_content p))))))"

definition process_validated_block ::
  "'d chain_env \<Rightarrow> storage \<Rightarrow> 'd worker \<Rightarrow> block certificate \<Rightarrow> timestamp \<Rightarrow> ('d, network_actions \<times> block_outcome) handled" where
  "process_validated_block ce sto w cert now =
    (let blk = c_value cert; header = b_header blk in
     continue (initialize_and_save_if_needed ce w now) (\<lambda>w _.
     let ch = wk_chain w in
     attempt w (chain_try (chain_current_committee ce ch)) (\<lambda>(ep, committee).
     attempt w (check_block_epoch ep (bh_chain_id header) (bh_epoch header)) (\<lambda>_.
     attempt w (check_certificate ce (validated_value (ce_hashes ce)) cert committee) (\<lambda>_.
     attempt w (chain_try (already_validated_block (ch_tip_state ch) (bh_height header))) (\<lambda>already.
     attempt w (if already then Ok OutcomeSkip else chain_try (check_validated_block (ch_manager ch) cert)) (\<lambda>outcome.
     if outcome = OutcomeSkip then (w, Ok (no_actions, Skipped))
     else
       let maybe_blobs = maybe_get_required_blobs sto ch (required_blob_ids blk) (Some (created_blobs blk));
           missing = missing_blob_ids maybe_blobs in
       if missing \<noteq> [] then
         attempt w (chain_try (pending_blobs_update (ch_pending_validated_blobs ch) (c_round cert) True maybe_blobs)) (\<lambda>v.
         (save w (ch\<lparr> ch_pending_validated_blobs := v \<rparr>), Err (WBlobsNotFound missing)))
       else
         let old_round = cm_current_round (ch_manager ch);
             ch = ch\<lparr> ch_manager := create_final_vote (ce_hashes ce) (ch_manager ch) cert (wc_key_pair (wk_config w)) now
                        (found_blobs maybe_blobs) \<rparr>;
             w = save w ch
         in attempt w (create_network_actions ce sto w ch (Some old_round)) (\<lambda>actions. (w, Ok (actions, Processed))))))))))"

section \<open>Confirmed blocks\<close>

definition committee_for_block :: "storage \<Rightarrow> 'd chain_state \<Rightarrow> epoch \<Rightarrow> (committee, worker_error) result" where
  "committee_for_block sto ch ep =
    (case btm_get (sy_committees (ch_system ch)) ep of
       Some committee \<Rightarrow> Ok committee
     | None \<Rightarrow>
        and_then (sto_committee sto ep) (\<lambda>found.
        case found of
          Some committee \<Rightarrow> Ok committee
        | None \<Rightarrow>
           and_then (ok_or (sto_admin_chain sto) MissingNetworkDescription) (\<lambda>admin.
           Err (WEventsNotFound
             [\<lparr> event_chain_id = admin, event_id_stream = StreamId_system EPOCH_STREAM_NAME, event_id_index = ep \<rparr>]))))"

definition track_newly_created_chains :: "'d worker \<Rightarrow> proposed_block \<Rightarrow> block_execution_outcome \<Rightarrow> 'd worker" where
  "track_newly_created_chains w pb out =
    (case wk_tracked_chains w of
       None \<Rightarrow> w
     | Some tracked \<Rightarrow>
        if \<not> List.member tracked (pb_chain_id pb) then w
        else w\<lparr> wk_tracked_chains := Some (foldl (\<lambda>s bid. bts_insert (id_hash bid) s) tracked
               (filter (\<lambda>bid. id_blob_type bid = ChainDescriptionBlob) (created_blobs_ids out))) \<rparr>)"

definition event_id_of :: "event \<Rightarrow> chain_id \<Rightarrow> event_id" where
  "event_id_of e chain = \<lparr> event_chain_id = chain, event_id_stream = event_stream_id e, event_id_index = event_index e \<rparr>"

text \<open>What is written to storage before the block is executed.\<close>

definition confirmed_writes :: "hashes \<Rightarrow> block certificate \<Rightarrow> (blob_id, blob) btree_map option \<Rightarrow> storage_write list" where
  "confirmed_writes hs cert found =
    (let blk = c_value cert; chain = bh_chain_id (b_header blk) in
     (case found of
        None \<Rightarrow> []
      | Some blobs \<Rightarrow>
         [WriteBlobsAndCertificate (map snd blobs) cert,
          WriteEvents (map (\<lambda>e. (event_id_of e chain, event_value e)) (concat (bb_events (b_body blk))))]) @
     [MaybeWriteBlobStates (required_blob_ids blk) (to_blob_state hs blk (found \<noteq> None))])"

text \<open>The execution of the confirmed block, or the cached state that an earlier execution left.\<close>

definition execute_confirmed ::
  "'d chain_env \<Rightarrow> storage \<Rightarrow> 'd worker \<Rightarrow> 'd chain_state \<Rightarrow> block \<Rightarrow> blob list \<Rightarrow> timestamp
    \<Rightarrow> ('d, 'd chain_state \<times> block_execution_outcome) handled" where
  "execute_confirmed ce sto w ch blk published now =
    (case into_proposal blk of (pb, out) \<Rightarrow>
     case (if sto_cached sto (beo_state_hash out) then btm_get (wk_state_cache w) (beo_state_hash out) else None) of
       Some st \<Rightarrow>
        (w\<lparr> wk_state_cache := btm_remove (beo_state_hash out) (wk_state_cache w) \<rparr>, Ok (ch\<lparr> ch_execution_state := st \<rparr>, out))
     | None \<Rightarrow> (w, chain_try (execute_block ce ch pb now None published (Some (bb_oracle_responses (b_body blk))))))"

definition finish_confirmed ::
  "'d chain_env \<Rightarrow> storage \<Rightarrow> 'd worker \<Rightarrow> block certificate \<Rightarrow> (blob_id, blob) btree_map \<Rightarrow> nat option \<Rightarrow> timestamp
    \<Rightarrow> ('d, network_actions \<times> block_outcome \<times> nat list) handled" where
  "finish_confirmed ce sto w cert blobs waiter now =
    (let blk = c_value cert; header = b_header blk; height = bh_height header; chain = bh_chain_id header in
     attempt w (ensure (tip_block_hash (ch_tip_state (wk_chain w)) = bh_previous_block_hash header) InvalidBlockChaining) (\<lambda>_.
     continue (initialize_and_save_if_needed ce w now) (\<lambda>w _.
     let ch = wk_chain w in
     attempt w (chain_try (chain_current_committee ce ch)) (\<lambda>(ep, _).
     attempt w (check_block_epoch ep chain (bh_epoch header)) (\<lambda>_.
     attempt w (chain_try (remove_bundles_from_inboxes ce ch (bh_timestamp header) False
         (incoming_bundles_in (bb_transactions (b_body blk))))) (\<lambda>ch.
     continue (execute_confirmed ce sto w ch blk (List.map_filter (btm_get blobs) (block_published_blob_ids blk)) now) (\<lambda>w (ch, verified).
     let (pb, out) = into_proposal blk in
     attempt w (ensure (out = verified) (IncorrectOutcome verified out)) (\<lambda>_.
     attempt w (chain_try (apply_confirmed_block ce ch blk now)) (\<lambda>ch.
     let w = track_newly_created_chains w pb out in
     attempt w (create_network_actions ce sto w ch None) (\<lambda>actions.
     let actions = actions\<lparr> na_notifications := na_notifications actions @
           [(chain, NewBlock height (h_block (ce_hashes ce) blk) (bts_of_list (map event_stream_id (concat (bb_events (b_body blk))))))] \<rparr> in
     case register_delivery_notifier (save w ch) height actions waiter of (w, notified) \<Rightarrow>
     (w, Ok (actions, Processed, notified))))))))))))"

definition process_confirmed_block ::
  "'d chain_env \<Rightarrow> storage \<Rightarrow> 'd worker \<Rightarrow> block certificate \<Rightarrow> nat option \<Rightarrow> timestamp
    \<Rightarrow> ('d, network_actions \<times> block_outcome \<times> nat list) handled \<times> storage_write list" where
  "process_confirmed_block ce sto w cert waiter now =
    (let blk = c_value cert; height = bh_height (b_header blk); ch = wk_chain w;
         next = tip_next_block_height (ch_tip_state ch) in
     if height < next then
       (attempt w (create_network_actions ce sto w ch None) (\<lambda>actions.
          case register_delivery_notifier w height actions waiter of (w, notified) \<Rightarrow> (w, Ok (actions, Skipped, notified))), [])
     else
       case and_then (committee_for_block sto ch (bh_epoch (b_header blk)))
              (check_certificate ce (confirmed_value (ce_hashes ce)) cert) of
         Err e \<Rightarrow> ((w, Err e), [])
       | Ok _ \<Rightarrow>
          let blobs_result = get_required_blobs sto ch (required_blob_ids blk) (created_blobs blk);
              writes = confirmed_writes (ce_hashes ce) cert (case blobs_result of Ok blobs \<Rightarrow> Some blobs | Err _ \<Rightarrow> None)
          in (attempt w blobs_result (\<lambda>blobs.
                if next < height then
                  attempt w (chain_try (preprocess_block ce ch blk)) (\<lambda>ch.
                  let w = save w ch in
                  attempt w (create_network_actions ce sto w ch None) (\<lambda>actions.
                  case register_delivery_notifier w height actions waiter of (w, notified) \<Rightarrow>
                  (w, Ok (actions, Preprocessed, notified))))
                else finish_confirmed ce sto w cert blobs waiter now), writes))"

section \<open>Cross-chain messages\<close>

text \<open>The heights of a list of bundles must not decrease; the lengths of the skipped and of the trusted prefix.\<close>

fun scan_bundles ::
  "bool \<Rightarrow> epoch \<Rightarrow> (epoch, committee) btree_map \<Rightarrow> block_height \<Rightarrow> block_height option
    \<Rightarrow> nat \<Rightarrow> block_height option \<Rightarrow> nat \<times> nat \<Rightarrow> (epoch \<times> message_bundle) list \<Rightarrow> (nat \<times> nat, worker_error) result" where
  "scan_bundles allow ep committees next anticipated i latest lens [] = Ok lens"
| "scan_bundles allow ep committees next anticipated i latest (skipped, trusted) ((e, b) # bs) =
    and_then (ensure (case latest of None \<Rightarrow> True | Some h \<Rightarrow> h \<le> mb_height b) InvalidCrossChainRequest) (\<lambda>_.
    let skipped = (if mb_height b < next then i + 1 else skipped);
        trusted = (if allow \<or> (case anticipated of None \<Rightarrow> False | Some h \<Rightarrow> mb_height b \<le> h) \<or> ep \<le> e \<or> btm_get committees e \<noteq> None
                   then i + 1 else trusted)
    in scan_bundles allow ep committees next anticipated (i + 1) (Some (mb_height b)) (skipped, trusted) bs)"

definition select_message_bundles ::
  "bool \<Rightarrow> epoch \<Rightarrow> (epoch, committee) btree_map \<Rightarrow> block_height \<Rightarrow> block_height option
    \<Rightarrow> (epoch \<times> message_bundle) list \<Rightarrow> (message_bundle list, worker_error) result" where
  "select_message_bundles allow ep committees next anticipated bundles =
    and_then (scan_bundles allow ep committees next anticipated 0 None (0, 0) bundles) (\<lambda>(skipped, trusted).
    Ok (if skipped < trusted then map snd (drop skipped (take trusted bundles)) else []))"

definition chain_next_height_to_receive :: "'d chain_state \<Rightarrow> chain_id \<Rightarrow> (block_height, chain_error) result" where
  "chain_next_height_to_receive ch origin =
    (case btm_get (ch_inboxes ch) origin of
       None \<Rightarrow> Ok 0 | Some ib \<Rightarrow> chain_arith (next_block_height_to_receive ib))"

definition last_anticipated_block_height :: "'d chain_state \<Rightarrow> chain_id \<Rightarrow> block_height option" where
  "last_anticipated_block_height ch origin =
    Option.bind (btm_get (ch_inboxes ch) origin) (\<lambda>ib. map_option mb_height (queue_back (removed_bundles ib)))"

fun receive_bundles ::
  "'d chain_env \<Rightarrow> chain_id \<Rightarrow> timestamp \<Rightarrow> block_height option \<Rightarrow> 'd chain_state \<Rightarrow> message_bundle list \<Rightarrow> ('d chain_state, chain_error) result" where
  "receive_bundles ce origin now previous ch [] = Ok ch"
| "receive_bundles ce origin now previous ch (b # bs) =
    and_then (receive_message_bundle ce ch origin b now (previous \<noteq> Some (mb_height b))) (\<lambda>ch.
    receive_bundles ce origin now (Some (mb_height b)) ch bs)"

definition process_cross_chain_update ::
  "'d chain_env \<Rightarrow> 'd worker \<Rightarrow> chain_id \<Rightarrow> (epoch \<times> message_bundle) list \<Rightarrow> timestamp \<Rightarrow> ('d, block_height option) handled" where
  "process_cross_chain_update ce w origin bundles now =
    (let ch = wk_chain w; s = ch_system ch in
     attempt w (chain_try (chain_next_height_to_receive ch origin)) (\<lambda>next.
     attempt w (select_message_bundles (wc_allow_messages_from_deprecated_epochs (wk_config w)) (sy_epoch s) (sy_committees s)
         next (last_anticipated_block_height ch origin) bundles) (\<lambda>bundles.
     if bundles = [] then (w, Ok None)
     else
       attempt w (chain_try (receive_bundles ce origin now None ch bundles)) (\<lambda>ch.
       if \<not> wc_allow_inactive_chains (wk_config w) \<and> \<not> system_is_active (ch_system ch) then (w, Ok None)
       else (save w ch, Ok (Some (mb_height (last bundles))))))))"

text \<open>The waiters that are notified are part of the result.\<close>

definition confirm_updated_recipient :: "'d worker \<Rightarrow> chain_id \<Rightarrow> block_height \<Rightarrow> ('d, nat list) handled" where
  "confirm_updated_recipient w recipient latest_height =
    attempt w (chain_try (chain_mark_messages_as_received (wk_chain w) recipient latest_height)) (\<lambda>(ch, changed).
    attempt w (if changed then all_messages_to_tracked_chains_delivered_up_to w ch latest_height else Ok False) (\<lambda>fully_delivered.
    let w = save w ch in
    if fully_delivered then
      case notifier_notify (wk_notifier w) latest_height of (ns, notified) \<Rightarrow> (w\<lparr> wk_notifier := ns \<rparr>, Ok notified)
    else (w, Ok [])))"

definition worker_update_trackers :: "'d worker \<Rightarrow> (validator_public_key, u64) btree_map \<Rightarrow> 'd worker" where
  "worker_update_trackers w trackers = save w (update_received_certificate_trackers (wk_chain w) trackers)"

section \<open>Timeouts, blobs and queries\<close>

definition vote_for_leader_timeout :: "'d chain_env \<Rightarrow> 'd worker \<Rightarrow> block_height \<Rightarrow> round \<Rightarrow> timestamp \<Rightarrow> ('d, unit) handled" where
  "vote_for_leader_timeout ce w height r now =
    (let ch = wk_chain w; next = tip_next_block_height (ch_tip_state ch) in
     attempt w (ensure (height = next) (WUnexpectedBlockHeight next height)) (\<lambda>_.
     attempt w (chain_try (create_timeout_vote (ce_hashes ce) (ch_manager ch) (xc_chain_id (ce_ctx ce)) height r
         (sy_epoch (ch_system ch)) (wc_key_pair (wk_config w)) now)) (\<lambda>(m, created).
     (if created then save w (ch\<lparr> ch_manager := m \<rparr>) else w, Ok ()))))"

definition vote_for_fallback :: "'d chain_env \<Rightarrow> 'd worker \<Rightarrow> timestamp \<Rightarrow> 'd worker" where
  "vote_for_fallback ce w now =
    (let ch = wk_chain w in
     case bucket_front (ch_unskippable_bundles ch) of
       None \<Rightarrow> w
     | Some entry \<Rightarrow>
        if fallback_duration (timeout_config (sy_ownership (ch_system ch))) \<le> delta_since now (tb_seen entry) then
          case vote_fallback (ce_hashes ce) (ch_manager ch) (xc_chain_id (ce_ctx ce)) (tip_next_block_height (ch_tip_state ch))
                 (sy_epoch (ch_system ch)) (wc_key_pair (wk_config w)) of (m, voted) \<Rightarrow>
            if voted then save w (ch\<lparr> ch_manager := m \<rparr>) else w
        else w)"

definition insert_pending_blob ::
  "'d chain_env \<Rightarrow> 'd chain_state \<Rightarrow> blob \<Rightarrow> (account_owner, pending_blobs_view) btree_map \<times> bool \<Rightarrow> account_owner \<times> pending_blobs_view
    \<Rightarrow> ((account_owner, pending_blobs_view) btree_map \<times> bool, worker_error) result" where
  "insert_pending_blob ce ch b = (\<lambda>(m, was_expected) (owner, v).
    and_then
      (if pb_validated v then Ok ()
       else
         and_then (chain_try (chain_current_committee ce ch)) (\<lambda>(_, committee).
         let policy = committee_policy committee in
         and_then (chain_try (with_execution_context BlockContext
             (check_blob_size (bz_decompressed (ce_sizes ce)) policy (blob_content b)))) (\<lambda>_.
         ensure (length (pb_pending_blobs v) < unat (maximum_published_blobs policy))
           (TooManyPublishedBlobs (maximum_published_blobs policy))))) (\<lambda>_.
    if was_expected then Ok (m, True)
    else case maybe_insert v b of (v, inserted) \<Rightarrow> Ok (btm_insert owner v m, inserted)))"

definition handle_pending_blob :: "'d chain_env \<Rightarrow> 'd worker \<Rightarrow> blob \<Rightarrow> ('d, unit) handled" where
  "handle_pending_blob ce w b =
    (let ch = wk_chain w in
     case maybe_insert (ch_pending_validated_blobs ch) b of (validated, was_expected) \<Rightarrow>
     attempt w (try_fold (insert_pending_blob ce ch b) (ch_pending_proposed_blobs ch, was_expected) (ch_pending_proposed_blobs ch)) (\<lambda>(proposed, was_expected).
     attempt w (ensure was_expected UnexpectedBlob) (\<lambda>_.
     (save w (ch\<lparr> ch_pending_validated_blobs := validated, ch_pending_proposed_blobs := proposed \<rparr>), Ok ()))))"

section \<open>Block proposals\<close>

definition check_proposal_size :: "storage \<Rightarrow> proposed_block \<Rightarrow> u64 \<Rightarrow> (unit, chain_error) result" where
  "check_proposal_size sto pb maximum =
    (let size = sto_proposal_size sto pb in ensure (size \<le> unat maximum) (BlockProposalTooLarge size))"

text \<open>The authentication of the block: by the owner, by an earlier quorum, or by the super owner of the fast round.\<close>

definition check_authentication ::
  "crypto \<Rightarrow> 'd chain_state \<Rightarrow> committee \<Rightarrow> block_proposal \<Rightarrow> (unit, worker_error) result" where
  "check_authentication cr ch committee p =
    (let owner = proposal_owner cr p; blk = pc_block (bp_content p) in
     case bp_original_proposal p of
       None \<Rightarrow>
        (case pb_authenticated_signer blk of
           None \<Rightarrow> Ok () | Some signer \<Rightarrow> ensure (signer = owner) (WInvalidSigner owner))
     | Some (OriginalRegular cert) \<Rightarrow>
        chain_try (and_then (lite_certificate_check (cr_verify cr) cert committee) (\<lambda>_. Ok ()))
     | Some (OriginalFast signature) \<Rightarrow>
        let original = \<lparr> bp_content = \<lparr> pc_block = blk, pc_round = Fast, pc_outcome = None \<rparr>, bp_signature = signature,
                         bp_original_proposal = None \<rparr>;
            super_owner = proposal_owner cr original in
        and_then (ensure (List.member (super_owners (cm_ownership (ch_manager ch))) super_owner) WInvalidOwner) (\<lambda>_.
        and_then (case pb_authenticated_signer blk of
                    None \<Rightarrow> Ok () | Some signer \<Rightarrow> ensure (signer = super_owner) (WInvalidSigner signer)) (\<lambda>_.
        map_err (\<lambda>_. WCryptoError) (check_signature cr original))))"

text \<open>All checks of a proposal before its block is executed.\<close>

definition check_proposal :: "'d chain_env \<Rightarrow> storage \<Rightarrow> 'd chain_state \<Rightarrow> block_proposal \<Rightarrow> (outcome, worker_error) result" where
  "check_proposal ce sto ch p =
    (let cr = ce_crypto ce; blk = pc_block (bp_content p) in
     and_then (map_err InvalidBlockProposal (check_invariants (cr_hashes cr) p)) (\<lambda>_.
     and_then (map_err (\<lambda>_. WCryptoError) (check_signature cr p)) (\<lambda>_.
     and_then (chain_try (chain_current_committee ce ch)) (\<lambda>(ep, committee).
     and_then (check_block_epoch ep (pb_chain_id blk) (pb_epoch blk)) (\<lambda>_.
     and_then (chain_try (check_proposal_size sto blk (maximum_block_proposal_size (committee_policy committee)))) (\<lambda>_.
     and_then (ensure (verify_owner (ce_sampler ce) (ch_manager ch) (proposal_owner cr p) (pc_round (bp_content p))) WInvalidOwner) (\<lambda>_.
     and_then (check_authentication cr ch committee p) (\<lambda>_.
     and_then (chain_try (verify_block_chaining (ch_tip_state ch) blk)) (\<lambda>_.
     chain_try (check_proposed_block cr (ch_manager ch) p))))))))))"

text \<open>
  The vote on a proposal whose block was executed, which left the chain \<open>executed\<close>. The counters are
  tried on that chain; the vote goes to the saved one, as the execution is rolled back.
\<close>

definition vote_on_proposal ::
  "'d chain_env \<Rightarrow> storage \<Rightarrow> 'd worker \<Rightarrow> 'd chain_state \<Rightarrow> block_proposal \<Rightarrow> block_execution_outcome \<Rightarrow> timestamp \<Rightarrow> round \<Rightarrow> ('d, network_actions) handled" where
  "vote_on_proposal ce sto w executed p out now old_round =
    (let ch = wk_chain w; pb = pc_block (bp_content p) in
     attempt w (ensure (\<not> is_fast (pc_round (bp_content p)) \<or> \<not> outcome_has_oracle_responses out) FastBlockUsingOracles) (\<lambda>_.
     attempt w (chain_try (update_counters (ch_tip_state executed) (pb_transactions pb) (beo_messages out))) (\<lambda>_.
     let blk = Block_new (ce_hashes ce) pb out in
     attempt w (get_required_blobs sto ch (proposal_expected_blob_ids p) (created_blobs blk)) (\<lambda>blobs.
     let ch = ch\<lparr> ch_manager := fst (create_vote (ce_hashes ce) (ch_manager ch) p blk (wc_key_pair (wk_config w)) now blobs) \<rparr>;
         w = save w ch
     in (w, create_network_actions ce sto w ch (Some old_round))))))"

definition handle_block_proposal ::
  "'d chain_env \<Rightarrow> storage \<Rightarrow> 'd worker \<Rightarrow> block_proposal \<Rightarrow> timestamp \<Rightarrow> timestamp \<Rightarrow> ('d, network_actions) handled" where
  "handle_block_proposal ce sto w p now later =
    continue (initialize_and_save_if_needed ce w now) (\<lambda>w _.
    let ch = wk_chain w; old_round = cm_current_round (ch_manager ch); pb = pc_block (bp_content p) in
    attempt w (check_proposal ce sto ch p) (\<lambda>outcome.
    if outcome = OutcomeSkip then (w, Ok no_actions)
    else
      let (m, changed) = update_signed_proposal (ch_manager ch) p now;
          w = (if changed then save w (ch\<lparr> ch_manager := m \<rparr>) else w) in
      continue (load_proposal_blobs ce sto w p) (\<lambda>w published.
      attempt w (ensure (duration_since (pb_timestamp pb) now \<le> wc_grace_period (wk_config w)) InvalidTimestamp) (\<lambda>_.
      attempt w (chain_try (remove_bundles_from_inboxes ce (wk_chain w) (pb_timestamp pb) True (incoming_bundles_in (pb_transactions pb)))) (\<lambda>ch.
      case pc_outcome (bp_content p) of
        Some out \<Rightarrow> vote_on_proposal ce sto w ch p out later old_round
      | None \<Rightarrow>
         continue (worker_execute_block ce w ch pb later (multi_leader (pc_round (bp_content p))) published) (\<lambda>w (ch, out).
         vote_on_proposal ce sto w ch p out later old_round))))))"

section \<open>Chain information\<close>

text \<open>
  The information on a chain that the answer to every request holds. The handlers of proposals and
  certificates answer with \<open>chain_info_of\<close> of the chain they leave, under the signature of the
  validator; their definitions return the network actions only.
\<close>

record chain_info =
  ci_chain_id :: chain_id
  ci_epoch :: epoch
  ci_description :: "chain_description option"
  ci_manager :: chain_manager_info
  ci_chain_balance :: amount
  ci_block_hash :: "crypto_hash option"
  ci_timestamp :: timestamp
  ci_next_block_height :: block_height
  ci_state_hash :: "crypto_hash option"
  ci_requested_owner_balance :: "amount option"
  ci_requested_committees :: "(epoch, committee) btree_map option"
  ci_requested_pending_message_bundles :: "incoming_bundle list"
  ci_requested_sent_certificate_hashes :: "crypto_hash list"
  ci_count_received_log :: nat
  ci_requested_received_log :: "(chain_id \<times> block_height) list"

record chain_info_query =
  qu_chain_id :: chain_id
  qu_test_next_block_height :: "block_height option"
  qu_request_owner_balance :: account_owner
  qu_request_committees :: bool
  qu_request_pending_message_bundles :: bool
  qu_request_sent_certificate_hashes_in_range :: "(block_height \<times> u64 option) option"
  qu_request_received_log_excluding_first_n :: "u64 option"
  qu_request_manager_values :: bool
  qu_request_leader_timeout :: "(block_height \<times> round) option"
  qu_request_fallback :: bool
  qu_request_sent_certificate_hashes_by_heights :: "block_height list"
  qu_create_network_actions :: bool

definition chain_info_of :: "'d chain_env \<Rightarrow> 'd chain_state \<Rightarrow> chain_info" where
  "chain_info_of ce ch =
    (let s = ch_system ch; tip = ch_tip_state ch in
     \<lparr> ci_chain_id = xc_chain_id (ce_ctx ce), ci_epoch = sy_epoch s, ci_description = sy_description s,
       ci_manager = manager_info (ce_hashes ce) (ce_sampler ce) (ch_manager ch), ci_chain_balance = sy_balance s,
       ci_block_hash = tip_block_hash tip, ci_timestamp = sy_timestamp s, ci_next_block_height = tip_next_block_height tip,
       ci_state_hash = ch_execution_state_hash ch, ci_requested_owner_balance = None, ci_requested_committees = None,
       ci_requested_pending_message_bundles = [], ci_requested_sent_certificate_hashes = [],
       ci_count_received_log = length (ch_received_log ch), ci_requested_received_log = [] \<rparr>)"

definition stage_block_execution ::
  "'d chain_env \<Rightarrow> storage \<Rightarrow> 'd worker \<Rightarrow> proposed_block \<Rightarrow> u32 option \<Rightarrow> blob list \<Rightarrow> timestamp
    \<Rightarrow> ('d, block \<times> chain_info) handled" where
  "stage_block_execution ce sto w pb round published now =
    continue (initialize_and_save_if_needed ce w now) (\<lambda>w _.
    attempt w (chain_try (chain_current_committee ce (wk_chain w))) (\<lambda>(_, committee).
    attempt w (chain_try (check_proposal_size sto pb (maximum_block_proposal_size (committee_policy committee)))) (\<lambda>_.
    continue (worker_execute_block ce w (wk_chain w) pb now round published) (\<lambda>w (ch, out).
    let info = chain_info_of ce ch in
    (w, Ok (Block_new (ce_hashes ce) pb out,
            case pb_authenticated_signer pb of
              None \<Rightarrow> info
            | Some signer \<Rightarrow> info\<lparr> ci_requested_owner_balance := btm_get (sy_balances (ch_system ch)) signer \<rparr>))))))"

text \<open>The hashes of all blocks that are known in a range of heights.\<close>

definition block_hashes :: "'d chain_state \<Rightarrow> block_height bound \<Rightarrow> block_height bound \<Rightarrow> crypto_hash list" where
  "block_hashes ch lower upper =
    (let next = tip_next_block_height (ch_tip_state ch) in
     case to_inclusive lower upper of
       None \<Rightarrow> []
     | Some (first, final) \<Rightarrow>
        (case try_sub_one next of
           Ok last_height \<Rightarrow> take (unat (min final last_height) + 1 - unat first) (drop (unat first) (ch_confirmed_log ch))
         | Err _ \<Rightarrow> []) @
        List.map_filter (btm_get (ch_preprocessed_blocks ch)) (map of_nat [unat (max first next)..<unat final + 1]))"

definition pending_message_bundles :: "'d chain_state \<Rightarrow> (incoming_bundle list, worker_error) result" where
  "pending_message_bundles ch =
    (let action = (if sy_closed (ch_system ch) then Reject else Accept) in
     and_then (try_fold (\<lambda>bs (origin, ib).
         and_then (map_err (\<lambda>_. WViewError) (queue_elements (added_bundles ib))) (\<lambda>added.
         Ok (bs @ map (\<lambda>b. \<lparr> ib_origin = origin, ib_bundle = b, ib_action = action \<rparr>) added))) [] (ch_inboxes ch)) (\<lambda>bs.
     Ok (sort_key (\<lambda>b. mb_timestamp (ib_bundle b)) bs)))"

definition prepare_chain_info_response ::
  "'d chain_env \<Rightarrow> 'd worker \<Rightarrow> chain_info_query \<Rightarrow> timestamp \<Rightarrow> ('d, chain_info) handled" where
  "prepare_chain_info_response ce w q now =
    continue (initialize_and_save_if_needed ce w now) (\<lambda>w _.
    let ch = wk_chain w; s = ch_system ch; next = tip_next_block_height (ch_tip_state ch); info = chain_info_of ce ch;
        info = info\<lparr>
          ci_requested_committees := (if qu_request_committees q then Some (sy_committees s) else None),
          ci_requested_owner_balance := (if qu_request_owner_balance q = CHAIN then Some (sy_balance s)
                                         else btm_get (sy_balances s) (qu_request_owner_balance q)) \<rparr> in
    attempt w (case qu_test_next_block_height q of
                 None \<Rightarrow> Ok () | Some h \<Rightarrow> ensure (next = h) (WUnexpectedBlockHeight next h)) (\<lambda>_.
    attempt w (if qu_request_pending_message_bundles q then pending_message_bundles ch else Ok []) (\<lambda>bundles.
    let info = info\<lparr>
          ci_requested_pending_message_bundles := bundles,
          ci_requested_sent_certificate_hashes :=
            concat (map (\<lambda>h. block_hashes ch (Included h) (Included h)) (qu_request_sent_certificate_hashes_by_heights q)),
          ci_requested_received_log := (case qu_request_received_log_excluding_first_n q of
              None \<Rightarrow> []
            | Some n \<Rightarrow> take (wc_max_received_log_entries (wk_config w)) (drop (unat n) (ch_received_log ch))) \<rparr>
    in (w, Ok (if qu_request_manager_values q then info\<lparr> ci_manager := add_values (ci_manager info) (ch_manager ch) \<rparr> else info)))))"

definition handle_chain_info_query ::
  "'d chain_env \<Rightarrow> storage \<Rightarrow> 'd worker \<Rightarrow> chain_info_query \<Rightarrow> timestamp \<Rightarrow> ('d, chain_info \<times> network_actions) handled" where
  "handle_chain_info_query ce sto w q now =
    continue (case qu_request_leader_timeout q of
                None \<Rightarrow> (w, Ok ()) | Some (height, r) \<Rightarrow> vote_for_leader_timeout ce w height r now) (\<lambda>w _.
    let w = (if qu_request_fallback q then vote_for_fallback ce w now else w) in
    continue (prepare_chain_info_response ce w q now) (\<lambda>w info.
    attempt w (if qu_create_network_actions q then create_network_actions ce sto w (wk_chain w) None else Ok no_actions) (\<lambda>actions.
    (w, Ok (info, actions)))))"

section \<open>Reading the chain\<close>

text \<open>The height below the end of the range has a successor, so the addition of the loop cannot overflow.\<close>

function get_preprocessed_block_hashes :: "'d chain_state \<Rightarrow> block_height \<Rightarrow> block_height \<Rightarrow> crypto_hash list" where
  "get_preprocessed_block_hashes ch height final =
    (if height < final then
       case btm_get (ch_preprocessed_blocks ch) height of
         None \<Rightarrow> []
       | Some hash \<Rightarrow> hash # get_preprocessed_block_hashes ch (height + 1) final
     else [])"
  by pat_completeness auto
termination
proof (relation "measure (\<lambda>(_, height, final). unat final - unat height)")
  fix ch :: "'d chain_state" and height final :: block_height and hash :: crypto_hash
  assume less: "height < final"
  then have "unat (height + 1) = unat height + 1"
    by unat_arith
  then show "((ch, height + 1, final), (ch, height, final)) \<in> measure (\<lambda>(_, height, final). unat final - unat height)"
    using less by (simp add: word_less_nat_alt)
qed simp

definition get_inbox_next_height :: "'d chain_state \<Rightarrow> chain_id \<Rightarrow> (block_height, worker_error) result" where
  "get_inbox_next_height ch origin =
    (case btm_get (ch_inboxes ch) origin of
       None \<Rightarrow> Ok 0
     | Some ib \<Rightarrow> chain_try (chain_arith (next_block_height_to_receive ib)))"

primrec get_locking_blobs :: "'d chain_state \<Rightarrow> blob_id list \<Rightarrow> blob list option" where
  "get_locking_blobs ch [] = Some []"
| "get_locking_blobs ch (bid # bids) =
    (case btm_get (cm_locking_blobs (ch_manager ch)) bid of
       None \<Rightarrow> None
     | Some b \<Rightarrow> map_option (Cons b) (get_locking_blobs ch bids))"

definition read_confirmed_log ::
  "'d chain_env \<Rightarrow> 'd chain_state \<Rightarrow> block_height \<Rightarrow> block_height \<Rightarrow> (crypto_hash list, worker_error) result" where
  "read_confirmed_log ce ch first final =
    try_fold (\<lambda>hashes i.
      if i < length (ch_confirmed_log ch) then Ok (hashes @ [ch_confirmed_log ch ! i])
      else Err (ConfirmedLogEntryNotFound (of_nat i) (xc_chain_id (ce_ctx ce)))) [] [unat first..<unat final]"

end
