(* ===== verification/Consensus.thy ===== *)
theory Consensus
  imports Manager
begin

text \<open>
  The decision on one block of a chain by the chain managers of a committee. The votes of a validator are
  what its manager holds in a saved state, since a vote leaves a validator only with the information on
  its chain. The faulty members \<open>F\<close> of the committee send what they like; the messages of the others
  are those of the steps below, in any order, with any loss and repetition. A certificate counts as
  evidence when its signers outside \<open>F\<close> did cast the vote, which is what signatures that cannot be
  forged and hashes without collisions give.
\<close>

section \<open>Votes and evidence\<close>

abbreviation validated_vote :: "crypto_hash \<Rightarrow> round \<Rightarrow> vote_value" where
  "validated_vote h r \<equiv> VoteValue h r ValidatedKind"

abbreviation confirmed_vote :: "crypto_hash \<Rightarrow> round \<Rightarrow> vote_value" where
  "confirmed_vote h r \<equiv> VoteValue h r ConfirmedKind"

type_synonym vote_log = "validator_public_key \<Rightarrow> vote_value set"

definition votes_of :: "hashes \<Rightarrow> 'd chain_manager \<Rightarrow> vote_value set" where
  "votes_of hs m =
    (case cm_validated_vote m of None \<Rightarrow> {} | Some v \<Rightarrow> {validated_vote (h_block hs (v_value v)) (v_round v)}) \<union>
    (case cm_confirmed_vote m of None \<Rightarrow> {} | Some v \<Rightarrow> {confirmed_vote (h_block hs (v_value v)) (v_round v)})"

definition backed :: "committee \<Rightarrow> validator_public_key set \<Rightarrow> vote_log \<Rightarrow> vote_value \<Rightarrow> bool" where
  "backed c F L vv \<longleftrightarrow> (\<exists>Q. committee_quorums.is_quorum c Q \<and> (\<forall>k \<in> Q. k \<in> F \<or> vv \<in> L k))"

lemma backed_mono: "backed c F L vv \<Longrightarrow> (\<And>k. L k \<subseteq> L' k) \<Longrightarrow> backed c F L' vv"
  unfolding backed_def by blast

text \<open>A certificate that passes its check and whose honest signatures are genuine is evidence.\<close>

definition genuine :: "verifier \<Rightarrow> validator_public_key set \<Rightarrow> vote_log \<Rightarrow> vote_value \<Rightarrow> signatures \<Rightarrow> bool" where
  "genuine vf F L vv sigs \<longleftrightarrow> (\<forall>(k, s) \<in> set sigs. vf k vv s \<longrightarrow> k \<in> F \<or> vv \<in> L k)"

lemma certified_backed:
  assumes "committee_ok c" "certified vf c vv sigs" "genuine vf F L vv sigs"
  shows "backed c F L vv"
  unfolding backed_def
  using certified_quorum [OF assms(1,2)] assms(2,3)
  by (intro exI [of _ "signers sigs"]) (auto simp: certified_def genuine_def)

section \<open>The rules of voting\<close>

text \<open>
  What the votes of a validator obey: one vote of each kind in a round, no vote to validate in the
  fast round, no vote to confirm after the fast round without a validated block, and no vote to validate another
  block after a vote to confirm, unless the block was validated in the meantime.
\<close>

definition voting_rules :: "committee \<Rightarrow> validator_public_key set \<Rightarrow> vote_log \<Rightarrow> validator_public_key \<Rightarrow> bool" where
  "voting_rules c F L k \<longleftrightarrow>
    (\<forall>h h' r. validated_vote h r \<in> L k \<longrightarrow> validated_vote h' r \<in> L k \<longrightarrow> h = h') \<and>
    (\<forall>h h' r. confirmed_vote h r \<in> L k \<longrightarrow> confirmed_vote h' r \<in> L k \<longrightarrow> h = h') \<and>
    (\<forall>h r. validated_vote h r \<in> L k \<longrightarrow> r \<noteq> Fast) \<and>
    (\<forall>h r. confirmed_vote h r \<in> L k \<longrightarrow> r \<noteq> Fast \<longrightarrow> backed c F L (validated_vote h r)) \<and>
    (\<forall>h1 r1 h s. confirmed_vote h1 r1 \<in> L k \<longrightarrow> validated_vote h s \<in> L k \<longrightarrow> r1 < s \<longrightarrow>
      (\<exists>q. r1 \<le> q \<and> q < s \<and> backed c F L (validated_vote h q)) \<or> r1 = Fast \<and> h = h1)"

lemma voting_rulesD:
  assumes "voting_rules c F L k"
  shows "validated_vote h r \<in> L k \<Longrightarrow> validated_vote h' r \<in> L k \<Longrightarrow> h = h'"
    "confirmed_vote h r \<in> L k \<Longrightarrow> confirmed_vote h' r \<in> L k \<Longrightarrow> h = h'"
    "validated_vote h r \<in> L k \<Longrightarrow> r \<noteq> Fast"
    "confirmed_vote h r \<in> L k \<Longrightarrow> r \<noteq> Fast \<Longrightarrow> backed c F L (validated_vote h r)"
    "confirmed_vote h1 r1 \<in> L k \<Longrightarrow> validated_vote h s \<in> L k \<Longrightarrow> r1 < s \<Longrightarrow>
      (\<exists>q. r1 \<le> q \<and> q < s \<and> backed c F L (validated_vote h q)) \<or> r1 = Fast \<and> h = h1"
  using assms unfolding voting_rules_def by blast+

text \<open>The position of a round among all rounds.\<close>

definition round_index :: "round \<Rightarrow> nat" where
  "round_index r = (case r of Fast \<Rightarrow> 0 | MultiLeader n \<Rightarrow> 1 + unat n | SingleLeader n \<Rightarrow> 1 + 2 ^ 32 + unat n
     | Validator n \<Rightarrow> 1 + 2 * 2 ^ 32 + unat n)"

lemma round_index_mono:
  assumes "r < s"
  shows "round_index r < round_index s"
proof -
  have "unat n < 2 ^ 32" for n :: u32 using unsigned_less [of n] by simp
  from this [simplified] have bound: "unat n < 4294967296" for n :: u32 .
  then have bound2: "unat n < 8589934592 + a" for n :: u32 and a
    using trans_less_add1 [OF less_trans, of "unat n" 4294967296 8589934592 a] by simp
  show ?thesis
    using assms bound bound2
    by (cases r; cases s) (auto simp: round_index_def round_order_defs word_less_nat_alt trans_less_add1)
qed

lemma backed_share:
  assumes "committee_ok c" "committee_quorums.tolerates c F" "backed c F L vv" "backed c F L vv'"
  shows "\<exists>k. k \<notin> F \<and> vv \<in> L k \<and> vv' \<in> L k"
  using assms(3,4) committee_quorums.quorums_meet [OF assms(1,2)] unfolding backed_def by blast

lemma backed_validated_unique:
  assumes "committee_ok c" "committee_quorums.tolerates c F" "\<And>k. k \<notin> F \<Longrightarrow> voting_rules c F L k"
    and "backed c F L (validated_vote h r)" "backed c F L (validated_vote h' r)"
  shows "h = h'"
  using backed_share [OF assms(1,2,4,5)] voting_rulesD(1) [OF assms(3)] by blast

text \<open>After a block could have been confirmed, no other block is validated any more.\<close>

lemma validated_after_confirmed:
  assumes ok: "committee_ok c" "committee_quorums.tolerates c F" and rules: "\<And>k. k \<notin> F \<Longrightarrow> voting_rules c F L k"
    and conf: "backed c F L (confirmed_vote h1 r1)" and val: "backed c F L (validated_vote h s)" and le: "r1 \<le> s"
  shows "h = h1"
  using val le
proof (induction "round_index s" arbitrary: s rule: less_induct)
  case less
  note meet = backed_share [OF ok]
  show ?case
  proof (cases "r1 = s")
    case True
    obtain k where "k \<notin> F" "validated_vote h s \<in> L k" using meet [OF less(2) less(2)] by blast
    then have "r1 \<noteq> Fast" using voting_rulesD(3) [OF rules] True by blast
    moreover obtain k' where "k' \<notin> F" "confirmed_vote h1 r1 \<in> L k'" using meet [OF conf conf] by blast
    ultimately have "backed c F L (validated_vote h1 r1)" using voting_rulesD(4) [OF rules] by blast
    then show ?thesis using backed_validated_unique [OF ok rules less(2)] True by simp
  next
    case False
    obtain k where k: "k \<notin> F" "confirmed_vote h1 r1 \<in> L k" "validated_vote h s \<in> L k" using meet [OF conf less(2)] by blast
    from False less(3) have "r1 < s" by simp
    from voting_rulesD(5) [OF rules [OF k(1)] k(2,3) this] less(1) show ?thesis
      using round_index_mono by blast
  qed
qed

lemma voting_agreement:
  assumes ok: "committee_ok c" "committee_quorums.tolerates c F" and rules: "\<And>k. k \<notin> F \<Longrightarrow> voting_rules c F L k"
    and conf: "backed c F L (confirmed_vote h r)" "backed c F L (confirmed_vote h' r')"
  shows "h = h'"
proof -
  have later: "h2 = h1" if conf1: "backed c F L (confirmed_vote h1 r1)" and conf2: "backed c F L (confirmed_vote h2 r2)" and less: "r1 < r2" for h1 r1 h2 r2
  proof -
    obtain k where k: "k \<notin> F" "confirmed_vote h2 r2 \<in> L k" using backed_share [OF ok conf2 conf2] by blast
    from less have "r2 \<noteq> Fast" by (cases r1) (auto simp: round_order_defs)
    with voting_rulesD(4) [OF rules [OF k(1)] k(2)] have "backed c F L (validated_vote h2 r2)" by simp
    then show ?thesis using validated_after_confirmed [OF ok rules conf1] less by simp
  qed
  consider "r < r'" | "r = r'" | "r' < r" by fastforce
  then show ?thesis
  proof cases
    case 2
    then show ?thesis using backed_share [OF ok conf] voting_rulesD(2) [OF rules] by blast
  qed (use later conf in blast)+
qed

section \<open>Steps\<close>

text \<open>
  What the executions of blocks give: when an execution asks no oracle, every execution of the block has the
  same outcome. Only blocks of the fast round are executed by the validators independently and then confirmed.
\<close>

locale block_execution =
  fixes executes :: "proposed_block \<Rightarrow> block_execution_outcome \<Rightarrow> bool"
  assumes determined: "executes pb out \<Longrightarrow> \<not> outcome_has_oracle_responses out \<Longrightarrow> executes pb out' \<Longrightarrow> out' = out"

text \<open>
  A step of the manager of a validator, with the votes that are backed: a vote on a proposal, a vote
  on a validated block, or any other change, which keeps the votes and the locking block. Between the
  check of a proposal and the vote, the manager may change in the latter way.
\<close>

definition same_votes :: "'d chain_manager \<Rightarrow> 'd chain_manager \<Rightarrow> bool" where
  "same_votes m m' \<longleftrightarrow> cm_locking_block m' = cm_locking_block m \<and> cm_validated_vote m' = cm_validated_vote m \<and>
    cm_confirmed_vote m' = cm_confirmed_vote m"

lemma same_votes_lock: "same_votes m m' \<Longrightarrow> lock_of m' = lock_of m"
  by (simp add: same_votes_def lock_of_def)

inductive validator_step ::
  "hashes \<Rightarrow> crypto \<Rightarrow> (proposed_block \<Rightarrow> block_execution_outcome \<Rightarrow> bool) \<Rightarrow> (vote_value \<Rightarrow> bool) \<Rightarrow> 'd chain_manager \<Rightarrow> 'd chain_manager \<Rightarrow> bool"
  for hs cr executes evidence where
  proposed: "check_invariants hs p = Ok () \<Longrightarrow> check_proposed_block cr m0 p = Ok OutcomeAccept \<Longrightarrow> same_votes m0 m \<Longrightarrow>
    (\<And>cert. bp_original_proposal p = Some (OriginalRegular cert) \<Longrightarrow>
      evidence (VoteValue (lv_value_hash (lc_value cert)) (lc_round cert) (lv_kind (lc_value cert)))) \<Longrightarrow>
    (case pc_outcome (bp_content p) of Some out' \<Rightarrow> out = out' | None \<Rightarrow> executes (pc_block (bp_content p)) out) \<Longrightarrow>
    (proposal_round p = Fast \<Longrightarrow> \<not> outcome_has_oracle_responses out) \<Longrightarrow>
    create_vote hs m p (Block_new hs (pc_block (bp_content p)) out) (Some key) t bs = (m', vote) \<Longrightarrow>
    validator_step hs cr executes evidence m0 m'"
| validated: "check_validated_block m cert = Ok OutcomeAccept \<Longrightarrow>
    evidence (validated_vote (h_block hs (c_value cert)) (c_round cert)) \<Longrightarrow>
    validator_step hs cr executes evidence m (create_final_vote hs m cert (Some key) t bs)"
| kept: "same_votes m m' \<Longrightarrow> validator_step hs cr executes evidence m m'"

text \<open>A validator without a manager has confirmed the block and left for the next height.\<close>

type_synonym 'd consensus_state = "(validator_public_key \<Rightarrow> 'd chain_manager option) \<times> vote_log"

inductive consensus_step ::
  "hashes \<Rightarrow> crypto \<Rightarrow> (proposed_block \<Rightarrow> block_execution_outcome \<Rightarrow> bool) \<Rightarrow> committee \<Rightarrow> validator_public_key set
    \<Rightarrow> 'd consensus_state \<Rightarrow> 'd consensus_state \<Rightarrow> bool"
  for hs cr executes c F where
  voted: "k \<notin> F \<Longrightarrow> S k = Some m \<Longrightarrow> validator_step hs cr executes (backed c F L) m m' \<Longrightarrow>
    consensus_step hs cr executes c F (S, L) (S(k := Some m'), L(k := L k \<union> votes_of hs m'))"
| left: "consensus_step hs cr executes c F (S, L) (S(k := None), L)"

section \<open>Invariants\<close>

text \<open>What the manager of a validator remembers of the votes it cast.\<close>

definition remembers ::
  "hashes \<Rightarrow> (proposed_block \<Rightarrow> block_execution_outcome \<Rightarrow> bool) \<Rightarrow> vote_value set \<Rightarrow> 'd chain_manager \<Rightarrow> bool" where
  "remembers hs executes V m \<longleftrightarrow> votes_of hs m \<subseteq> V \<and>
    (\<forall>h s. validated_vote h s \<in> V \<longrightarrow>
      (\<exists>v. cm_validated_vote m = Some v \<and> s \<le> v_round v) \<or> (\<exists>r. lock_of m = Some r \<and> s \<le> r)) \<and>
    (\<forall>h r. confirmed_vote h r \<in> V \<longrightarrow>
      (\<exists>v. cm_confirmed_vote m = Some v \<and> r \<le> v_round v \<and> (r = v_round v \<longrightarrow> h = h_block hs (v_value v)))) \<and>
    (\<forall>v. cm_confirmed_vote m = Some v \<longrightarrow> (\<exists>r. lock_of m = Some r \<and> v_round v \<le> r)) \<and>
    (\<forall>v. cm_confirmed_vote m = Some v \<longrightarrow> v_round v = Fast \<longrightarrow>
      (\<exists>pb out. v_value v = Block_new hs pb out \<and> executes pb out \<and> \<not> outcome_has_oracle_responses out))"

lemma remembersD:
  assumes "remembers hs executes V m"
  shows "votes_of hs m \<subseteq> V"
    "validated_vote h s \<in> V \<Longrightarrow> (\<exists>v. cm_validated_vote m = Some v \<and> s \<le> v_round v) \<or> (\<exists>r. lock_of m = Some r \<and> s \<le> r)"
    "confirmed_vote h r \<in> V \<Longrightarrow>
      \<exists>v. cm_confirmed_vote m = Some v \<and> r \<le> v_round v \<and> (r = v_round v \<longrightarrow> h = h_block hs (v_value v))"
    "cm_confirmed_vote m = Some v \<Longrightarrow> \<exists>r. lock_of m = Some r \<and> v_round v \<le> r"
    "cm_confirmed_vote m = Some v \<Longrightarrow> v_round v = Fast \<Longrightarrow>
      \<exists>pb out. v_value v = Block_new hs pb out \<and> executes pb out \<and> \<not> outcome_has_oracle_responses out"
  using assms unfolding remembers_def by blast+

lemma matches_Block_new: "matches_proposed_block (Block_new h pb out) pb' \<longleftrightarrow> pb' = pb"
  by (cases pb; cases pb') (auto simp: matches_proposed_block_def Block_new_def)

lemma rules_mono:
  assumes "voting_rules c F L k" "\<And>j. L j \<subseteq> L' j" "L' k = L k"
  shows "voting_rules c F L' k"
  using assms(1) backed_mono [where L = L and L' = L', OF _ assms(2)] unfolding voting_rules_def assms(3) by meson

lemma rules_validated:
  assumes rules: "voting_rules c F L k" and "s \<noteq> Fast" and new: "\<And>h' s'. validated_vote h' s' \<in> L k \<Longrightarrow> s' < s"
    and conf: "\<And>h1 r1. confirmed_vote h1 r1 \<in> L k \<Longrightarrow> r1 < s \<Longrightarrow>
      (\<exists>q. r1 \<le> q \<and> q < s \<and> backed c F L (validated_vote h q)) \<or> r1 = Fast \<and> h = h1"
  shows "voting_rules c F (L(k := insert (validated_vote h s) (L k))) k"
proof -
  let ?L = "L(k := insert (validated_vote h s) (L k))"
  have up: "backed c F L vv \<Longrightarrow> backed c F ?L vv" for vv by (erule backed_mono) auto
  note old = voting_rulesD [OF rules]
  show ?thesis
    unfolding voting_rules_def
  proof (intro conjI allI impI)
    show "h1 = h2" if "validated_vote h1 r \<in> ?L k" "validated_vote h2 r \<in> ?L k" for h1 h2 r
      using that new old(1) by auto
    show "h1 = h2" if "confirmed_vote h1 r \<in> ?L k" "confirmed_vote h2 r \<in> ?L k" for h1 h2 r
      using that old(2) by auto
    show "r \<noteq> Fast" if "validated_vote h1 r \<in> ?L k" for h1 r using that old(3) assms(2) by auto
    show "backed c F ?L (validated_vote h1 r)" if "confirmed_vote h1 r \<in> ?L k" "r \<noteq> Fast" for h1 r
      using that old(4) up by auto
    show "(\<exists>q. r1 \<le> q \<and> q < s' \<and> backed c F ?L (validated_vote h' q)) \<or> r1 = Fast \<and> h' = h1"
      if "confirmed_vote h1 r1 \<in> ?L k" "validated_vote h' s' \<in> ?L k" "r1 < s'" for h1 r1 h' s'
      using that old(5) [of h1 r1 h' s'] conf [of h1 r1] up by auto
  qed
qed

lemma rules_confirmed:
  assumes rules: "voting_rules c F L k" and new: "\<And>h' r'. confirmed_vote h' r' \<in> L k \<Longrightarrow> r' < r"
    and val: "\<And>h' s. validated_vote h' s \<in> L k \<Longrightarrow> s \<le> r" and due: "r \<noteq> Fast \<Longrightarrow> backed c F L (validated_vote h r)"
  shows "voting_rules c F (L(k := insert (confirmed_vote h r) (L k))) k"
proof -
  let ?L = "L(k := insert (confirmed_vote h r) (L k))"
  have up: "backed c F L vv \<Longrightarrow> backed c F ?L vv" for vv by (erule backed_mono) auto
  note old = voting_rulesD [OF rules]
  show ?thesis
    unfolding voting_rules_def
  proof (intro conjI allI impI)
    show "h1 = h2" if "validated_vote h1 r \<in> ?L k" "validated_vote h2 r \<in> ?L k" for h1 h2 r
      using that old(1) by auto
    show "h1 = h2" if "confirmed_vote h1 r \<in> ?L k" "confirmed_vote h2 r \<in> ?L k" for h1 h2 r
      using that new old(2) by auto
    show "r \<noteq> Fast" if "validated_vote h1 r \<in> ?L k" for h1 r using that old(3) by auto
    show "backed c F ?L (validated_vote h1 q)" if "confirmed_vote h1 q \<in> ?L k" "q \<noteq> Fast" for h1 q
      using that old(4) due up by auto
    show "(\<exists>q. r1 \<le> q \<and> q < s' \<and> backed c F ?L (validated_vote h' q)) \<or> r1 = Fast \<and> h' = h1"
      if "confirmed_vote h1 r1 \<in> ?L k" "validated_vote h' s' \<in> ?L k" "r1 < s'" for h1 r1 h' s'
      using that old(5) [of h1 r1 h' s'] val [of h' s'] up by auto
  qed
qed

lemma fast_step_kept:
  assumes inv: "voting_rules c F L k" "remembers hs executes (L k) m"
    and check: "check_invariants hs p = Ok ()" "check_proposed_block cr m0 p = Ok OutcomeAccept" "proposal_round p = Fast" "same_votes m0 m"
    and out: "executes (pc_block (bp_content p)) out" "\<not> outcome_has_oracle_responses out"
    and vote: "create_vote hs m p (Block_new hs (pc_block (bp_content p)) out) (Some key) t bs = (m', vote)"
  shows "voting_rules c F (L(k := L k \<union> votes_of hs m')) k \<and> remembers hs executes (L k \<union> votes_of hs m') m'"
proof -
  let ?b = "Block_new hs (pc_block (bp_content p)) out"
  from accepted_fast [OF check(1-3)] have fast: "bp_original_proposal p = None" "cm_validated_vote m = None" "cm_confirmed_vote m = None"
      "cm_locking_block m = None"
    using check(4) by (simp_all add: same_votes_def)
  note old = remembersD [OF inv(2)]
  from create_vote_fast [OF check(3) fast(1,4) vote]
  have m': "cm_confirmed_vote m' = Some (Vote_new (confirmed_value hs) ?b Fast key)" "cm_validated_vote m' = None" "lock_of m' = Some Fast"
    by (simp_all add: lock_of_def locking_round_def)
  then have V: "votes_of hs m' = {confirmed_vote (h_block hs ?b) Fast}" by (simp add: votes_of_def)
  have none: "validated_vote h s \<notin> L k" "confirmed_vote h s \<notin> L k" for h s
    using old(2) [of h s] old(3) [of h s] fast(2-4) by (auto simp: lock_of_def)
  have "voting_rules c F (L(k := L k \<union> votes_of hs m')) k"
    unfolding V using rules_confirmed [OF inv(1), of Fast "h_block hs ?b"] none by simp
  moreover have "remembers hs executes (L k \<union> votes_of hs m') m'"
    using none out m' unfolding remembers_def V by auto
  ultimately show ?thesis ..
qed

lemma regular_step_kept:
  assumes exec: "block_execution executes" and inv: "voting_rules c F L k" "remembers hs executes (L k) m"
    and check: "check_invariants hs p = Ok ()" "check_proposed_block cr m0 p = Ok OutcomeAccept" "proposal_round p \<noteq> Fast" "same_votes m0 m"
    and evidence: "\<And>cert. bp_original_proposal p = Some (OriginalRegular cert) \<Longrightarrow>
      backed c F L (VoteValue (lv_value_hash (lc_value cert)) (lc_round cert) (lv_kind (lc_value cert)))"
    and out: "case pc_outcome (bp_content p) of Some out' \<Rightarrow> out = out' | None \<Rightarrow> executes (pc_block (bp_content p)) out"
    and vote: "create_vote hs m p (Block_new hs (pc_block (bp_content p)) out) (Some key) t bs = (m', vote)"
  shows "voting_rules c F (L(k := L k \<union> votes_of hs m')) k \<and> remembers hs executes (L k \<union> votes_of hs m') m'"
proof -
  let ?b = "Block_new hs (pc_block (bp_content p)) out" and ?s = "proposal_round p"
  note old = remembersD [OF inv(2)]
  have same: "lock_of m = lock_of m0" "cm_validated_vote m = cm_validated_vote m0" "cm_confirmed_vote m = cm_confirmed_vote m0"
    using check(4) same_votes_lock by (auto simp: same_votes_def)
  note acc = check(2) [unfolded check_proposed_block_Accept, folded same]
  from create_vote_regular [OF check(3) vote]
  have m': "cm_validated_vote m' = Some (Vote_new (validated_value hs) ?b ?s key)" "cm_confirmed_vote m' = cm_confirmed_vote m"
    and lock: "\<And>r. lock_of m = Some r \<Longrightarrow> \<exists>r'. lock_of m' = Some r' \<and> r \<le> r'"
    by auto
  have V: "L k \<union> votes_of hs m' = insert (validated_vote (h_block hs ?b) ?s) (L k)"
    using old(1) m' by (auto simp: votes_of_def split: option.splits)
  have new: "s' < ?s" if "validated_vote h' s' \<in> L k" for h' s'
    using old(2) [OF that] acc by (auto intro: le_less_trans)
  have conf: "(\<exists>q. r1 \<le> q \<and> q < ?s \<and> backed c F L (validated_vote (h_block hs ?b) q)) \<or> r1 = Fast \<and> h_block hs ?b = h1"
    if c1: "confirmed_vote h1 r1 \<in> L k" for h1 r1
  proof -
    from old(3) [OF c1] obtain v where v: "cm_confirmed_vote m = Some v" "r1 \<le> v_round v"
      "r1 = v_round v \<longrightarrow> h1 = h_block hs (v_value v)" by blast
    with acc obtain orig where o: "bp_original_proposal p = Some orig" by (auto split: option.splits)
    show ?thesis
    proof (cases orig)
      case (OriginalRegular cert)
      with check_invariants_original [OF check(1)] o out have "lc_round cert < ?s" "check_value (validated_value hs) cert ?b" by auto
      with evidence [of cert] o OriginalRegular acc v show ?thesis
        by (intro disjI1 exI [of _ "lc_round cert"]) (auto simp: check_value_def validated_value_def intro: order_trans)
    next
      case (OriginalFast sig)
      with acc v(1) o have f: "v_round v = Fast" "matches_proposed_block (v_value v) (pc_block (bp_content p))" by auto
      from old(5) [OF v(1) f(1)] obtain pb out1 where
        1: "v_value v = Block_new hs pb out1" "executes pb out1" "\<not> outcome_has_oracle_responses out1" by blast
      from f(2) 1(1) have "pb = pc_block (bp_content p)" by (simp add: matches_Block_new)
      moreover from check_invariants_original [OF check(1)] o OriginalFast out have "executes (pc_block (bp_content p)) out" by auto
      ultimately have "out = out1" using block_execution.determined [OF exec 1(2,3)] by blast
      moreover have "r1 = Fast" using v(2) f(1) order.antisym [OF _ Fast_least] by simp
      ultimately show ?thesis using \<open>pb = _\<close> 1(1) v(3) f(1) by simp
    qed
  qed
  have "voting_rules c F (L(k := L k \<union> votes_of hs m')) k"
    unfolding V using rules_validated [OF inv(1) check(3), where h = "h_block hs ?b"] new conf by blast
  moreover have "remembers hs executes (L k \<union> votes_of hs m') m'"
  proof -
    have "votes_of hs m' \<subseteq> insert (validated_vote (h_block hs ?b) ?s) (L k)" using V by blast
    moreover have "\<exists>r. lock_of m' = Some r \<and> v_round v \<le> r" if "cm_confirmed_vote m = Some v" for v
      using old(4) [OF that] lock order_trans by blast
    ultimately show ?thesis
      unfolding remembers_def V using old(3,5) m' new by (auto intro: less_imp_le)
  qed
  ultimately show ?thesis ..
qed

lemma final_step_kept:
  assumes inv: "voting_rules c F L k" "remembers hs executes (L k) m"
    and check: "check_validated_block m cert = Ok OutcomeAccept"
    and evidence: "backed c F L (validated_vote (h_block hs (c_value cert)) (c_round cert))"
    and "c_round cert \<noteq> Fast" and m': "m' = create_final_vote hs m cert (Some key) t bs"
  shows "voting_rules c F (L(k := L k \<union> votes_of hs m')) k \<and> remembers hs executes (L k \<union> votes_of hs m') m'"
proof -
  let ?r = "c_round cert" and ?h = "h_block hs (c_value cert)"
  note old = remembersD [OF inv(2)] and acc = check [unfolded check_validated_block_Accept]
  have val: "s \<le> ?r" if "validated_vote h s \<in> L k" for h s
    using old(2) [OF that] acc by (auto intro: order_trans less_imp_le)
  have conf: "r < ?r" if "confirmed_vote h r \<in> L k" for h r
    using old(3) [OF that] old(4) acc by (meson le_less_trans)
  from create_final_vote_cases [OF check m'] have lock: "lock_of m' = Some ?r" by simp
  from create_final_vote_cases [OF check m'] consider
      (kept) "cm_confirmed_vote m' = cm_confirmed_vote m" "cm_validated_vote m' = cm_validated_vote m"
    | (cast) "cm_confirmed_vote m' = Some (Vote_new (confirmed_value hs) (c_value cert) ?r key)" "cm_validated_vote m' = None"
    by auto
  then show ?thesis
  proof cases
    case kept
    then have V: "L k \<union> votes_of hs m' = L k" using old(1) by (auto simp: votes_of_def)
    have "v_round v \<le> ?r" if "cm_confirmed_vote m = Some v" for v
      using old(4) [OF that] acc by (auto intro: less_imp_le le_less_trans)
    then show ?thesis
      unfolding V remembers_def using inv(1) old val conf lock kept by (auto simp: votes_of_def)
  next
    case cast
    then have V: "L k \<union> votes_of hs m' = insert (confirmed_vote ?h ?r) (L k)" by (auto simp: votes_of_def)
    show ?thesis
      unfolding V using rules_confirmed [OF inv(1), of ?r ?h] val conf evidence assms(5) cast lock
      by (auto simp: remembers_def votes_of_def intro: less_imp_le)
  qed
qed

lemma remembers_same: "same_votes m m' \<Longrightarrow> remembers hs executes V m' = remembers hs executes V m"
  using same_votes_lock [of m m'] by (simp add: remembers_def same_votes_def votes_of_def)

lemma kept_step_kept:
  assumes "voting_rules c F L k" "remembers hs executes (L k) m" "same_votes m m'"
  shows "voting_rules c F (L(k := L k \<union> votes_of hs m')) k \<and> remembers hs executes (L k \<union> votes_of hs m') m'"
proof -
  have "remembers hs executes (L k) m'" using assms(2,3) by (simp add: remembers_same)
  moreover from this have "L k \<union> votes_of hs m' = L k" using remembersD(1) by blast
  ultimately show ?thesis using assms(1) by simp
qed

text \<open>The fast round has no validated blocks, so evidence is never for it.\<close>

lemma backed_not_fast:
  assumes "committee_ok c" "committee_quorums.tolerates c F" "\<And>k. k \<notin> F \<Longrightarrow> voting_rules c F L k"
    and "backed c F L (validated_vote h r)"
  shows "r \<noteq> Fast"
  using backed_share [OF assms(1,2,4,4)] voting_rulesD(3) [OF assms(3)] by blast

definition consensus_inv ::
  "hashes \<Rightarrow> (proposed_block \<Rightarrow> block_execution_outcome \<Rightarrow> bool) \<Rightarrow> committee \<Rightarrow> validator_public_key set \<Rightarrow> 'd consensus_state \<Rightarrow> bool" where
  "consensus_inv hs executes c F = (\<lambda>(S, L). \<forall>k. k \<notin> F \<longrightarrow>
    voting_rules c F L k \<and> (\<forall>m. S k = Some m \<longrightarrow> remembers hs executes (L k) m))"

lemma validator_step_kept:
  assumes "block_execution executes" "committee_ok c" "committee_quorums.tolerates c F"
    and rules: "\<And>k. k \<notin> F \<Longrightarrow> voting_rules c F L k" and "k \<notin> F" "remembers hs executes (L k) m"
    and "validator_step hs cr executes (backed c F L) m m'"
  shows "voting_rules c F (L(k := L k \<union> votes_of hs m')) k \<and> remembers hs executes (L k \<union> votes_of hs m') m'"
  using assms(7)
proof cases
  case (proposed p m1 out key t bs vote)
  have m1: "remembers hs executes (L k) m1" using assms(6) proposed(3) by (simp add: remembers_same)
  show ?thesis
  proof (cases "proposal_round p = Fast")
    case True
    with proposed accepted_fast(2) [OF proposed(1,2)] have "executes (pc_block (bp_content p)) out" by simp
    with fast_step_kept [OF rules [OF assms(5)] m1 proposed(1,2) True proposed(3)] proposed(6,7) True show ?thesis by blast
  next
    case False
    with regular_step_kept [OF assms(1) rules [OF assms(5)] m1 proposed(1,2) _ proposed(3)] proposed(4,5,7) show ?thesis by blast
  qed
next
  case (validated cert key t bs)
  then show ?thesis
    using final_step_kept [OF rules [OF assms(5)] assms(6)] backed_not_fast [OF assms(2,3) rules] by blast
next
  case kept
  then show ?thesis using kept_step_kept [OF rules [OF assms(5)] assms(6)] by blast
qed

lemma consensus_step_inv:
  assumes "block_execution executes" "committee_ok c" "committee_quorums.tolerates c F"
    and "consensus_step hs cr executes c F st st'" "consensus_inv hs executes c F st"
  shows "consensus_inv hs executes c F st'"
  using assms(4,5)
proof cases
  case (voted k S m L m')
  let ?L = "L(k := L k \<union> votes_of hs m')"
  from assms(5) voted(1) have rules: "\<And>j. j \<notin> F \<Longrightarrow> voting_rules c F L j" and old: "\<And>j m. j \<notin> F \<Longrightarrow> S j = Some m \<Longrightarrow> remembers hs executes (L j) m"
    by (auto simp: consensus_inv_def)
  have "voting_rules c F ?L j" if "j \<notin> F" "j \<noteq> k" for j
    by (rule rules_mono [OF rules [OF that(1)]]) (use that(2) in auto)
  moreover have "voting_rules c F ?L k \<and> remembers hs executes (L k \<union> votes_of hs m') m'"
    using validator_step_kept [OF assms(1-3) rules voted(3) old [OF voted(3,4)] voted(5)] .
  ultimately show ?thesis
    unfolding consensus_inv_def voted(2) using old by auto
qed (auto simp: consensus_inv_def split: if_splits)

lemma consensus_run_inv:
  assumes "block_execution executes" "committee_ok c" "committee_quorums.tolerates c F"
    and "(consensus_step hs cr executes c F)\<^sup>*\<^sup>* st st'" "consensus_inv hs executes c F st"
  shows "consensus_inv hs executes c F st'"
  using assms(4) by (induction rule: rtranclp_induct) (use assms(5) consensus_step_inv [OF assms(1-3)] in blast)+

end
