(* ===== verification/Determinism.thy ===== *)
theory Determinism
  imports Chain Consensus
begin

text \<open>
  The execution of a block depends on the validator only through its oracles. When an execution asks no
  oracle, as the code demands of a block in the fast round, every other validator that executes the block on the
  same state gets the same state and the same outcome. This is what the voting rules of the
  chain manager need of the execution.
\<close>

section \<open>Executions that ask no oracle\<close>

lemma recording_run:
  assumes "replay_env en en' lt r" "execute_transaction en bz round (b, st) tx = Ok (b', st')" "bt_replaying b = None"
  obtains ac out s where
    "\<And>rest. run_transaction en' bz r (replay_block lt [] b) st (replay_with lt (TransactionTracker_new lt (bt_transaction_index b)
      (bt_next_application_index b) (bt_next_chain_index b) None (bt_blobs b)) (to_oracle_responses out @ rest)) tx = Ok (replay_actor lt rest ac)"
    "into_outcome (replay_with lt (ac_tracker ac) []) = Ok out"
    "process_txn_outcome bz (b\<lparr> bt_controller := ac_controller ac \<rparr>) out (ex_system (ac_state ac)) (bt_execution_context b tx) = Ok (b', s)"
    "st' = (ac_state ac)\<lparr> ex_system := s \<rparr>"
proof -
  let ?t = "TransactionTracker_new (bt_local_time b) (bt_transaction_index b) (bt_next_application_index b) (bt_next_chain_index b) None (bt_blobs b)"
  from assms(2,3) obtain ac out s where 1: "run_transaction en bz round b st ?t tx = Ok ac" and 2: "into_outcome (ac_tracker ac) = Ok out"
    and 3: "process_txn_outcome bz (b\<lparr> bt_controller := ac_controller ac \<rparr>) out (ex_system (ac_state ac)) (bt_execution_context b tx) = Ok (b', s)"
      "st' = (ac_state ac)\<lparr> ex_system := s \<rparr>"
    by (auto simp: execute_transaction_def Let_def and_then_Ok new_transaction_tracker_def bt_current_responses_def
        with_execution_context_def map_err_Ok)
  have t: "tt_replaying ?t = None" "tt_oracle_responses ?t = []"
    "replay_with lt ?t rs = replay_with lt (TransactionTracker_new lt (bt_transaction_index b)
      (bt_next_application_index b) (bt_next_chain_index b) None (bt_blobs b)) rs" for rs
    by (simp_all add: TransactionTracker_new_def)
  from run_transaction_replays [OF assms(1) 1 t(1), of "[]"] obtain rs where rs: "records ?t rs (ac_tracker ac)"
    "\<And>rest. run_transaction en' bz r (replay_block lt [] b) st (replay_with lt ?t (rs @ rest)) tx = Ok (replay_actor lt rest ac)"
    by blast
  from rs(1) 2 have "to_oracle_responses out = rs" "into_outcome (replay_with lt (ac_tracker ac) []) = Ok out"
    by (auto simp: records_def t into_outcome_def and_then_Ok ensure_Ok)
  with that [of out ac s] rs(2) 3 show thesis unfolding t(3) by blast
qed

lemma transaction_determined:
  assumes env: "replay_env en1 en' lt r" "replay_env en2 en' lt r"
    and run: "execute_transaction en1 bz round1 (b1, st) tx = Ok (c1, st1)" "execute_transaction en2 bz round2 (b2, st) tx = Ok (c2, st2)"
    and b: "bt_replaying b1 = None" "bt_replaying b2 = None" "replay_block lt [] b1 = replay_block lt [] b2"
    and quiet: "last (bt_oracle_responses c1) = []"
  shows "last (bt_oracle_responses c2) = [] \<and> st2 = st1 \<and> replay_block lt [] c1 = replay_block lt [] c2"
proof -
  let ?t = "\<lambda>b. TransactionTracker_new lt (bt_transaction_index b) (bt_next_application_index b) (bt_next_chain_index b) None (bt_blobs b)"
  from recording_run [OF env(1) run(1) b(1)] obtain ac1 out1 s1 where
    1: "\<And>rest. run_transaction en' bz r (replay_block lt [] b1) st (replay_with lt (?t b1) (to_oracle_responses out1 @ rest)) tx = Ok (replay_actor lt rest ac1)"
    "into_outcome (replay_with lt (ac_tracker ac1) []) = Ok out1"
    "process_txn_outcome bz (b1\<lparr> bt_controller := ac_controller ac1 \<rparr>) out1 (ex_system (ac_state ac1)) (bt_execution_context b1 tx) = Ok (c1, s1)"
    "st1 = (ac_state ac1)\<lparr> ex_system := s1 \<rparr>" by metis
  from recording_run [OF env(2) run(2) b(2)] obtain ac2 out2 s2 where
    2: "\<And>rest. run_transaction en' bz r (replay_block lt [] b2) st (replay_with lt (?t b2) (to_oracle_responses out2 @ rest)) tx = Ok (replay_actor lt rest ac2)"
    "into_outcome (replay_with lt (ac_tracker ac2) []) = Ok out2"
    "process_txn_outcome bz (b2\<lparr> bt_controller := ac_controller ac2 \<rparr>) out2 (ex_system (ac_state ac2)) (bt_execution_context b2 tx) = Ok (c2, s2)"
    "st2 = (ac_state ac2)\<lparr> ex_system := s2 \<rparr>" by metis
  have none: "to_oracle_responses out1 = []" using quiet process_txn_outcome_responses(1) [OF 1(3)] by simp
  have same: "bt_transaction_index b1 = bt_transaction_index b2" "bt_next_application_index b1 = bt_next_application_index b2"
    "bt_next_chain_index b1 = bt_next_chain_index b2" "bt_blobs b1 = bt_blobs b2"
    using b(3) by (cases b1; cases b2; simp add: replay_block_def)+
  from 1(1) [of "to_oracle_responses out2"] 2(1) [of "[]"] none b(3)
  have ac: "replay_actor lt (to_oracle_responses out2) ac1 = replay_actor lt [] ac2" by (simp add: same)
  from arg_cong [OF ac, of "\<lambda>a. tt_replaying (ac_tracker a)"] have none2: "to_oracle_responses out2 = []" by simp
  from arg_cong [OF ac, of ac_state] arg_cong [OF ac, of ac_controller] have st: "ac_state ac1 = ac_state ac2" "ac_controller ac1 = ac_controller ac2"
    by simp_all
  from arg_cong [OF ac, of ac_tracker] none2 1(2) 2(2) have out: "out1 = out2" by simp
  have "replay_block lt [] (b1\<lparr> bt_controller := rc \<rparr>) = replay_block lt [] (b2\<lparr> bt_controller := rc \<rparr>)" for rc
    using b(3) by (cases b1; cases b2; simp add: replay_block_def)
  moreover have "bt_execution_context b1 tx = bt_execution_context b2 tx"
    using arg_cong [OF b(3), of "\<lambda>b. bt_execution_context b tx"] by simp
  ultimately have "process_txn_outcome bz (replay_block lt [] (b1\<lparr> bt_controller := ac_controller ac1 \<rparr>)) out1 (ex_system (ac_state ac1)) (bt_execution_context b1 tx) =
      process_txn_outcome bz (replay_block lt [] (b2\<lparr> bt_controller := ac_controller ac2 \<rparr>)) out2 (ex_system (ac_state ac2)) (bt_execution_context b2 tx)"
    by (simp only: st out)
  then have "replay_block lt [] c1 = replay_block lt [] c2 \<and> s1 = s2"
    unfolding process_txn_outcome_replay 1(3) 2(3) by simp
  then show ?thesis using process_txn_outcome_responses(1) [OF 2(3)] none2 1(4) 2(4) st by simp
qed

lemma recorded_grow:
  assumes "replay_env en en' lt r" "try_fold (execute_transaction en bz round) (b, st) txs = Ok (b', st')" "bt_replaying b = None"
  shows "set (bt_oracle_responses b) \<subseteq> set (bt_oracle_responses b')"
  using assms(2,3)
proof (induction txs arbitrary: b st)
  case (Cons tx txs)
  then obtain d s where 1: "execute_transaction en bz round (b, st) tx = Ok (d, s)" "try_fold (execute_transaction en bz round) (d, s) txs = Ok (b', st')"
    by (auto simp: and_then_Ok)
  from execute_transaction_replays [OF assms(1) 1(1) Cons.prems(2)] Cons.IH [OF 1(2)] show ?case by auto
qed simp

lemma transactions_determined:
  assumes env: "replay_env en1 en' lt r" "replay_env en2 en' lt r"
    and run: "try_fold (execute_transaction en1 bz round1) (b1, st) txs = Ok (c1, st1)" "try_fold (execute_transaction en2 bz round2) (b2, st) txs = Ok (c2, st2)"
    and b: "bt_replaying b1 = None" "bt_replaying b2 = None" "replay_block lt [] b1 = replay_block lt [] b2"
    and quiet: "\<forall>rs \<in> set (bt_oracle_responses c1). rs = []"
  shows "bt_oracle_responses c2 = bt_oracle_responses c1"
  using run b
proof (induction txs arbitrary: b1 b2 st)
  case Nil
  from arg_cong [of _ _ bt_oracle_responses, OF Nil(5)] have "bt_oracle_responses b1 = bt_oracle_responses b2"
    by (simp add: replay_block_def)
  with Nil show ?case by simp
next
  case (Cons tx txs)
  then obtain d1 s1 d2 s2 where
    1: "execute_transaction en1 bz round1 (b1, st) tx = Ok (d1, s1)" "try_fold (execute_transaction en1 bz round1) (d1, s1) txs = Ok (c1, st1)"
    and 2: "execute_transaction en2 bz round2 (b2, st) tx = Ok (d2, s2)" "try_fold (execute_transaction en2 bz round2) (d2, s2) txs = Ok (c2, st2)"
    by (auto simp: and_then_Ok)
  from execute_transaction_replays [OF env(1) 1(1) Cons.prems(3)] execute_transaction_replays [OF env(2) 2(1) Cons.prems(4)]
  obtain rs where d: "bt_oracle_responses d1 = bt_oracle_responses b1 @ [rs]" "bt_replaying d1 = None" "bt_replaying d2 = None" by blast
  from recorded_grow [OF env(1) 1(2) d(2)] quiet d(1) have "last (bt_oracle_responses d1) = []" by auto
  from transaction_determined [OF env 1(1) 2(1) Cons.prems(3-5) this] Cons.IH [of d1 s1 d2] 1(2) 2(2) d(2,3) show ?case by auto
qed

lemma execute_block_inner_run:
  assumes "execute_block_inner ce st log mbs ebs pb lt round published None = Ok (st1, out)"
  obtains ep c s b b1 where "current_committee ((ex_system st)\<lparr> sy_timestamp := pb_timestamp pb \<rparr>) = Some (ep, c)"
    "try_fold (publish_blob (ce_sizes ce) (committee_policy c)) ((ex_system st)\<lparr> sy_timestamp := pb_timestamp pb \<rparr>) published = Ok s"
    "BlockExecutionTracker_new \<lparr> rc_policy = committee_policy c, rc_tracker = tracker_default, rc_account = pb_authenticated_signer pb \<rparr>
      (btm_of_list (map (\<lambda>b. (blob_id_of b, b)) published)) lt None pb = Ok b"
    "try_fold (execute_transaction (ce_executor ce) (ce_sizes ce) round) (b, st\<lparr> ex_system := s \<rparr>) (pb_transactions pb) = Ok (b1, st1)"
    "beo_oracle_responses out = bt_oracle_responses b1"
  using assms by (auto simp: execute_block_inner_def Let_def and_then_Ok ok_or_Ok finalize_def)

lemma inner_determined:
  fixes ce1 ce2 ce' :: "'d chain_env"
  assumes env: "replay_env (ce_executor ce1) (ce_executor ce') lt r" "ce_sizes ce' = ce_sizes ce1" "ce_state_hash ce' = ce_state_hash ce1"
    "replay_env (ce_executor ce2) (ce_executor ce') lt r" "ce_sizes ce' = ce_sizes ce2" "ce_state_hash ce' = ce_state_hash ce2"
    and run: "execute_block_inner ce1 st log mbs ebs pb lt1 round1 published None = Ok (st1, out1)"
      "execute_block_inner ce2 st log mbs ebs pb lt2 round2 published None = Ok (st2, out2)"
    and len: "length (pb_transactions pb) < 2 ^ 32" and quiet: "\<not> outcome_has_oracle_responses out1"
  shows "st2 = st1 \<and> out2 = out1"
proof -
  let ?new = "\<lambda>c. BlockExecutionTracker_new \<lparr> rc_policy = committee_policy c, rc_tracker = tracker_default,
    rc_account = pb_authenticated_signer pb \<rparr> (btm_of_list (map (\<lambda>b. (blob_id_of b, b)) published))"
  obtain ep c s b1 c1 where
    c: "current_committee ((ex_system st)\<lparr> sy_timestamp := pb_timestamp pb \<rparr>) = Some (ep, c)"
    and s: "try_fold (publish_blob (ce_sizes ce1) (committee_policy c)) ((ex_system st)\<lparr> sy_timestamp := pb_timestamp pb \<rparr>) published = Ok s"
    and 1: "?new c lt1 None pb = Ok b1"
      "try_fold (execute_transaction (ce_executor ce1) (ce_sizes ce1) round1) (b1, st\<lparr> ex_system := s \<rparr>) (pb_transactions pb) = Ok (c1, st1)"
      "beo_oracle_responses out1 = bt_oracle_responses c1"
    by (rule execute_block_inner_run [OF run(1)])
  have sizes: "ce_sizes ce2 = ce_sizes ce1" using env(2,5) by simp
  obtain ep' c' s' b2 c2 where
    c': "current_committee ((ex_system st)\<lparr> sy_timestamp := pb_timestamp pb \<rparr>) = Some (ep', c')"
    and s': "try_fold (publish_blob (ce_sizes ce2) (committee_policy c')) ((ex_system st)\<lparr> sy_timestamp := pb_timestamp pb \<rparr>) published = Ok s'"
    and 2: "?new c' lt2 None pb = Ok b2"
      "try_fold (execute_transaction (ce_executor ce2) (ce_sizes ce2) round2) (b2, st\<lparr> ex_system := s' \<rparr>) (pb_transactions pb) = Ok (c2, st2)"
      "beo_oracle_responses out2 = bt_oracle_responses c2"
    by (rule execute_block_inner_run [OF run(2)])
  from c c' have "c' = c" by simp
  with s s' sizes have "s' = s" by simp
  have "?new c lt (Some []) pb = Ok (replay_block lt [] b1)"
    unfolding tracker_new_replay(1) [where lt = lt1] 1(1) by simp
  moreover have "?new c lt (Some []) pb = Ok (replay_block lt [] b2)"
    unfolding tracker_new_replay(1) [where lt = lt2] using 2(1) \<open>c' = c\<close> by simp
  ultimately have "replay_block lt [] b1 = replay_block lt [] b2" by simp
  then have "bt_oracle_responses c2 = bt_oracle_responses c1"
    using transactions_determined [OF env(1,4) 1(2) 2(2) [unfolded sizes \<open>s' = s\<close>]] tracker_new_replay(2) [OF 1(1)] tracker_new_replay(2) [OF 2(1)] quiet
    by (auto simp: outcome_has_oracle_responses_def list_ex_iff 1(3))
  with execute_block_inner_replays [OF env(1-3) run(1) len] execute_block_inner_replays [OF env(4-6) run(2) len]
  show ?thesis by (simp add: 1(3) 2(3))
qed

text \<open>
  The environment of a validator at some moment: its oracles may differ from the others, while what it replays
  does not.
\<close>

definition sound_env :: "'d chain_env \<Rightarrow> 'd chain_env \<Rightarrow> bool" where
  "sound_env base ce \<longleftrightarrow> replay_env (ce_executor ce) (ce_executor base) 0 None \<and> ce_sizes ce = ce_sizes base \<and>
    ce_state_hash ce = ce_state_hash base \<and> ce_crypto ce = ce_crypto base \<and> ce_sampler ce = ce_sampler base"

text \<open>The outcomes of a block on a chain, in all environments, at all times and in all rounds. A blob is what its hash says.\<close>

definition executes_block ::
  "'d chain_env \<Rightarrow> 'd chain_state \<Rightarrow> (blob_id \<Rightarrow> blob) \<Rightarrow> proposed_block \<Rightarrow> block_execution_outcome \<Rightarrow> bool" where
  "executes_block base ch content pb out \<longleftrightarrow> length (pb_transactions pb) < 2 ^ 32 \<and>
    (\<exists>ce lt round st. sound_env base ce \<and>
      execute_block_inner ce (ch_execution_state ch) (ch_confirmed_log ch) (ch_previous_message_blocks ch)
        (ch_previous_event_blocks ch) pb lt round (map content (pb_published_blob_ids pb)) None = Ok (st, out))"

interpretation chain_execution: block_execution "executes_block base ch content"
proof
  fix pb out out'
  assume "executes_block base ch content pb out" "\<not> outcome_has_oracle_responses out" "executes_block base ch content pb out'"
  then show "out' = out"
    unfolding executes_block_def sound_env_def by (metis inner_determined)
qed

end
