(* ===== verification/Agreement.thy ===== *)
theory Agreement
  imports Worker Determinism
begin

text \<open>
  The validators of a committee that run the chain worker agree on the block at every height: the handlers
  of the worker are the steps of the voting protocol, and the voting protocol confirms one block.
\<close>

section \<open>What the handlers keep\<close>

text \<open>The part of a chain that only a confirmed block changes.\<close>

definition same_state :: "'d chain_state \<Rightarrow> 'd chain_state \<Rightarrow> bool" where
  "same_state ch ch' \<longleftrightarrow> ch_tip_state ch' = ch_tip_state ch \<and> ch_execution_state ch' = ch_execution_state ch \<and>
    ch_confirmed_log ch' = ch_confirmed_log ch \<and> ch_previous_message_blocks ch' = ch_previous_message_blocks ch \<and>
    ch_previous_event_blocks ch' = ch_previous_event_blocks ch"

definition stays :: "'d worker \<Rightarrow> 'd worker \<Rightarrow> bool" where
  "stays w w' \<longleftrightarrow> wk_active w' = wk_active w \<and> wk_config w' = wk_config w \<and> same_state (wk_chain w) (wk_chain w') \<and>
    same_votes (ch_manager (wk_chain w)) (ch_manager (wk_chain w'))"

lemma same_state_refl [simp]: "same_state ch ch" and same_votes_refl [simp]: "same_votes m m" and stays_refl [simp]: "stays w w"
  by (simp_all add: same_state_def same_votes_def stays_def)

lemma same_state_trans: "same_state ch ch' \<Longrightarrow> same_state ch' ch'' \<Longrightarrow> same_state ch ch''"
  by (simp add: same_state_def)

lemma stays_trans: "stays w w' \<Longrightarrow> stays w' w'' \<Longrightarrow> stays w w''"
  by (simp add: stays_def same_state_def same_votes_def)

lemma stays_save [simp]:
  "stays w (save w ch) \<longleftrightarrow> same_state (wk_chain w) ch \<and> same_votes (ch_manager (wk_chain w)) (ch_manager ch)"
  by (simp add: stays_def save_def)

lemma stays_upd [simp]:
  "stays w (w'\<lparr> wk_state_cache := x \<rparr>) = stays w w'" "stays w (w'\<lparr> wk_tracked_chains := y \<rparr>) = stays w w'"
  "stays w (w'\<lparr> wk_notifier := z \<rparr>) = stays w w'"
  by (simp_all add: stays_def)

lemma same_state_upd [simp]:
  "same_state ch (ch'\<lparr> ch_manager := a \<rparr>) = same_state ch ch'" "same_state ch (ch'\<lparr> ch_pending_validated_blobs := b \<rparr>) = same_state ch ch'"
  "same_state ch (ch'\<lparr> ch_pending_proposed_blobs := c \<rparr>) = same_state ch ch'" "same_state ch (ch'\<lparr> ch_inboxes := d \<rparr>) = same_state ch ch'"
  "same_state ch (ch'\<lparr> ch_unskippable_bundles := e \<rparr>) = same_state ch ch'" "same_state ch (ch'\<lparr> ch_received_log := f \<rparr>) = same_state ch ch'"
  "same_state ch (ch'\<lparr> ch_outboxes := g \<rparr>) = same_state ch ch'" "same_state ch (ch'\<lparr> ch_outbox_counters := h \<rparr>) = same_state ch ch'"
  "same_state ch (ch'\<lparr> ch_nonempty_outboxes := i \<rparr>) = same_state ch ch'" "same_state ch (ch'\<lparr> ch_preprocessed_blocks := j \<rparr>) = same_state ch ch'"
  "same_state ch (ch'\<lparr> ch_received_certificate_trackers := k \<rparr>) = same_state ch ch'"
  "same_state ch (ch'\<lparr> ch_removed_unskippable_bundles := l \<rparr>) = same_state ch ch'"
  by (simp_all add: same_state_def)

lemma attempt_fst: "(\<And>x. r = Ok x \<Longrightarrow> Q (fst (f x))) \<Longrightarrow> Q w \<Longrightarrow> Q (fst (attempt w r f))"
  by (simp add: attempt_def split: result.split)

lemma continue_fst:
  "(\<And>w x. h = (w, Ok x) \<Longrightarrow> Q (fst (f w x))) \<Longrightarrow> (\<And>w e. h = (w, Err e) \<Longrightarrow> Q w) \<Longrightarrow> Q (fst (continue h f))"
  by (simp add: continue_def split: result.split prod.split)

lemma initialize_active [simp]: "wk_active w \<Longrightarrow> initialize_and_save_if_needed ce w now = (w, Ok ())"
  by (simp add: initialize_and_save_if_needed_def)

lemma continue_Ok [simp]: "continue (w, Ok x) f = f w x"
  by (simp add: continue_def)

lemma same_votes_updates [simp]:
  "same_votes m (handle_timeout_certificate m cert t)" "same_votes m (fst (update_signed_proposal m p t))"
  by (simp_all add: same_votes_def)

lemma process_timeout_stays: "wk_active w \<Longrightarrow> stays w (fst (process_timeout ce sto w cert now))"
  unfolding process_timeout_def
  by (auto simp: Let_def intro!: attempt_fst [where Q = "stays w"])

lemma vote_for_leader_timeout_stays: "stays w (fst (vote_for_leader_timeout ce w height r now))"
  unfolding vote_for_leader_timeout_def
  by (auto simp: Let_def chain_try_def map_err_Ok same_votes_def dest!: timeout_vote_cases intro!: attempt_fst [where Q = "stays w"])

lemma vote_for_fallback_stays: "stays w (vote_for_fallback ce w now)"
proof -
  have "same_votes m (fst (vote_fallback hs m ch ht ep kp))" for hs and m :: "'d chain_manager" and ch ht ep kp
    using fallback_vote_cases [of hs m ch ht ep kp] by (auto simp: same_votes_def)
  then show ?thesis
    unfolding vote_for_fallback_def by (auto simp: Let_def case_prod_beta split: option.split)
qed

lemma handle_pending_blob_stays: "stays w (fst (handle_pending_blob ce w b))"
  unfolding handle_pending_blob_def
  by (auto simp: Let_def split: prod.split intro!: attempt_fst [where Q = "stays w"])

lemma prepare_chain_info_stays: "wk_active w \<Longrightarrow> stays w (fst (prepare_chain_info_response ce w q now))"
  unfolding prepare_chain_info_response_def
  by (auto simp: Let_def intro!: attempt_fst [where Q = "stays w"])

lemma worker_execute_block_stays: "stays w (fst (worker_execute_block ce w ch pb lt round published))"
  unfolding worker_execute_block_def
  by (auto intro!: attempt_fst [where Q = "stays w"])

lemma stage_block_execution_stays: "wk_active w \<Longrightarrow> stays w (fst (stage_block_execution ce sto w pb round published now))"
  unfolding stage_block_execution_def
  using worker_execute_block_stays [of w ce "wk_chain w" pb now round published]
  by (auto simp: Let_def intro!: attempt_fst [where Q = "stays w"] continue_fst [where Q = "stays w"])

lemma chain_try_Ok: "chain_try r = Ok x \<longleftrightarrow> r = Ok x"
  by (simp add: chain_try_def map_err_Ok)

lemma stays_active: "stays w w' \<Longrightarrow> wk_active w' = wk_active w"
  by (simp add: stays_def)

lemma handle_chain_info_query_stays:
  assumes "wk_active w"
  shows "stays w (fst (handle_chain_info_query ce sto w q now))"
  unfolding handle_chain_info_query_def
proof (rule continue_fst [where Q = "stays w"])
  let ?h = "case qu_request_leader_timeout q of None \<Rightarrow> (w, Ok ()) | Some (height, r) \<Rightarrow> vote_for_leader_timeout ce w height r now"
  have first: "stays w (fst ?h)" using vote_for_leader_timeout_stays by (auto split: option.split)
  show "stays w w1" if "?h = (w1, Err e)" for w1 e using first that by (cases ?h) auto
  fix w1 u assume "?h = (w1, Ok u)"
  with first have w1: "stays w w1" by (cases ?h) auto
  let ?w = "if qu_request_fallback q then vote_for_fallback ce w1 now else w1"
  have w2: "stays w ?w" using vote_for_fallback_stays [of w1 ce now] w1 by (auto intro: stays_trans)
  then have "stays w (fst (prepare_chain_info_response ce ?w q now))"
    using prepare_chain_info_stays [of ?w] stays_active [OF w2] assms by (blast intro: stays_trans)
  then show "stays w (fst (let w = ?w in continue (prepare_chain_info_response ce w q now) (\<lambda>w info.
      attempt w (if qu_create_network_actions q then create_network_actions ce sto w (wk_chain w) None else Ok no_actions) (\<lambda>actions.
      (w, Ok (info, actions))))))"
    unfolding Let_def by (auto intro!: attempt_fst [where Q = "stays w"] continue_fst [where Q = "stays w"])
qed

lemma receive_bundle_same:
  assumes "sy_description (ch_system ch) \<noteq> None" "receive_message_bundle ce ch origin b lt add = Ok ch'"
  shows "same_state ch ch' \<and> ch_manager ch' = ch_manager ch"
  using assms
  by (auto simp: receive_message_bundle_def initialized_stays and_then_Ok Let_def split: prod.splits if_splits)

lemma receive_bundles_same:
  assumes "sy_description (ch_system ch) \<noteq> None" "receive_bundles ce origin lt previous ch bs = Ok ch'"
  shows "same_state ch ch' \<and> ch_manager ch' = ch_manager ch"
  using assms
proof (induction bs arbitrary: previous ch)
  case (Cons b bs)
  then obtain ch1 where 1: "receive_message_bundle ce ch origin b lt (previous \<noteq> Some (mb_height b)) = Ok ch1"
    and 2: "receive_bundles ce origin lt (Some (mb_height b)) ch1 bs = Ok ch'"
    by (auto simp: and_then_Ok)
  from receive_bundle_same [OF Cons.prems(1) 1] have same: "same_state ch ch1" "ch_manager ch1 = ch_manager ch" by simp_all
  then have "sy_description (ch_system ch1) \<noteq> None" using Cons.prems(1) by (simp add: same_state_def)
  from Cons.IH [OF this 2] same show ?case by (auto intro: same_state_trans)
qed simp

lemma process_cross_chain_update_stays:
  assumes "sy_description (ch_system (wk_chain w)) \<noteq> None"
  shows "stays w (fst (process_cross_chain_update ce w origin bundles now))"
proof -
  have receive: "stays w (fst (attempt w (chain_try (receive_bundles ce origin now None (wk_chain w) bs)) (\<lambda>ch.
      if P ch then (w, Ok None) else (save w ch, Ok (f ch)))))" for bs P and f :: "_ \<Rightarrow> block_height option"
    by (rule attempt_fst [where Q = "stays w"]) (use receive_bundles_same [OF assms] in \<open>auto simp: chain_try_Ok\<close>)
  have cases: "stays w (fst (if b then x else y))" if "stays w (fst x)" "stays w (fst y)" for b and x y :: "('a, block_height option) handled"
    using that by simp
  show ?thesis
    unfolding process_cross_chain_update_def Let_def
    by (intro attempt_fst [where Q = "stays w"] cases receive) (simp_all only: fst_conv stays_refl)
qed

lemma mark_received_same:
  assumes "chain_mark_messages_as_received ch target h = Ok (ch', b)"
  shows "same_state ch ch' \<and> ch_manager ch' = ch_manager ch"
proof -
  obtain ob received where 1: "outbox_mark_messages_as_received (load_outbox ch target) h = (ob, received)" by fastforce
  with assms obtain us where us: "received = Ok us"
    by (cases received) (simp_all add: chain_mark_messages_as_received_def)
  show ?thesis
  proof (cases "us = []")
    case True
    then show ?thesis using assms by (simp add: chain_mark_messages_as_received_def 1 us) auto
  next
    case False
    with assms obtain counters where "try_fold count_received (ch_outbox_counters ch) us = Ok counters"
      by (auto simp: chain_mark_messages_as_received_def 1 us and_then_Ok)
    with False show ?thesis using assms by (simp add: chain_mark_messages_as_received_def 1 us Let_def) (auto simp: Let_def)
  qed
qed

lemma confirm_updated_recipient_stays: "stays w (fst (confirm_updated_recipient w recipient h))"
  unfolding confirm_updated_recipient_def
  by (auto simp: Let_def chain_try_def map_err_Ok dest!: mark_received_same intro!: attempt_fst [where Q = "stays w"] split: prod.split)

lemma worker_update_trackers_stays: "stays w (worker_update_trackers w trackers)"
  by (simp add: worker_update_trackers_def update_received_certificate_trackers_def)

abbreviation next_height :: "'d worker \<Rightarrow> block_height" where
  "next_height w \<equiv> tip_next_block_height (ch_tip_state (wk_chain w))"

text \<open>Either nothing is decided, or the worker has moved to the next height.\<close>

definition moves :: "'d worker \<Rightarrow> 'd worker \<Rightarrow> bool" where
  "moves w w' \<longleftrightarrow> stays w w' \<or> unat (next_height w') = unat (next_height w) + 1"

lemma stays_moves: "stays w w' \<Longrightarrow> moves w w'"
  by (simp add: moves_def)

lemma moves_upd [simp]:
  "moves w (w'\<lparr> wk_state_cache := x \<rparr>) = moves w w'" "moves w (w'\<lparr> wk_tracked_chains := y \<rparr>) = moves w w'"
  "moves w (w'\<lparr> wk_notifier := z \<rparr>) = moves w w'"
  by (simp_all add: moves_def)

lemma register_moves: "moves w w' \<Longrightarrow> moves w (fst (register_delivery_notifier w' height actions waiter))"
  by (simp add: register_delivery_notifier_def split: option.split)

lemma track_moves: "moves w w' \<Longrightarrow> moves w (track_newly_created_chains w' pb out)"
  by (simp add: track_newly_created_chains_def split: option.split)

lemma apply_confirmed_tip:
  assumes "apply_confirmed_block ce ch blk lt = Ok ch'"
  shows "unat (tip_next_block_height (ch_tip_state ch')) = unat (tip_next_block_height (ch_tip_state ch)) + 1"
proof -
  obtain ch1 where "try_fold (schedule_target blk) (ch\<lparr> ch_execution_state_hash := Some (bh_state_hash (b_header blk)) \<rparr>) (recipients blk) = Ok ch1"
    and tip: "unat (tip_next_block_height (ch_tip_state ch')) = unat (tip_next_block_height (ch_tip_state ch1)) + 1"
    by (rule apply_confirmed_block_Ok [OF assms])
  from schedule_targets [OF this(1)] mail_only_sel(1) tip show ?thesis by fastforce
qed

lemma preprocess_block_same:
  assumes "preprocess_block ce ch blk = Ok ch'"
  shows "same_state ch ch' \<and> ch_manager ch' = ch_manager ch"
proof (cases "bh_height (b_header blk) < tip_next_block_height (ch_tip_state ch)")
  case True
  with assms show ?thesis by (simp add: preprocess_block_def Let_def)
next
  case False
  with assms obtain ch1 hash where fold: "try_fold (schedule_target blk) ch (recipients blk) = Ok ch1"
    and ch': "ch' = ch1\<lparr> ch_preprocessed_blocks := hash \<rparr>"
    by (auto simp: preprocess_block_def process_outgoing_messages_def Let_def and_then_Ok)
  from schedule_targets [OF fold] have "mail_only ch ch1" by simp
  then have "same_state ch ch1 \<and> ch_manager ch1 = ch_manager ch"
    by (cases ch; cases ch1; simp add: mail_only_def same_state_def)
  with ch' show ?thesis by simp
qed

lemma execute_confirmed_tip:
  assumes "execute_confirmed ce sto w ch blk published now = (w', Ok (ch', out))"
  shows "ch_tip_state ch' = ch_tip_state ch"
  using assms execute_same_mail
  by (fastforce simp: execute_confirmed_def chain_try_Ok same_mail_def split: option.splits if_splits prod.splits)

lemma execute_confirmed_stays: "stays w (fst (execute_confirmed ce sto w ch blk published now))"
  by (simp add: execute_confirmed_def split: option.splits prod.splits)

lemma execute_confirmed_moves: "execute_confirmed ce sto w ch blk published now = (w', r) \<Longrightarrow> moves w w'"
  using execute_confirmed_stays [of w ce sto ch blk published now] by (simp add: moves_def)

lemma confirmed_moves:
  assumes "chain_try (remove_bundles_from_inboxes ce (wk_chain w) ts must bundles) = Ok ch"
    "execute_confirmed ce sto w ch blk published now = (w1, Ok x)" "chain_try (apply_confirmed_block ce (fst x) blk now) = Ok ch'"
  shows "moves w (fst (register_delivery_notifier (save w2 ch') height actions waiter))"
proof (rule register_moves)
  have "ch_tip_state (fst x) = ch_tip_state ch"
    using execute_confirmed_tip [of ce sto w ch blk published now w1 "fst x" "snd x"] assms(2) by simp
  moreover have "ch_tip_state ch = ch_tip_state (wk_chain w)"
    using assms(1) remove_same_mail by (fastforce simp: chain_try_Ok same_mail_def)
  ultimately show "moves w (save w2 ch')"
    using apply_confirmed_tip [of ce "fst x" blk now ch'] assms(3) by (simp add: chain_try_Ok moves_def save_def)
qed

lemma finish_confirmed_moves:
  assumes "wk_active w"
  shows "moves w (fst (finish_confirmed ce sto w cert blobs waiter now))"
  unfolding finish_confirmed_def Let_def case_prod_unfold initialize_active [OF assms] continue_Ok
  by (intro attempt_fst [where Q = "moves w"] continue_fst [where Q = "moves w"])
    (simp_all only: fst_conv, (rule confirmed_moves track_moves execute_confirmed_moves stays_moves [OF stays_refl] | assumption)+)

lemma process_confirmed_block_moves:
  assumes "wk_active w"
  shows "moves w (fst (fst (process_confirmed_block ce sto w cert waiter now)))"
proof -
  let ?blk = "c_value cert" and ?h = "bh_height (b_header (c_value cert))" and ?ch = "wk_chain w"
  have w: "moves w w" by (simp add: stays_moves)
  have skip: "moves w (fst (attempt w (create_network_actions ce sto w ?ch None) (\<lambda>actions.
      case register_delivery_notifier w ?h actions waiter of (w, notified) \<Rightarrow> (w, Ok (actions, Skipped, notified)))))"
    unfolding case_prod_unfold by (rule attempt_fst [where Q = "moves w"]) (simp_all add: w register_moves)
  have ahead: "moves w (fst (attempt w (chain_try (preprocess_block ce ?ch ?blk)) (\<lambda>ch. let w = save w ch in
      attempt w (create_network_actions ce sto w ch None) (\<lambda>actions.
      case register_delivery_notifier w ?h actions waiter of (w, notified) \<Rightarrow> (w, Ok (actions, Preprocessed, notified))))))"
    unfolding Let_def case_prod_unfold
    by (intro attempt_fst [where Q = "moves w"])
      (use preprocess_block_same [of ce ?ch ?blk] w in \<open>auto simp: chain_try_Ok intro!: register_moves intro: stays_moves\<close>)
  have finish: "moves w (fst (attempt w r (\<lambda>blobs. if b then x else finish_confirmed ce sto w cert blobs waiter now)))"
    if "moves w (fst x)" for r b x
    by (rule attempt_fst [where Q = "moves w"]) (simp_all add: that w finish_confirmed_moves [OF assms])
  show ?thesis
    unfolding process_confirmed_block_def Let_def
    using w skip finish [OF ahead [unfolded Let_def]] by (simp split: result.split)
qed

section \<open>The handlers are steps of the voting protocol\<close>

text \<open>A worker of a validator that is deciding on the block after a given state of the chain.\<close>

definition deciding :: "'d chain_state \<Rightarrow> 'd worker \<Rightarrow> bool" where
  "deciding ch0 w \<longleftrightarrow> wk_active w \<and> wc_key_pair (wk_config w) \<noteq> None \<and> same_state ch0 (wk_chain w)"

definition simulates ::
  "'d chain_env \<Rightarrow> 'd chain_state \<Rightarrow> (blob_id \<Rightarrow> blob) \<Rightarrow> (vote_value \<Rightarrow> bool) \<Rightarrow> 'd worker \<Rightarrow> 'd worker \<Rightarrow> bool" where
  "simulates base ch0 content evidence w w' \<longleftrightarrow> deciding ch0 w' \<and>
    validator_step (ce_hashes base) (ce_crypto base) (executes_block base ch0 content) evidence
      (ch_manager (wk_chain w)) (ch_manager (wk_chain w'))"

lemma deciding_stays: "deciding ch0 w \<Longrightarrow> stays w w' \<Longrightarrow> deciding ch0 w'"
  by (auto simp: deciding_def stays_def intro: same_state_trans)

lemma simulates_stays: "deciding ch0 w \<Longrightarrow> stays w w' \<Longrightarrow> simulates base ch0 content evidence w w'"
  by (auto simp: simulates_def stays_def intro: deciding_stays validator_step.kept)

lemma chain_current_committee_Ok:
  "chain_current_committee ce ch = Ok x \<longleftrightarrow> current_committee (ch_system ch) = Some x"
  by (simp add: chain_current_committee_def ok_or_Ok)

lemma process_validated_block_simulates:
  assumes env: "sound_env base ce" and w: "deciding ch0 w"
    and c: "current_committee (ch_system ch0) = Some (ep, c)" "committee_ok c"
    and gen: "genuine (cr_verify (ce_crypto base)) F L (validated_vote (h_block (ce_hashes base) (c_value cert)) (c_round cert)) (c_signatures cert)"
  shows "simulates base ch0 content (backed c F L) w (fst (process_validated_block ce sto w cert now))"
proof -
  let ?Q = "simulates base ch0 content (backed c F L) w" and ?ch = "wk_chain w"
  from env have ce: "ce_crypto ce = ce_crypto base" by (simp add: sound_env_def)
  from w have act: "wk_active w" and sys: "ch_system ?ch = ch_system ch0" by (simp_all add: deciding_def same_state_def)
  have stay: "?Q w'" if "stays w w'" for w' using simulates_stays [OF w that] .
  have vote: "?Q (save w (?ch\<lparr> ch_manager := create_final_vote (ce_hashes ce) (ch_manager ?ch) cert (wc_key_pair (wk_config w)) now bs \<rparr>))"
    if "check_certificate ce (validated_value (ce_hashes ce)) cert c = Ok ()" "check_validated_block (ch_manager ?ch) cert = Ok OutcomeAccept" for bs
  proof -
    from that(1) have "certified (cr_verify (ce_crypto base)) c (validated_vote (h_block (ce_hashes base) (c_value cert)) (c_round cert)) (c_signatures cert)"
      by (simp add: check_certificate_def chain_try_Ok certificate_check_def check_signatures_certified [OF c(2)] validated_value_def ce)
    from certified_backed [OF c(2) this gen] that(2) w show ?thesis
      by (auto simp: simulates_def deciding_def save_def ce intro: validator_step.validated)
  qed
  have skip: "?Q (fst (if out = OutcomeSkip then (w, Ok (no_actions, Skipped)) else y))" if "out = OutcomeAccept \<Longrightarrow> ?Q (fst y)" for out y
    using that stay [OF stays_refl] by (cases out) simp_all
  have missing: "?Q (fst (if ms then attempt w r (\<lambda>v. (save w (?ch\<lparr> ch_pending_validated_blobs := v \<rparr>), e)) else y))" if "?Q (fst y)" for ms r e y
    using that by (auto intro!: attempt_fst [where Q = ?Q] simp: stay)
  show ?thesis
    unfolding process_validated_block_def Let_def case_prod_unfold initialize_active [OF act] continue_Ok
    by (intro attempt_fst [where Q = ?Q] skip missing)
      (simp_all only: fst_conv stay [OF stays_refl], (auto simp: chain_try_Ok chain_current_committee_Ok sys c(1) split: if_splits intro!: vote))
qed

text \<open>The blobs that a worker finds for a proposal are the ones their hashes stand for.\<close>

definition right_blobs :: "(blob_id \<Rightarrow> blob) \<Rightarrow> storage \<Rightarrow> 'd chain_state \<Rightarrow> block_proposal \<Rightarrow> bool" where
  "right_blobs content sto ch p \<longleftrightarrow>
    (\<forall>(bid, found) \<in> set (maybe_get_required_blobs sto ch (proposal_required_blob_ids p) None). \<forall>b. found = Some b \<longrightarrow> b = content bid)"

lemma check_proposal_Accept:
  assumes "check_proposal ce sto ch p = Ok OutcomeAccept" "current_committee (ch_system ch) = Some (ep, c)"
  shows "check_invariants (ce_hashes ce) p = Ok ()" "check_proposed_block (ce_crypto ce) (ch_manager ch) p = Ok OutcomeAccept"
    "bp_original_proposal p = Some (OriginalRegular cert) \<Longrightarrow> \<exists>v. lite_certificate_check (cr_verify (ce_crypto ce)) cert c = Ok v"
  using assms
  by (auto simp: check_proposal_def Let_def and_then_Ok map_err_Ok chain_try_Ok chain_current_committee_Ok check_authentication_def)

lemma required_keys: "bid \<in> set bids \<Longrightarrow> bid \<in> fst ` set (maybe_get_required_blobs sto ch bids created)"
proof -
  assume bid: "bid \<in> set bids"
  have keep: "fst ` set m \<subseteq> fst ` set (foldl (\<lambda>m bid. btm_insert bid (sto_blob sto bid) m) m bs)" for m bs
  proof (induction bs arbitrary: m)
    case (Cons b bs)
    have "fst ` set m \<subseteq> fst ` set (btm_insert b (sto_blob sto b) m)" by auto
    also have "\<dots> \<subseteq> fst ` set (foldl (\<lambda>m bid. btm_insert bid (sto_blob sto bid) m) (btm_insert b (sto_blob sto b) m) bs)" by (rule Cons.IH)
    finally show ?case by simp
  qed simp
  have "bid \<in> fst ` set (map (\<lambda>bid. (bid, local_blob ch created bid)) (bts_of_list bids))" using bid by (force simp: image_image)
  then show ?thesis unfolding maybe_get_required_blobs_def Let_def using keep by blast
qed

lemma load_proposal_blobs_Ok:
  assumes "load_proposal_blobs ce sto w p = (w', Ok bs)" "right_blobs content sto (wk_chain w) p"
  shows "w' = w \<and> bs = map content (pb_published_blob_ids (pc_block (bp_content p)))"
proof -
  let ?m = "maybe_get_required_blobs sto (wk_chain w) (proposal_required_blob_ids p) None" and ?ids = "pb_published_blob_ids (pc_block (bp_content p))"
  let ?f = "\<lambda>bid. case btm_get ?m bid of None \<Rightarrow> None | Some b \<Rightarrow> b"
  from assms(1) have none: "missing_blob_ids ?m = []" and w: "w' = w" "bs = List.map_filter ?f ?ids"
    by (auto simp: load_proposal_blobs_def Let_def attempt_def split: if_splits result.splits)
  have "?f bid = Some (content bid)" if "bid \<in> set ?ids" for bid
  proof -
    have "bid \<in> fst ` set ?m" by (rule required_keys) (use that in \<open>simp add: proposal_required_blob_ids_def\<close>)
    then obtain found where get: "btm_get ?m bid = Some found" by (metis map_of_eq_None_iff not_None_eq)
    then have mem: "(bid, found) \<in> set ?m" by (rule map_of_SomeD)
    with none have "found \<noteq> None" by (auto simp: missing_blob_ids_def filter_empty_conv)
    with get mem assms(2) show ?thesis by (auto simp: right_blobs_def)
  qed
  then have "List.map_filter ?f ?ids = map content ?ids" by (simp add: List.map_filter_def cong: filter_cong map_cong)
  with w show ?thesis by simp
qed

lemma load_proposal_blobs_stays: "stays w (fst (load_proposal_blobs ce sto w p))"
  unfolding load_proposal_blobs_def Let_def
  by (auto intro!: attempt_fst [where Q = "stays w"])

lemma pending_blob_signed [simp]:
  fixes m :: "'d chain_manager"
  shows "pending_blob (fst (update_signed_proposal m p t)) = pending_blob m"
proof -
  have round: "cm_proposed_blobs (update_current_round m' t) = cm_proposed_blobs m'" "cm_locking_blobs (update_current_round m' t) = cm_locking_blobs m'"
    for m' :: "'d chain_manager"
    by (simp_all add: update_current_round_def Let_def)
  have "cm_proposed_blobs (fst (update_signed_proposal m p t)) = cm_proposed_blobs m" "cm_locking_blobs (fst (update_signed_proposal m p t)) = cm_locking_blobs m"
    by (simp_all add: update_signed_proposal_def round split: option.split)
  then show ?thesis by (simp add: pending_blob_def fun_eq_iff split: option.split)
qed

lemma right_blobs_signed [simp]:
  "right_blobs content sto (ch\<lparr> ch_manager := fst (update_signed_proposal (ch_manager ch) p t) \<rparr>) q = right_blobs content sto ch q"
proof -
  have "local_blob (ch\<lparr> ch_manager := fst (update_signed_proposal (ch_manager ch) p t) \<rparr>) created = local_blob ch created" for created
    by (simp add: local_blob_def fun_eq_iff split: option.split)
  then show ?thesis by (simp add: right_blobs_def maybe_get_required_blobs_def)
qed

lemma executed_block:
  assumes env: "sound_env base ce" and ch: "same_state ch0 ch" "sy_description (ch_system ch0) \<noteq> None"
    and run: "execute_block ce ch pb lt round (map content (pb_published_blob_ids pb)) None = Ok (ch', out)"
    and len: "length (pb_transactions pb) < 2 ^ 32"
  shows "executes_block base ch0 content pb out"
proof -
  from ch have "sy_description (ch_system ch) \<noteq> None" by (simp add: same_state_def)
  from initialized_stays [OF this] run obtain st where
    "execute_block_inner ce (ch_execution_state ch) (ch_confirmed_log ch) (ch_previous_message_blocks ch)
      (ch_previous_event_blocks ch) pb lt round (map content (pb_published_blob_ids pb)) None = Ok (st, out)"
    by (auto simp: execute_block_def and_then_Ok Let_def)
  with env len ch(1) show ?thesis unfolding executes_block_def same_state_def by metis
qed

lemma remove_origin_same: "try_fold (remove_origin chain must) (ch, r) by_origin = Ok (ch', r') \<Longrightarrow> ch_execution_state ch' = ch_execution_state ch"
proof (induction by_origin arbitrary: ch r)
  case (Cons x xs)
  then obtain ch1 r1 where "remove_origin chain must (ch, r) x = Ok (ch1, r1)" "try_fold (remove_origin chain must) (ch1, r1) xs = Ok (ch', r')"
    by (auto simp: and_then_Ok)
  with Cons.IH [of ch1 r1] show ?case by (auto simp: remove_origin_def and_then_Ok split: prod.splits)
qed simp

lemma remove_unskippable_same: "remove_unskippable ch removed = Ok ch' \<Longrightarrow> ch_execution_state ch' = ch_execution_state ch"
  by (cases "removed = []") (auto simp: remove_unskippable_def Let_def and_then_Ok simp del: not_None_eq)

lemma remove_bundles_same:
  assumes "remove_bundles_from_inboxes ce ch ts must bundles = Ok ch'"
  shows "same_state ch ch'"
proof -
  from assms obtain by_origin ch1 removed where
    "try_fold (remove_origin (xc_chain_id (ce_ctx ce)) must) (ch, []) by_origin = Ok (ch1, removed)" "remove_unskippable ch1 removed = Ok ch'"
    by (auto simp: remove_bundles_from_inboxes_def Let_def and_then_Ok map_err_Ok)
  from remove_origin_same [OF this(1)] remove_unskippable_same [OF this(2)] remove_same_mail [OF assms] show ?thesis
    by (simp add: same_mail_def same_state_def)
qed

lemma vote_on_proposal_simulates:
  assumes env: "sound_env base ce" and w: "deciding ch0 w" and w1: "stays w w1"
    and check: "check_invariants (ce_hashes base) p = Ok ()" "check_proposed_block (ce_crypto base) (ch_manager (wk_chain w)) p = Ok OutcomeAccept"
    and cert: "\<And>cert. bp_original_proposal p = Some (OriginalRegular cert) \<Longrightarrow>
      evidence (VoteValue (lv_value_hash (lc_value cert)) (lc_round cert) (lv_kind (lc_value cert)))"
    and out: "case pc_outcome (bp_content p) of Some out' \<Rightarrow> out = out' | None \<Rightarrow> executes_block base ch0 content (pc_block (bp_content p)) out"
  shows "simulates base ch0 content evidence w (fst (vote_on_proposal ce sto w1 executed p out now old_round))"
proof -
  let ?Q = "simulates base ch0 content evidence w" and ?ch = "wk_chain w1" and ?blk = "Block_new (ce_hashes base) (pc_block (bp_content p)) out"
  from env have ce: "ce_crypto ce = ce_crypto base" by (simp add: sound_env_def)
  have d1: "deciding ch0 w1" using deciding_stays [OF w w1] .
  then obtain key where key: "wc_key_pair (wk_config w1) = Some key" by (auto simp: deciding_def)
  have stay: "?Q w1" using simulates_stays [OF w w1] .
  have vote: "?Q (save w1 (?ch\<lparr> ch_manager := fst (create_vote (ce_hashes base) (ch_manager ?ch) p ?blk (Some key) now bs) \<rparr>))"
    if quiet: "\<not> is_fast (proposal_round p) \<or> \<not> outcome_has_oracle_responses out" for bs
  proof -
    have same: "same_votes (ch_manager (wk_chain w)) (ch_manager ?ch)" using w1 by (simp add: stays_def)
    have "validator_step (ce_hashes base) (ce_crypto base) (executes_block base ch0 content) evidence (ch_manager (wk_chain w))
        (fst (create_vote (ce_hashes base) (ch_manager ?ch) p ?blk (Some key) now bs))"
      by (rule validator_step.proposed [where evidence = evidence and executes = "executes_block base ch0 content" and
            vote = "snd (create_vote (ce_hashes base) (ch_manager ?ch) p ?blk (Some key) now bs)", OF check same cert out])
        (use quiet in \<open>simp_all add: is_fast_def\<close>)
    with d1 show ?thesis by (simp add: simulates_def deciding_def save_def)
  qed
  show ?thesis
    unfolding vote_on_proposal_def Let_def
    by (intro attempt_fst [where Q = ?Q]) (auto simp: stay ensure_Ok key ce intro!: vote)
qed

lemma handle_block_proposal_simulates:
  fixes w :: "'d worker"
  assumes env: "sound_env base ce" and w: "deciding ch0 w" and act: "sy_description (ch_system ch0) \<noteq> None"
    and c: "current_committee (ch_system ch0) = Some (ep, c)" "committee_ok c"
    and gen: "\<And>cert. bp_original_proposal p = Some (OriginalRegular cert) \<Longrightarrow>
      genuine (cr_verify (ce_crypto base)) F L (VoteValue (lv_value_hash (lc_value cert)) (lc_round cert) (lv_kind (lc_value cert))) (lc_signatures cert)"
    and blobs: "right_blobs content sto (wk_chain w) p" and len: "length (pb_transactions (pc_block (bp_content p))) < 2 ^ 32"
  shows "simulates base ch0 content (backed c F L) w (fst (handle_block_proposal ce sto w p now later))"
proof -
  let ?Q = "simulates base ch0 content (backed c F L) w" and ?ch = "wk_chain w" and ?pb = "pc_block (bp_content p)"
  from env have ce: "ce_crypto ce = ce_crypto base" by (simp add: sound_env_def)
  from w have active: "wk_active w" and sys: "ch_system ?ch = ch_system ch0" by (simp_all add: deciding_def same_state_def)
  have stay: "?Q w'" if "stays w w'" for w' using simulates_stays [OF w that] .
  let ?m = "fst (update_signed_proposal (ch_manager ?ch) p now)"
  define w1 where "w1 = (if snd (update_signed_proposal (ch_manager ?ch) p now) then save w (?ch\<lparr> ch_manager := ?m \<rparr>) else w)"
  have w1: "stays w w1" "right_blobs content sto (wk_chain w1) p" using blobs by (simp_all add: w1_def) (simp add: save_def)
  have vote: "?Q (fst (vote_on_proposal ce sto w2 executed p out later old_round))"
    if check: "check_proposal ce sto ?ch p = Ok OutcomeAccept" and w2: "stays w w2"
      and out: "case pc_outcome (bp_content p) of Some out' \<Rightarrow> out = out' | None \<Rightarrow> executes_block base ch0 content ?pb out"
    for w2 executed out old_round
  proof (rule vote_on_proposal_simulates [OF env w w2 _ _ _ out])
    note acc = check_proposal_Accept [OF check, unfolded sys, OF c(1), unfolded ce]
    show "check_invariants (ce_hashes base) p = Ok ()" "check_proposed_block (ce_crypto base) (ch_manager ?ch) p = Ok OutcomeAccept"
      using acc by simp_all
    fix cert assume cert: "bp_original_proposal p = Some (OriginalRegular cert)"
    from acc(3) [OF this] show "backed c F L (VoteValue (lv_value_hash (lc_value cert)) (lc_round cert) (lv_kind (lc_value cert)))"
      using certified_backed [OF c(2) _ gen [OF cert]]
      by (auto simp: lite_certificate_check_def and_then_Ok check_signatures_certified [OF c(2)])
  qed
  have run: "?Q (fst (case pc_outcome (bp_content p) of
        Some out \<Rightarrow> vote_on_proposal ce sto w1 ch p out later old_round
      | None \<Rightarrow> continue (worker_execute_block ce w1 ch ?pb later r (map content (pb_published_blob_ids ?pb))) (\<lambda>w x.
         vote_on_proposal ce sto w (fst x) p (snd x) later old_round)))"
    if check: "check_proposal ce sto ?ch p = Ok OutcomeAccept" and ch: "same_state ch0 ch" for ch old_round r
  proof (cases "pc_outcome (bp_content p)")
    case None
    let ?e = "worker_execute_block ce w1 ch ?pb later r (map content (pb_published_blob_ids ?pb))"
    have e: "stays w (fst ?e)" using worker_execute_block_stays w1(1) stays_trans by blast
    have "?Q (fst (continue ?e (\<lambda>w x. vote_on_proposal ce sto w (fst x) p (snd x) later old_round)))"
    proof (rule continue_fst [where Q = ?Q])
      fix w2 x assume x: "?e = (w2, Ok x)"
      then have "execute_block ce ch ?pb later r (map content (pb_published_blob_ids ?pb)) None = Ok (fst x, snd x)"
        by (auto simp: worker_execute_block_def attempt_def chain_try_Ok split: result.splits)
      from executed_block [OF env ch act this len] vote [OF check] e x None
      show "?Q (fst (vote_on_proposal ce sto w2 (fst x) p (snd x) later old_round))" by simp
    next
      fix w2 err assume "?e = (w2, Err err)"
      with e show "?Q w2" using stay by simp
    qed
    with None show ?thesis by simp
  qed (use vote [OF check w1(1)] in simp)
  have tail: "?Q (fst (continue (load_proposal_blobs ce sto w1 p) (\<lambda>w published.
      attempt w (e w) (\<lambda>_. attempt w (chain_try (remove_bundles_from_inboxes ce (wk_chain w) ts True bs)) (\<lambda>ch.
      case pc_outcome (bp_content p) of
        Some out \<Rightarrow> vote_on_proposal ce sto w ch p out later old_round
      | None \<Rightarrow> continue (worker_execute_block ce w ch ?pb later r published) (\<lambda>w x.
         vote_on_proposal ce sto w (fst x) p (snd x) later old_round))))))"
    if check: "check_proposal ce sto ?ch p = Ok OutcomeAccept" for e :: "'d worker \<Rightarrow> (unit, worker_error) result" and ts bs old_round r
  proof (rule continue_fst [where Q = ?Q])
    fix w2 published assume "load_proposal_blobs ce sto w1 p = (w2, Ok published)"
    from load_proposal_blobs_Ok [OF this w1(2)] have eq: "w2 = w1" "published = map content (pb_published_blob_ids ?pb)" by simp_all
    have "same_state ch0 (wk_chain w1)" using deciding_stays [OF w w1(1)] by (simp add: deciding_def)
    then have "same_state ch0 ch" if "chain_try (remove_bundles_from_inboxes ce (wk_chain w1) ts True bs) = Ok ch" for ch
      using that remove_bundles_same same_state_trans by (fastforce simp: chain_try_Ok)
    then show "?Q (fst (attempt w2 (e w2) (\<lambda>_. attempt w2 (chain_try (remove_bundles_from_inboxes ce (wk_chain w2) ts True bs)) (\<lambda>ch.
      case pc_outcome (bp_content p) of
        Some out \<Rightarrow> vote_on_proposal ce sto w2 ch p out later old_round
      | None \<Rightarrow> continue (worker_execute_block ce w2 ch ?pb later r published) (\<lambda>w x.
         vote_on_proposal ce sto w (fst x) p (snd x) later old_round)))))"
      unfolding eq by (intro attempt_fst [where Q = ?Q] run [OF check] stay w1(1)) simp_all
  next
    fix w2 err assume "load_proposal_blobs ce sto w1 p = (w2, Err err)"
    then show "?Q w2" using load_proposal_blobs_stays [of w1 ce sto p] w1(1) stay stays_trans by fastforce
  qed
  have skip: "?Q (fst (if outcome = OutcomeSkip then (w, Ok no_actions) else y))" if "outcome = OutcomeAccept \<Longrightarrow> ?Q (fst y)" for outcome y
    using that stay by (cases outcome) simp_all
  show ?thesis
    unfolding handle_block_proposal_def initialize_active [OF active] continue_Ok Let_def case_prod_unfold w1_def [symmetric]
    by (rule attempt_fst [where Q = ?Q]) (rule skip, rule tail, simp, simp add: stay)
qed

section \<open>Agreement\<close>

text \<open>
  What happens at a validator: a handler of its worker runs, on any input, at any time and with any
  answers of the oracles and of the storage. A certificate of a proposal or of a validated block is whatever the
  network brings, except that nobody forges the signatures of the validators outside \<open>F\<close>.
\<close>

inductive worker_step ::
  "'d chain_env \<Rightarrow> (blob_id \<Rightarrow> blob) \<Rightarrow> validator_public_key set \<Rightarrow> vote_log \<Rightarrow> 'd worker \<Rightarrow> 'd worker \<Rightarrow> bool"
  for base content F L where
  proposal: "sound_env base ce \<Longrightarrow>
    (\<And>cert. bp_original_proposal p = Some (OriginalRegular cert) \<Longrightarrow> genuine (cr_verify (ce_crypto base)) F L
      (VoteValue (lv_value_hash (lc_value cert)) (lc_round cert) (lv_kind (lc_value cert))) (lc_signatures cert)) \<Longrightarrow>
    right_blobs content sto (wk_chain w) p \<Longrightarrow> length (pb_transactions (pc_block (bp_content p))) < 2 ^ 32 \<Longrightarrow>
    worker_step base content F L w (fst (handle_block_proposal ce sto w p now later))"
| validated: "sound_env base ce \<Longrightarrow>
    genuine (cr_verify (ce_crypto base)) F L (validated_vote (h_block (ce_hashes base) (c_value cert)) (c_round cert)) (c_signatures cert) \<Longrightarrow>
    worker_step base content F L w (fst (process_validated_block ce sto w cert now))"
| confirmed: "worker_step base content F L w (fst (fst (process_confirmed_block ce sto w certificate waiter now)))"
| timeout: "worker_step base content F L w (fst (process_timeout ce sto w timeout_certificate now))"
| received: "worker_step base content F L w (fst (process_cross_chain_update ce w origin bundles now))"
| acknowledged: "worker_step base content F L w (fst (confirm_updated_recipient w recipient height))"
| uploaded: "worker_step base content F L w (fst (handle_pending_blob ce w blob))"
| queried: "worker_step base content F L w (fst (handle_chain_info_query ce sto w query now))"
| staged: "worker_step base content F L w (fst (stage_block_execution ce sto w pb round published now))"
| synchronized: "worker_step base content F L w (worker_update_trackers w trackers)"

lemma worker_step_simulates:
  assumes "worker_step base content F L w w'" "deciding ch0 w" "sy_description (ch_system ch0) \<noteq> None"
    "current_committee (ch_system ch0) = Some (ep, c)" "committee_ok c"
  shows "simulates base ch0 content (backed c F L) w w' \<or> next_height w' \<noteq> next_height w"
proof -
  from assms(2,3) have act: "wk_active w" and init: "sy_description (ch_system (wk_chain w)) \<noteq> None"
    by (simp_all add: deciding_def same_state_def)
  have stay: ?thesis if "stays w w'" using simulates_stays [OF assms(2) that] ..
  show ?thesis
    using assms(1)
  proof cases
    case proposal
    then show ?thesis using handle_block_proposal_simulates [OF _ assms(2-5)] by blast
  next
    case validated
    then show ?thesis using process_validated_block_simulates [OF _ assms(2,4,5)] by blast
  next
    case (confirmed ce sto certificate waiter now)
    from process_confirmed_block_moves [OF act, of ce sto certificate waiter now] stay show ?thesis
      unfolding confirmed moves_def by auto
  next
    case timeout
    then show ?thesis by (intro stay) (simp only: process_timeout_stays [OF act])
  next
    case received
    then show ?thesis by (intro stay) (simp only: process_cross_chain_update_stays [OF init])
  next
    case acknowledged
    then show ?thesis by (intro stay) (simp only: confirm_updated_recipient_stays)
  next
    case uploaded
    then show ?thesis by (intro stay) (simp only: handle_pending_blob_stays)
  next
    case queried
    then show ?thesis by (intro stay) (simp only: handle_chain_info_query_stays [OF act])
  next
    case staged
    then show ?thesis by (intro stay) (simp only: stage_block_execution_stays [OF act])
  next
    case synchronized
    then show ?thesis by (intro stay) (simp only: worker_update_trackers_stays)
  qed
qed

text \<open>
  A network of validators that decide on the block after the state \<open>ch0\<close>. The log records the votes on this
  block: a validator that has moved on casts none any more.
\<close>

type_synonym 'd network = "(validator_public_key \<Rightarrow> 'd worker) \<times> vote_log"

inductive network_step ::
  "'d chain_env \<Rightarrow> 'd chain_state \<Rightarrow> (blob_id \<Rightarrow> blob) \<Rightarrow> validator_public_key set \<Rightarrow> 'd network \<Rightarrow> 'd network \<Rightarrow> bool"
  for base ch0 content F where
  handled: "k \<notin> F \<Longrightarrow> next_height (W k) = tip_next_block_height (ch_tip_state ch0) \<Longrightarrow> worker_step base content F L (W k) w' \<Longrightarrow>
    L' = (if next_height w' = tip_next_block_height (ch_tip_state ch0)
          then L(k := L k \<union> votes_of (ce_hashes base) (ch_manager (wk_chain w'))) else L) \<Longrightarrow>
    network_step base ch0 content F (W, L) (W(k := w'), L')"

definition managers_at :: "block_height \<Rightarrow> 'd network \<Rightarrow> 'd consensus_state" where
  "managers_at n = (\<lambda>(W, L). (\<lambda>k. if next_height (W k) = n then Some (ch_manager (wk_chain (W k))) else None, L))"

definition all_deciding :: "'d chain_state \<Rightarrow> validator_public_key set \<Rightarrow> 'd network \<Rightarrow> bool" where
  "all_deciding ch0 F = (\<lambda>(W, L). \<forall>k. k \<notin> F \<longrightarrow> next_height (W k) = tip_next_block_height (ch_tip_state ch0) \<longrightarrow> deciding ch0 (W k))"

lemma network_step_simulates:
  assumes "network_step base ch0 content F st st'" "all_deciding ch0 F st" "sy_description (ch_system ch0) \<noteq> None"
    "current_committee (ch_system ch0) = Some (ep, c)" "committee_ok c"
  shows "all_deciding ch0 F st' \<and>
    consensus_step (ce_hashes base) (ce_crypto base) (executes_block base ch0 content) c F
      (managers_at (tip_next_block_height (ch_tip_state ch0)) st) (managers_at (tip_next_block_height (ch_tip_state ch0)) st')"
  using assms(1)
proof cases
  case (handled k W L w' L')
  let ?n = "tip_next_block_height (ch_tip_state ch0)" and ?m = "\<lambda>w. ch_manager (wk_chain w)"
  let ?S = "\<lambda>k. if next_height (W k) = ?n then Some (?m (W k)) else None"
  let ?step = "consensus_step (ce_hashes base) (ce_crypto base) (executes_block base ch0 content) c F"
  from assms(2) handled have d: "deciding ch0 (W k)" by (auto simp: all_deciding_def)
  show ?thesis
  proof (cases "next_height w' = ?n")
    case True
    with worker_step_simulates [OF handled(5) d assms(3-5)] handled(4)
    have sim: "simulates base ch0 content (backed c F L) (W k) w'" by simp
    then have "?step (?S, L) (?S(k := Some (?m w')), L(k := L k \<union> votes_of (ce_hashes base) (?m w')))"
      using handled by (auto simp: simulates_def intro: consensus_step.voted)
    moreover have "?S(k := Some (?m w')) = (\<lambda>j. if next_height ((W(k := w')) j) = ?n then Some (?m ((W(k := w')) j)) else None)"
      using True by auto
    ultimately show ?thesis
      using assms(2) sim True handled by (simp add: managers_at_def all_deciding_def simulates_def)
  next
    case False
    have "?step (?S, L) (?S(k := None), L)" by (rule consensus_step.left)
    moreover have "?S(k := None) = (\<lambda>j. if next_height ((W(k := w')) j) = ?n then Some (?m ((W(k := w')) j)) else None)"
      using False by auto
    ultimately show ?thesis using assms(2) False handled by (simp add: managers_at_def all_deciding_def)
  qed
qed

lemma network_run_simulates:
  assumes "(network_step base ch0 content F)\<^sup>*\<^sup>* st st'" "all_deciding ch0 F st" "sy_description (ch_system ch0) \<noteq> None"
    "current_committee (ch_system ch0) = Some (ep, c)" "committee_ok c"
  shows "all_deciding ch0 F st' \<and>
    (consensus_step (ce_hashes base) (ce_crypto base) (executes_block base ch0 content) c F)\<^sup>*\<^sup>*
      (managers_at (tip_next_block_height (ch_tip_state ch0)) st) (managers_at (tip_next_block_height (ch_tip_state ch0)) st')"
  using assms(1)
proof (induction rule: rtranclp_induct)
  case (step y z)
  from network_step_simulates [OF step(2) _ assms(3-5)] step(3) show ?case by (auto intro: rtranclp.rtrancl_into_rtrancl)
qed (simp add: assms(2))

definition undecided :: "'d chain_state \<Rightarrow> 'd worker \<Rightarrow> bool" where
  "undecided ch0 w \<longleftrightarrow> deciding ch0 w \<and> cm_locking_block (ch_manager (wk_chain w)) = None \<and>
    cm_validated_vote (ch_manager (wk_chain w)) = None \<and> cm_confirmed_vote (ch_manager (wk_chain w)) = None"

text \<open>
  \<^bold>\<open>C1\<close>. Validators agree on every block. Let less than a third of the voting rights of a committee belong to faulty
  validators, and let the others run the chain worker, starting without a vote at the same state of a
  chain: whatever proposals, certificates, messages, blobs and queries reach them, in any order, and whatever
  their oracles and clocks say, two certificates that confirm a block at this height confirm the same one. The
  signatures of correct validators on the certificates are their own, and a blob is what its hash says.
\<close>

theorem block_agreement:
  assumes "committee_ok c" "committee_quorums.tolerates c F"
    and "sy_description (ch_system ch0) \<noteq> None" "current_committee (ch_system ch0) = Some (ep, c)"
    and start: "\<forall>k. k \<notin> F \<longrightarrow> undecided ch0 (W0 k)"
    and run: "(network_step base ch0 content F)\<^sup>*\<^sup>* (W0, \<lambda>_. {}) (W, L)"
    and cert: "certificate_check (cr_verify (ce_crypto base)) (confirmed_value (ce_hashes base)) cert c = Ok ()"
      "genuine (cr_verify (ce_crypto base)) F L (confirmed_vote (h_block (ce_hashes base) (c_value cert)) (c_round cert)) (c_signatures cert)"
    and cert': "certificate_check (cr_verify (ce_crypto base)) (confirmed_value (ce_hashes base)) cert' c = Ok ()"
      "genuine (cr_verify (ce_crypto base)) F L (confirmed_vote (h_block (ce_hashes base) (c_value cert')) (c_round cert')) (c_signatures cert')"
  shows "h_block (ce_hashes base) (c_value cert) = h_block (ce_hashes base) (c_value cert')"
proof -
  let ?hs = "ce_hashes base" and ?n = "tip_next_block_height (ch_tip_state ch0)" and ?ex = "executes_block base ch0 content"
  from start have "all_deciding ch0 F (W0, \<lambda>_. {})" by (simp add: all_deciding_def undecided_def)
  from network_run_simulates [OF run this assms(3,4,1)]
  have sim: "(consensus_step ?hs (ce_crypto base) ?ex c F)\<^sup>*\<^sup>* (managers_at ?n (W0, \<lambda>_. {})) (managers_at ?n (W, L))" ..
  have "consensus_inv ?hs ?ex c F (managers_at ?n (W0, \<lambda>_. {}))"
    using start by (auto simp: consensus_inv_def managers_at_def undecided_def voting_rules_def remembers_def votes_of_def)
  from consensus_run_inv [OF chain_execution.block_execution_axioms assms(1,2) sim this]
  have rules: "\<And>k. k \<notin> F \<Longrightarrow> voting_rules c F L k" by (simp add: consensus_inv_def managers_at_def)
  have "backed c F L (confirmed_vote (h_block ?hs (c_value x)) (c_round x))"
    if "certificate_check (cr_verify (ce_crypto base)) (confirmed_value ?hs) x c = Ok ()"
      "genuine (cr_verify (ce_crypto base)) F L (confirmed_vote (h_block ?hs (c_value x)) (c_round x)) (c_signatures x)" for x
    using that certified_backed [OF assms(1)]
    by (simp add: certificate_check_def check_signatures_certified [OF assms(1)] confirmed_value_def)
  with cert cert' voting_agreement [OF assms(1,2) rules] show ?thesis by blast
qed

text \<open>A network of one validator, whose super owner closes the chain in the fast round.\<close>

definition demo_worker :: "unit worker" where
  "demo_worker =
    \<lparr> wk_config = \<lparr> wc_key_pair = Some (\<lambda>_. 1), wc_allow_inactive_chains = False, wc_allow_messages_from_deprecated_epochs = False,
        wc_grace_period = 0, wc_max_received_log_entries = 10 \<rparr>,
      wk_chain = demo_chain, wk_active = True, wk_state_cache = [], wk_tracked_chains = None, wk_notifier = [] \<rparr>"

definition demo_storage :: storage where
  "demo_storage =
    \<lparr> sto_blob = (\<lambda>_. None), sto_committee = (\<lambda>_. Ok None), sto_certificate = (\<lambda>_. None), sto_admin_chain = None,
      sto_cached = (\<lambda>_. False), sto_proposal_size = (\<lambda>_. 0) \<rparr>"

definition demo_content :: "blob_id \<Rightarrow> blob" where
  "demo_content bid = \<lparr> blob_hash = id_hash bid, blob_content = \<lparr> content_blob_type = id_blob_type bid, content_bytes = [] \<rparr> \<rparr>"

definition demo_closing :: proposed_block where
  "demo_closing = demo_chain_block\<lparr> pb_transactions := [ExecuteOperation (SystemOp CloseChain)] \<rparr>"

definition demo_fast :: block_proposal where
  "demo_fast = new_initial (\<lambda>_. Ed25519Sig 0 0) Fast demo_closing"

lemma demo_closing_permitted:
  "pb_published_blob_ids demo_closing = []" "bts_of_list ([] :: blob_id list) = []"
  "check_app_permissions (sy_application_permissions (ch_system demo_chain)) demo_closing = Ok ()"
  by (simp_all add: demo_closing_def demo_chain_simps demo_block_simps operations_in_def List.map_filter_def operation_of_def
      operation_published_blob_ids_def bts_of_list_def)

lemma demo_closing_executes:
  "\<exists>ch out. execute_block demo_env (demo_chain\<lparr> ch_manager := m \<rparr>) demo_closing 10 None [] None = Ok (ch, out) \<and>
    ch_tip_state ch = ch_tip_state demo_chain \<and> \<not> outcome_has_oracle_responses out \<and> beo_messages out = [[]]"
  using demo_closing_permitted(3)
  by (simp add: execute_block_def execute_block_inner_def demo_closing_permitted initialized_stays demo_chain_def [THEN arg_cong, of "\<lambda>ch. sy_description (ch_system ch)"])
    (simp add: demo_closing_def demo_chain_simps demo_block_simps demo_tx_simps bt_recipients_def bt_event_streams_def previous_blocks_def
      bts_of_list_def close_chain_def outcome_has_oracle_responses_def)

lemma demo_fast_simps:
  "bp_content demo_fast = \<lparr> pc_block = demo_closing, pc_round = Fast, pc_outcome = None \<rparr>" "bp_original_proposal demo_fast = None"
  "proposal_owner demo_crypto demo_fast = Reserved 1" "check_signature demo_crypto demo_fast = Ok ()"
  by (simp_all add: demo_fast_def new_initial_def demo_crypto_def check_signature_def proposal_owner_def Let_def ensure_def)

lemma demo_fast_accepted: "check_proposal demo_env demo_storage demo_chain demo_fast = Ok OutcomeAccept"
proof -
  have env: "ce_crypto demo_env = demo_crypto" "ce_sampler demo_env = demo_sampler" "ch_manager demo_chain = demo_manager"
    "current_committee (ch_system demo_chain) = Some (0, demo_single)"
    by (simp_all add: demo_env_def demo_chain_def current_committee_def demo_system_def)
  have "check_proposed_block demo_crypto demo_manager demo_fast = Ok OutcomeAccept"
    by (simp add: check_proposed_block_Accept demo_manager_def manager_reset_def Let_def lock_of_def check_round_def
        demo_fast_simps demo_closing_def demo_chain_block_def word_max_def word_less_nat_alt unat_gt_0)
  moreover have "verify_owner demo_sampler demo_manager (Reserved 1) Fast"
    by (simp add: verify_owner_def demo_manager_def manager_reset_def Let_def single_super_def)
  ultimately show ?thesis
    by (simp add: check_proposal_def env demo_fast_simps check_invariants_def chain_current_committee_def ok_or_def check_block_epoch_def
        chain_try_def check_proposal_size_def demo_storage_def check_authentication_def verify_block_chaining_def ensure_def Let_def)
      (simp add: demo_closing_def demo_chain_block_def demo_chain_def)
qed

lemma demo_vote:
  assumes "cm_locking_block m = None" "ch_tip_state executed = ch_tip_state demo_chain" "\<not> outcome_has_oracle_responses out" "beo_messages out = [[]]"
    and w: "w = demo_worker\<lparr> wk_chain := demo_chain\<lparr> ch_manager := m \<rparr>, wk_state_cache := cache \<rparr>"
  shows "let w' = fst (vote_on_proposal demo_env demo_storage w executed demo_fast out 10 r) in next_height w' = 0 \<and>
    cm_confirmed_vote (ch_manager (wk_chain w')) = Some (Vote_new (confirmed_value demo_hashes) (Block_new demo_hashes demo_closing out) Fast (\<lambda>_. 1))"
proof -
  let ?blk = "Block_new demo_hashes demo_closing out"
  have env: "ce_crypto demo_env = demo_crypto" "cr_hashes demo_crypto = demo_hashes" by (simp_all add: demo_env_def demo_crypto_def)
  have blobs: "get_required_blobs demo_storage ch (proposal_expected_blob_ids demo_fast) created = Ok []" for ch :: "unit chain_state" and created
    by (simp add: get_required_blobs_def maybe_get_required_blobs_def proposal_expected_blob_ids_def demo_fast_simps demo_closing_permitted
        missing_blob_ids_def found_blobs_def List.map_filter_def ensure_def Let_def)
  have counters: "\<exists>tip. update_counters (ch_tip_state demo_chain) (pb_transactions demo_closing) [[]] = Ok tip"
    by (simp add: update_counters_def demo_chain_def demo_closing_def count_transaction_def try_add_one_def try_add_def checked_add_def ok_or_def chain_arith_def)
  have vote: "cm_confirmed_vote (fst (create_vote demo_hashes m demo_fast ?blk (Some (\<lambda>_. 1)) 10 [])) = Some (Vote_new (confirmed_value demo_hashes) ?blk Fast (\<lambda>_. 1))"
    using create_vote_fast [of demo_fast m demo_hashes ?blk "\<lambda>_. 1" 10 "[]"] assms(1) demo_fast_simps by (metis proposal_content.select_convs(2) prod.collapse)
  from counters vote show ?thesis
    by (auto simp: vote_on_proposal_def attempt_def env w demo_fast_simps blobs assms(2-4) ensure_def is_fast_def chain_try_def Let_def save_def demo_worker_def demo_chain_def)
qed

lemma demo_fast_voted:
  "\<exists>out. let w = fst (handle_block_proposal demo_env demo_storage demo_worker demo_fast 10 10) in next_height w = 0 \<and>
    cm_confirmed_vote (ch_manager (wk_chain w)) = Some (Vote_new (confirmed_value demo_hashes) (Block_new demo_hashes demo_closing out) Fast (\<lambda>_. 1))"
proof -
  let ?m = "fst (update_signed_proposal demo_manager demo_fast 10)" and ?w = "\<lambda>m. demo_worker\<lparr> wk_chain := demo_chain\<lparr> ch_manager := m \<rparr> \<rparr>"
  have dw: "wk_active demo_worker" "wk_chain demo_worker = demo_chain" "wk_state_cache demo_worker = []" "ch_manager demo_chain = demo_manager"
    "wc_grace_period (wk_config demo_worker) = 0" "pb_timestamp demo_closing = 10"
    by (simp_all add: demo_worker_def demo_chain_def demo_closing_def demo_chain_block_def)
  have signed: "snd (update_signed_proposal demo_manager demo_fast 10)" "cm_locking_block ?m = None"
    by (simp_all add: update_signed_proposal_def demo_fast_simps) (simp_all add: demo_manager_def manager_reset_def Let_def)
  have load: "load_proposal_blobs demo_env demo_storage w demo_fast = (w, Ok [])" for w
    by (simp add: load_proposal_blobs_def proposal_required_blob_ids_def maybe_get_required_blobs_def demo_fast_simps demo_closing_permitted
        missing_blob_ids_def List.map_filter_def Let_def)
  have none: "remove_bundles_from_inboxes demo_env ch ts True (incoming_bundles_in (pb_transactions demo_closing)) = Ok ch" for ch ts
    by (simp add: remove_bundles_from_inboxes_def demo_closing_def incoming_bundles_in_def incoming_bundle_of_def List.map_filter_def remove_unskippable_def Let_def)
  obtain ch out where run: "execute_block demo_env (demo_chain\<lparr> ch_manager := ?m \<rparr>) demo_closing 10 None [] None = Ok (ch, out)"
    "ch_tip_state ch = ch_tip_state demo_chain" "\<not> outcome_has_oracle_responses out" "beo_messages out = [[]]"
    using demo_closing_executes by blast
  have "fst (handle_block_proposal demo_env demo_storage demo_worker demo_fast 10 10) =
      fst (vote_on_proposal demo_env demo_storage ((?w ?m)\<lparr> wk_state_cache := btm_insert (beo_state_hash out) (ch_execution_state ch) [] \<rparr>) ch demo_fast out 10
        (cm_current_round demo_manager))"
    using signed(1) run(1)
    by (simp add: handle_block_proposal_def dw demo_fast_accepted attempt_def load none demo_fast_simps worker_execute_block_def chain_try_def
        case_prod_beta Let_def save_def ensure_def duration_since_def multi_leader_def saturating_sub_def checked_sub_def TimeDelta_as_duration_def)
  with demo_vote [OF signed(2) run(2-4) refl] show ?thesis by auto
qed

theorem block_agreement_witness:
  "\<exists>W L cert cert'. (network_step demo_env demo_chain demo_content {})\<^sup>*\<^sup>* (\<lambda>_. demo_worker, \<lambda>_. {}) (W, L) \<and>
    certificate_check (cr_verify demo_crypto) (confirmed_value demo_hashes) cert demo_single = Ok () \<and>
    certificate_check (cr_verify demo_crypto) (confirmed_value demo_hashes) cert' demo_single = Ok () \<and>
    length (c_signatures cert') = 1 \<and> h_block demo_hashes (c_value cert) = h_block demo_hashes (c_value cert')"
proof -
  let ?content = demo_content and ?L = "\<lambda>_. {} :: vote_value set"
  let ?w = "fst (handle_block_proposal demo_env demo_storage demo_worker demo_fast 10 10)"
  from demo_fast_voted obtain out where w: "next_height ?w = 0"
    "cm_confirmed_vote (ch_manager (wk_chain ?w)) = Some (Vote_new (confirmed_value demo_hashes) (Block_new demo_hashes demo_closing out) Fast (\<lambda>_. 1))"
    by (auto simp: Let_def)
  let ?b = "Block_new demo_hashes demo_closing out" and ?L1 = "?L(1 := ?L 1 \<union> votes_of demo_hashes (ch_manager (wk_chain ?w)))"
  have env: "ce_crypto demo_env = demo_crypto" "cr_hashes demo_crypto = demo_hashes" by (simp_all add: demo_env_def demo_crypto_def)
  have "sound_env demo_env demo_env"
    using demo_runtime_replays by (simp add: sound_env_def replay_env_def same_blobs_def)
  then have "worker_step demo_env ?content {} ?L demo_worker ?w"
    by (rule worker_step.proposal) (simp_all add: demo_fast_simps right_blobs_def maybe_get_required_blobs_def
        proposal_required_blob_ids_def demo_closing_permitted missing_blob_ids_def Let_def, simp add: demo_closing_def)
  moreover have tip: "next_height demo_worker = 0" "tip_next_block_height (ch_tip_state demo_chain) = 0" by (simp_all add: demo_worker_def demo_chain_def)
  ultimately have step: "network_step demo_env demo_chain ?content {} (\<lambda>_. demo_worker, ?L) ((\<lambda>_. demo_worker)(1 := ?w), ?L1)"
    by (intro network_step.handled) (simp_all add: w env)
  have start: "\<forall>k :: validator_public_key. k \<notin> {} \<longrightarrow> undecided demo_chain ((\<lambda>_. demo_worker) k)"
    by (simp add: undecided_def deciding_def demo_worker_def demo_chain_def demo_manager_def manager_reset_def Let_def)
  have "committee_quorums.tolerates demo_single {}"
    unfolding committee_quorums.tolerates_def by (simp add: committee_members_def weight_def demo_single_def Committee_new_def)
  moreover have "committee_ok demo_single"
    by (simp add: committee_ok_def demo_single_def Committee_new_def btm_ok_def total_weight_def)
  moreover have "sy_description (ch_system demo_chain) \<noteq> None" "current_committee (ch_system demo_chain) = Some (0, demo_single)"
    by (simp_all add: demo_chain_def demo_system_def current_committee_def)
  ultimately have c: "committee_ok demo_single" "committee_quorums.tolerates demo_single {}"
    "sy_description (ch_system demo_chain) \<noteq> None" "current_committee (ch_system demo_chain) = Some (0, demo_single)" by simp_all
  let ?cert = "\<lparr> c_value = ?b, c_round = Fast, c_signatures = [(1, 1)] \<rparr>"
  have cert: "certificate_check (cr_verify (ce_crypto demo_env)) (confirmed_value (ce_hashes demo_env)) ?cert demo_single = Ok ()"
    "genuine (cr_verify (ce_crypto demo_env)) {} ?L1 (confirmed_vote (h_block (ce_hashes demo_env) (c_value ?cert)) (c_round ?cert)) (c_signatures ?cert)"
    using w(2)
    by (simp_all add: env certificate_check_def check_signatures_def quorum_step_def demo_single_def Committee_new_def weight_def ensure_def
        demo_crypto_def genuine_def votes_of_def)
  from block_agreement [OF c start r_into_rtranclp [of "network_step demo_env demo_chain ?content {}", OF step] cert cert] step cert(1) show ?thesis
    by (intro exI [of _ "(\<lambda>_. demo_worker)(1 := ?w)"] exI [of _ ?L1] exI [of _ ?cert]) (simp add: env r_into_rtranclp)
qed

end
