(* ===== verification/Delivery.thy ===== *)
theory Delivery
  imports Agreement
begin

text \<open>
  The delivery of messages by the worker of a chain (\<open>linera-core/src/chain_worker/state.rs\<close>). Over any history of
  its handlers, every block with undelivered messages is known, so the requests to the recipients can be built
  and hold all that is pending, and an acknowledgement notifies exactly the waiters whose messages have all
  arrived up to the acknowledged height.
\<close>

section \<open>Invariants of the chain of a worker\<close>

text \<open>The hash of a block whose messages are waiting is in the log or among the preprocessed blocks.\<close>

definition blocks_known :: "'d chain_state \<Rightarrow> bool" where
  "blocks_known ch \<longleftrightarrow> btm_ok (ch_preprocessed_blocks ch) \<and>
    (\<forall>target. \<forall>k \<in> set (outbox_heights ch target).
      k < tip_next_block_height (ch_tip_state ch) \<or> btm_get (ch_preprocessed_blocks ch) k \<noteq> None)"

definition chain_ok :: "'d chain_state \<Rightarrow> bool" where
  "chain_ok ch \<longleftrightarrow> outboxes_ok ch \<and> log_ok ch \<and> blocks_known ch"

lemma same_mail_chain_ok: "same_mail ch ch' \<Longrightarrow> chain_ok ch' = chain_ok ch"
  using same_mail_ok [of ch ch'] outboxes_ok_same(2) [of ch' ch]
  by (simp add: chain_ok_def blocks_known_def same_mail_def)

lemma mail_only_preprocessed: "mail_only ch ch' \<Longrightarrow> ch_preprocessed_blocks ch' = ch_preprocessed_blocks ch"
  by (cases ch; cases ch'; simp add: mail_only_def)

lemma schedule_target_heights:
  assumes inv: "outboxes_ok ch" and run: "schedule_target blk ch target = Ok ch'" and small: "length (ch_outboxes ch') < 2 ^ 32"
  shows "set (outbox_heights ch' t) \<subseteq> insert (bh_height (b_header blk)) (set (outbox_heights ch t))"
proof -
  let ?h = "bh_height (b_header blk)" and ?ob = "load_outbox ch target"
  from run obtain may where may: "may_schedule ch blk target ?ob = Ok may" by (auto simp: schedule_target_def Let_def and_then_Ok)
  obtain ob r where sched: "schedule_message ?ob ?h = (ob, r)" by fastforce
  show ?thesis
  proof (cases "may \<and> r = Ok True")
    case True
    with run may sched have "ch' = ch\<lparr> ch_outboxes := btm_insert target ob (ch_outboxes ch),
        ch_outbox_counters := btm_insert ?h (counter ch ?h + 1) (ch_outbox_counters ch),
        ch_nonempty_outboxes := bts_insert target (ch_nonempty_outboxes ch) \<rparr>"
      by (simp add: schedule_target_def Let_def counter_def chain_arith_def)
    from outboxes_ok_schedule(2) [OF inv _ _ this] sched True small this show ?thesis by auto
  next
    case False
    with run may sched have "ch' = ch\<lparr> ch_outboxes := btm_insert target ?ob (ch_outboxes ch) \<rparr>"
      using inv schedule_message_Ok(5) [of ?ob ?h ob False]
      by (auto simp: schedule_target_def Let_def chain_arith_def and_then_Ok map_err_Ok outboxes_ok_def split: if_splits)
    with inv load_outbox_insert [of ch target ?ob] show ?thesis by (auto simp: outbox_heights_def outboxes_ok_def)
  qed
qed

lemma schedule_targets_heights:
  assumes "try_fold (schedule_target blk) ch targets = Ok ch'" "outboxes_ok ch" "length (ch_outboxes ch') < 2 ^ 32"
  shows "set (outbox_heights ch' t) \<subseteq> insert (bh_height (b_header blk)) (set (outbox_heights ch t))"
  using assms
proof (induction targets arbitrary: ch)
  case (Cons target targets)
  then obtain ch1 where 1: "schedule_target blk ch target = Ok ch1" "try_fold (schedule_target blk) ch1 targets = Ok ch'"
    by (auto simp: and_then_Ok)
  from schedule_targets [OF 1(2)] Cons.prems(3) have small: "length (ch_outboxes ch1) < 2 ^ 32" by simp
  with Cons.IH [OF 1(2) schedule_target_ok [OF Cons.prems(2) 1(1)] Cons.prems(3)] schedule_target_heights [OF Cons.prems(2) 1(1)]
  show ?case by blast
qed auto

lemma apply_confirmed_preprocessed:
  assumes "apply_confirmed_block ce ch blk lt = Ok ch'"
  shows "ch_preprocessed_blocks ch' = btm_remove (bh_height (b_header blk)) (ch_preprocessed_blocks ch)"
proof -
  from assms obtain ch1 where 1: "try_fold (schedule_target blk) (ch\<lparr> ch_execution_state_hash := Some (bh_state_hash (b_header blk)) \<rparr>) (recipients blk) = Ok ch1"
    "ch_preprocessed_blocks ch' = btm_remove (bh_height (b_header blk)) (ch_preprocessed_blocks ch1)"
    by (auto simp: apply_confirmed_block_def process_outgoing_messages_def Let_def and_then_Ok reset_chain_manager_def reset_manager_def)
  from schedule_targets [OF 1(1)] mail_only_preprocessed [of _ ch1] 1(2) show ?thesis by fastforce
qed

lemma apply_confirmed_chain_ok:
  assumes inv: "chain_ok ch" and run: "apply_confirmed_block ce ch blk lt = Ok ch'"
    and height: "bh_height (b_header blk) = tip_next_block_height (ch_tip_state ch)" and small: "length (ch_outboxes ch') < 2 ^ 32"
  shows "chain_ok ch'"
proof -
  let ?n = "tip_next_block_height (ch_tip_state ch)" and ?n' = "tip_next_block_height (ch_tip_state ch')"
  let ?ch = "ch\<lparr> ch_execution_state_hash := Some (bh_state_hash (b_header blk)) \<rparr>"
  obtain ch1 where fold: "try_fold (schedule_target blk) ?ch (recipients blk) = Ok ch1"
    and same: "ch_outboxes ch' = ch_outboxes ch1" "ch_outbox_counters ch' = ch_outbox_counters ch1" "ch_nonempty_outboxes ch' = ch_nonempty_outboxes ch1"
    by (rule apply_confirmed_block_Ok [OF run])
  have ok: "outboxes_ok ?ch" "outbox_heights ?ch = outbox_heights ch"
    using inv outboxes_ok_same(1,2) [of ?ch ch] by (simp_all add: chain_ok_def)
  from schedule_targets_heights [OF fold ok(1)] small same outboxes_ok_same(2) [OF same]
  have heights: "set (outbox_heights ch' t) \<subseteq> insert ?n (set (outbox_heights ch t))" for t by (simp add: height ok(2))
  have less: "k \<le> ?n \<longleftrightarrow> k < ?n'" for k
    using apply_confirmed_tip [OF run] by (simp add: word_less_nat_alt word_le_nat_alt less_Suc_eq_le)
  have "blocks_known ch'"
    using inv heights unfolding blocks_known_def chain_ok_def apply_confirmed_preprocessed [OF run] height less [symmetric]
    by (fastforce simp: blocks_known_def)
  with confirmed_step_ok [OF _ _ run height small] inv show ?thesis by (simp add: chain_ok_def)
qed

lemma preprocess_chain_ok:
  assumes inv: "chain_ok ch" and run: "preprocess_block ce ch blk = Ok ch'" and small: "length (ch_outboxes ch') < 2 ^ 32"
  shows "chain_ok ch'"
proof (cases "bh_height (b_header blk) < tip_next_block_height (ch_tip_state ch)")
  case True
  with run inv show ?thesis by (simp add: preprocess_block_def Let_def)
next
  case False
  let ?h = "bh_height (b_header blk)"
  from False run obtain ch1 where fold: "try_fold (schedule_target blk) ch (recipients blk) = Ok ch1"
    and ch': "ch' = ch1\<lparr> ch_preprocessed_blocks := btm_insert ?h (h_block (ce_hashes ce) blk) (ch_preprocessed_blocks ch1) \<rparr>"
    by (auto simp: preprocess_block_def process_outgoing_messages_def Let_def and_then_Ok)
  from schedule_targets [OF fold] have mail: "mail_only ch ch1" by simp
  have "set (outbox_heights ch' t) \<subseteq> insert ?h (set (outbox_heights ch t))" for t
    using schedule_targets_heights [OF fold] inv small outboxes_ok_same(2) [of ch' ch1] by (simp add: ch' chain_ok_def)
  moreover have "btm_ok (ch_preprocessed_blocks ch)" using inv by (simp add: chain_ok_def blocks_known_def)
  ultimately have "blocks_known ch'"
    using inv mail_only_preprocessed [OF mail] mail_only_sel(1) [OF mail]
    unfolding chain_ok_def blocks_known_def by (fastforce simp: ch')
  with chain_step_ok [OF chain_step.preprocessed [OF run small]] inv show ?thesis by (simp add: chain_ok_def)
qed

lemma acknowledged_chain_ok:
  assumes "chain_ok ch" "chain_mark_messages_as_received ch target h = Ok (ch', x)"
  shows "chain_ok ch'"
proof -
  from mark_messages_as_received_ok [of ch target h] assms have ok: "outboxes_ok ch'" and mail: "mail_only ch ch'"
    and heights: "outbox_heights ch' = (outbox_heights ch)(target := filter (\<lambda>k. h < k) (outbox_heights ch target))"
    by (auto simp: chain_ok_def)
  have "blocks_known ch'"
    using assms(1) by (auto simp: chain_ok_def blocks_known_def heights mail_only_preprocessed [OF mail] mail_only_sel(1) [OF mail])
  with ok mail_only_log [OF mail] assms(1) show ?thesis by (simp add: chain_ok_def)
qed

section \<open>What the handlers do to the mail\<close>

definition keeps_mail :: "'d worker \<Rightarrow> 'd worker \<Rightarrow> bool" where
  "keeps_mail w w' \<longleftrightarrow> same_mail (wk_chain w) (wk_chain w')"

lemma same_mail_refl [simp]: "same_mail ch ch" and keeps_mail_refl [simp]: "keeps_mail w w"
  by (simp_all add: keeps_mail_def same_mail_def)

lemma same_mail_trans: "same_mail ch ch' \<Longrightarrow> same_mail ch' ch'' \<Longrightarrow> same_mail ch ch''"
  by (simp add: same_mail_def)

lemma keeps_mail_trans: "keeps_mail w w' \<Longrightarrow> keeps_mail w' w'' \<Longrightarrow> keeps_mail w w''"
  by (simp add: keeps_mail_def same_mail_def)

lemma keeps_mail_upd [simp]:
  "keeps_mail w (save w' ch) = same_mail (wk_chain w) ch" "keeps_mail w (w'\<lparr> wk_active := a \<rparr>) = keeps_mail w w'"
  "keeps_mail w (w'\<lparr> wk_state_cache := x \<rparr>) = keeps_mail w w'" "keeps_mail w (w'\<lparr> wk_tracked_chains := y \<rparr>) = keeps_mail w w'"
  "keeps_mail w (w'\<lparr> wk_notifier := z \<rparr>) = keeps_mail w w'"
  by (simp_all add: keeps_mail_def save_def)

lemma same_mail_upd [simp]:
  "same_mail ch (ch'\<lparr> ch_manager := a \<rparr>) = same_mail ch ch'" "same_mail ch (ch'\<lparr> ch_pending_validated_blobs := b \<rparr>) = same_mail ch ch'"
  "same_mail ch (ch'\<lparr> ch_pending_proposed_blobs := c \<rparr>) = same_mail ch ch'" "same_mail ch (ch'\<lparr> ch_execution_state := d \<rparr>) = same_mail ch ch'"
  "same_mail ch (ch'\<lparr> ch_received_certificate_trackers := e \<rparr>) = same_mail ch ch'"
  by (simp_all add: same_mail_def)

lemma keeps_mailD: "keeps_mail w w' \<Longrightarrow> same_mail (wk_chain w) (wk_chain w')"
  by (simp add: keeps_mail_def)

lemma initialize_keeps: "keeps_mail w (fst (initialize_and_save_if_needed ce w now))"
  unfolding initialize_and_save_if_needed_def
  by (auto simp: chain_try_Ok intro: initialize_same_mail intro!: attempt_fst [where Q = "keeps_mail w"])

text \<open>The handlers start with the initialization of the chain.\<close>

lemma initialized_keeps:
  assumes "\<And>w'. keeps_mail w w' \<Longrightarrow> keeps_mail w (fst (f w' ()))"
  shows "keeps_mail w (fst (continue (initialize_and_save_if_needed ce w now) f))"
  using initialize_keeps [of w ce now] assms
  by (auto intro!: continue_fst [where Q = "keeps_mail w"])

lemma process_timeout_keeps: "keeps_mail w (fst (process_timeout ce sto w cert now))"
  unfolding process_timeout_def
  by (rule initialized_keeps)
    (auto simp: Let_def intro!: keeps_mailD attempt_fst [where Q = "keeps_mail w"])

lemma vote_for_leader_timeout_keeps: "keeps_mail w (fst (vote_for_leader_timeout ce w height r now))"
  unfolding vote_for_leader_timeout_def
  by (auto simp: Let_def intro!: attempt_fst [where Q = "keeps_mail w"])

lemma vote_for_fallback_keeps: "keeps_mail w (vote_for_fallback ce w now)"
  by (simp add: vote_for_fallback_def Let_def case_prod_beta split: option.split)

lemma handle_pending_blob_keeps: "keeps_mail w (fst (handle_pending_blob ce w b))"
  unfolding handle_pending_blob_def
  by (auto simp: Let_def split: prod.split intro!: attempt_fst [where Q = "keeps_mail w"])

lemma prepare_chain_info_keeps: "keeps_mail w (fst (prepare_chain_info_response ce w q now))"
  unfolding prepare_chain_info_response_def Let_def
  by (rule initialized_keeps) (intro attempt_fst [where Q = "keeps_mail w"]; simp only: fst_conv)

lemma worker_execute_block_keeps: "keeps_mail w (fst (worker_execute_block ce w ch pb lt round published))"
  unfolding worker_execute_block_def
  by (auto intro!: attempt_fst [where Q = "keeps_mail w"])

lemma stage_block_execution_keeps: "keeps_mail w (fst (stage_block_execution ce sto w pb round published now))"
  unfolding stage_block_execution_def Let_def case_prod_unfold
proof (rule initialized_keeps)
  fix w' assume w': "keeps_mail w w'"
  have run: "keeps_mail w w1" if "worker_execute_block ce w' (wk_chain w') pb now round published = (w1, r)" for w1 r
    using keeps_mail_trans [OF w' worker_execute_block_keeps [of w' ce "wk_chain w'" pb now round published]] that by simp
  show "keeps_mail w (fst (attempt w' (chain_try (chain_current_committee ce (wk_chain w'))) (\<lambda>x.
      attempt w' (chain_try (check_proposal_size sto pb (maximum_block_proposal_size (committee_policy (snd x))))) (\<lambda>_.
      continue (worker_execute_block ce w' (wk_chain w') pb now round published) (\<lambda>w x.
      (w, Ok (Block_new (ce_hashes ce) pb (snd x), case pb_authenticated_signer pb of
         None \<Rightarrow> chain_info_of ce (fst x)
       | Some signer \<Rightarrow> chain_info_of ce (fst x)\<lparr> ci_requested_owner_balance := btm_get (sy_balances (ch_system (fst x))) signer \<rparr>)))))))"
    by (intro attempt_fst [where Q = "keeps_mail w"] continue_fst [where Q = "keeps_mail w"]) (auto intro: w' run)
qed

lemma handle_chain_info_query_keeps: "keeps_mail w (fst (handle_chain_info_query ce sto w q now))"
  unfolding handle_chain_info_query_def Let_def
proof (rule continue_fst [where Q = "keeps_mail w"])
  let ?h = "case qu_request_leader_timeout q of None \<Rightarrow> (w, Ok ()) | Some (height, r) \<Rightarrow> vote_for_leader_timeout ce w height r now"
  have first: "keeps_mail w (fst ?h)" using vote_for_leader_timeout_keeps by (auto split: option.split)
  show "keeps_mail w w1" if "?h = (w1, Err e)" for w1 e using first that by (cases ?h) auto
  fix w1 u assume "?h = (w1, Ok u)"
  with first have w1: "keeps_mail w w1" by (cases ?h) auto
  let ?w = "if qu_request_fallback q then vote_for_fallback ce w1 now else w1"
  have "keeps_mail w ?w" using vote_for_fallback_keeps [of w1 ce now] w1 by (auto intro: keeps_mail_trans)
  then have "keeps_mail w (fst (prepare_chain_info_response ce ?w q now))"
    using prepare_chain_info_keeps [of ?w] by (blast intro: keeps_mail_trans)
  then show "keeps_mail w (fst (continue (prepare_chain_info_response ce ?w q now) (\<lambda>w info.
      attempt w (if qu_create_network_actions q then create_network_actions ce sto w (wk_chain w) None else Ok no_actions) (\<lambda>actions.
      (w, Ok (info, actions))))))"
    by (auto intro!: attempt_fst [where Q = "keeps_mail w"] continue_fst [where Q = "keeps_mail w"])
qed

lemma receive_bundles_same_mail: "receive_bundles ce origin lt previous ch bs = Ok ch' \<Longrightarrow> same_mail ch ch'"
proof (induction bs arbitrary: previous ch)
  case (Cons b bs)
  then obtain ch1 where 1: "receive_message_bundle ce ch origin b lt (previous \<noteq> Some (mb_height b)) = Ok ch1"
    and 2: "receive_bundles ce origin lt (Some (mb_height b)) ch1 bs = Ok ch'"
    by (auto simp: and_then_Ok)
  from receive_same_mail [OF 1] Cons.IH [OF 2] show ?case by (rule same_mail_trans)
qed simp

lemma process_cross_chain_update_keeps: "keeps_mail w (fst (process_cross_chain_update ce w origin bundles now))"
proof -
  have receive: "keeps_mail w (fst (attempt w (chain_try (receive_bundles ce origin now None (wk_chain w) bs)) (\<lambda>ch.
      if P ch then (w, Ok None) else (save w ch, Ok (f ch)))))" for bs P and f :: "_ \<Rightarrow> block_height option"
    by (rule attempt_fst [where Q = "keeps_mail w"]) (auto simp: chain_try_Ok intro: receive_bundles_same_mail)
  have cases: "keeps_mail w (fst (if b then x else y))" if "keeps_mail w (fst x)" "keeps_mail w (fst y)"
    for b and x y :: "('a, block_height option) handled" using that by simp
  show ?thesis
    unfolding process_cross_chain_update_def Let_def
    by (intro attempt_fst [where Q = "keeps_mail w"] cases receive) (simp_all only: fst_conv keeps_mail_refl)
qed

lemma load_proposal_blobs_keeps: "keeps_mail w (fst (load_proposal_blobs ce sto w p))"
  unfolding load_proposal_blobs_def Let_def
  by (auto intro!: attempt_fst [where Q = "keeps_mail w"])

lemma vote_on_proposal_keeps: "keeps_mail w (fst (vote_on_proposal ce sto w executed p out now old_round))"
  unfolding vote_on_proposal_def Let_def
  by (auto intro!: attempt_fst [where Q = "keeps_mail w"])

lemma handle_block_proposal_keeps: "keeps_mail w (fst (handle_block_proposal ce sto w p now later))"
  unfolding handle_block_proposal_def Let_def case_prod_unfold
proof (rule initialized_keeps)
  fix w1 assume w1: "keeps_mail w w1"
  let ?c = "wk_chain w1" and ?pb = "pc_block (bp_content p)"
  define u where "u = (if snd (update_signed_proposal (ch_manager ?c) p now)
    then save w1 (?c\<lparr> ch_manager := fst (update_signed_proposal (ch_manager ?c) p now) \<rparr>) else w1)"
  have u: "keeps_mail w u" using w1 keeps_mailD [OF w1] by (simp add: u_def)
  have loaded: "keeps_mail w w2" if "load_proposal_blobs ce sto u p = (w2, r)" for w2 r
    using keeps_mail_trans [OF u load_proposal_blobs_keeps [of u ce sto p]] that by simp
  have vote: "keeps_mail w (fst (vote_on_proposal ce sto w2 executed p out later r))" if "keeps_mail w w2" for w2 executed out r
    using that vote_on_proposal_keeps by (rule keeps_mail_trans)
  have executed: "keeps_mail w w3" if "keeps_mail w w2" "worker_execute_block ce w2 ch ?pb later k bs = (w3, r)" for w2 ch k bs w3 r
    using keeps_mail_trans [OF that(1) worker_execute_block_keeps [of w2 ce ch ?pb later k bs]] that(2) by simp
  have run: "keeps_mail w (fst (case pc_outcome (bp_content p) of
      None \<Rightarrow> continue (worker_execute_block ce w2 ch ?pb later k bs) (\<lambda>w x. vote_on_proposal ce sto w (fst x) p (snd x) later r)
    | Some out \<Rightarrow> vote_on_proposal ce sto w2 ch p out later r))" if "keeps_mail w w2" for w2 ch k bs r
    using that by (auto intro!: continue_fst [where Q = "keeps_mail w"] intro: vote executed split: option.split)
  have skip: "keeps_mail w (fst (if b then (w1, x) else y))" if "keeps_mail w (fst y)" for b x and y :: "('a, network_actions) handled"
    using that w1 by simp
  show "keeps_mail w (fst (attempt w1 (check_proposal ce sto ?c p) (\<lambda>outcome. if outcome = OutcomeSkip then (w1, Ok no_actions)
      else continue (load_proposal_blobs ce sto (if snd (update_signed_proposal (ch_manager ?c) p now)
          then save w1 (?c\<lparr> ch_manager := fst (update_signed_proposal (ch_manager ?c) p now) \<rparr>) else w1) p) (\<lambda>w published.
        attempt w (ensure (duration_since (pb_timestamp ?pb) now \<le> wc_grace_period (wk_config w)) InvalidTimestamp) (\<lambda>_.
        attempt w (chain_try (remove_bundles_from_inboxes ce (wk_chain w) (pb_timestamp ?pb) True (incoming_bundles_in (pb_transactions ?pb)))) (\<lambda>ch.
        case pc_outcome (bp_content p) of
          None \<Rightarrow> continue (worker_execute_block ce w ch ?pb later (multi_leader (pc_round (bp_content p))) published) (\<lambda>w x.
            vote_on_proposal ce sto w (fst x) p (snd x) later (cm_current_round (ch_manager ?c)))
        | Some out \<Rightarrow> vote_on_proposal ce sto w ch p out later (cm_current_round (ch_manager ?c))))))))"
    unfolding u_def [symmetric]
    by (intro attempt_fst [where Q = "keeps_mail w"] continue_fst [where Q = "keeps_mail w"] skip run w1) (auto intro: loaded)
qed

lemma process_validated_block_keeps: "keeps_mail w (fst (process_validated_block ce sto w cert now))"
proof -
  have stop: "keeps_mail w (fst (if b then (w', x) else y))" if "keeps_mail w w'" "keeps_mail w (fst y)"
    for b x w' and y :: "('a, network_actions \<times> block_outcome) handled" using that by simp
  have blobs: "keeps_mail w (fst (if b then attempt w' r (\<lambda>v. (save w' (wk_chain w'\<lparr> ch_pending_validated_blobs := v \<rparr>), Err e))
      else attempt (save w' (wk_chain w'\<lparr> ch_manager := m \<rparr>)) r' (\<lambda>actions. (save w' (wk_chain w'\<lparr> ch_manager := m \<rparr>), Ok (actions, out)))))"
    if "keeps_mail w w'" for b w' m r r' e and out :: block_outcome
    using that keeps_mailD [OF that] by (auto intro!: attempt_fst [where Q = "keeps_mail w"])
  show ?thesis
    unfolding process_validated_block_def Let_def case_prod_unfold
    by (rule initialized_keeps) (intro attempt_fst [where Q = "keeps_mail w"] stop blobs; assumption)
qed

lemma worker_update_trackers_keeps: "keeps_mail w (worker_update_trackers w trackers)"
  by (simp add: worker_update_trackers_def update_received_certificate_trackers_def)

text \<open>A confirmed block and an acknowledgement change the mail and keep the invariant.\<close>

definition safe :: "'d worker \<Rightarrow> 'd worker \<Rightarrow> bool" where
  "safe w w' \<longleftrightarrow> (chain_ok (wk_chain w) \<longrightarrow> length (ch_outboxes (wk_chain w')) < 2 ^ 32 \<longrightarrow> chain_ok (wk_chain w'))"

lemma keeps_safe: "keeps_mail w w' \<Longrightarrow> safe w w'"
  using same_mail_chain_ok [of "wk_chain w" "wk_chain w'"] by (simp add: safe_def keeps_mail_def)

lemma register_chain [simp]: "wk_chain (fst (register_delivery_notifier w height actions waiter)) = wk_chain w"
  by (simp add: register_delivery_notifier_def split: option.split)

lemma track_chain [simp]: "wk_chain (track_newly_created_chains w pb out) = wk_chain w"
  by (simp add: track_newly_created_chains_def split: option.split)

lemma execute_confirmed_mail:
  assumes "execute_confirmed ce sto w ch blk published now = (w', r)"
  shows "keeps_mail w w'" "r = Ok (ch', out) \<Longrightarrow> same_mail ch ch'"
  using assms by (auto simp: execute_confirmed_def chain_try_Ok dest: execute_same_mail split: option.splits if_splits prod.splits)

lemma apply_confirmed_safe:
  assumes w': "keeps_mail w w'" and height: "bh_height (b_header blk) = next_height w"
    and 1: "chain_try (remove_bundles_from_inboxes ce (wk_chain w') ts must bundles) = Ok ch"
    and 2: "execute_confirmed ce sto w' ch blk published now = (w1, Ok x)" and 3: "chain_try (apply_confirmed_block ce (fst x) blk now) = Ok ch'"
  shows "safe w (fst (register_delivery_notifier (save w2 ch') h actions waiter))"
proof -
  from 1 have "same_mail (wk_chain w') ch" by (auto simp: chain_try_Ok intro: remove_same_mail)
  moreover have "same_mail ch (fst x)" using execute_confirmed_mail(2) [OF 2, of "fst x" "snd x"] by simp
  ultimately have same: "same_mail (wk_chain w) (fst x)" using keeps_mailD [OF w'] by (simp add: same_mail_def)
  then have "bh_height (b_header blk) = tip_next_block_height (ch_tip_state (fst x))" using height by (simp add: same_mail_def)
  with apply_confirmed_chain_ok [of "fst x" ce blk now ch'] 3 same_mail_chain_ok [OF same] show ?thesis
    by (simp add: safe_def save_def chain_try_Ok)
qed

lemma finish_confirmed_safe:
  assumes "bh_height (b_header (c_value cert)) = next_height w"
  shows "safe w (fst (finish_confirmed ce sto w cert blobs waiter now))"
proof -
  have init: "keeps_mail w w'" if "initialize_and_save_if_needed ce w now = (w', r)" for w' r
    using initialize_keeps [of w ce now] that by simp
  have run: "keeps_mail w w2" if "keeps_mail w w'" "execute_confirmed ce sto w' ch blk published now = (w2, r)" for w' w2 ch blk published r
    using keeps_mail_trans [OF that(1) execute_confirmed_mail(1) [OF that(2)]] .
  have track: "safe w (track_newly_created_chains w' pb out)" if "safe w w'" for w' pb out
    using that by (simp add: safe_def)
  show ?thesis
    unfolding finish_confirmed_def Let_def case_prod_unfold
    apply (intro attempt_fst [where Q = "safe w"] continue_fst [where Q = "safe w"])
                        apply (simp_all only: fst_conv)
    apply (rule apply_confirmed_safe [OF init assms], assumption+)
              apply (blast intro: track keeps_safe init run keeps_mail_refl)+
    done
qed

lemma process_confirmed_block_safe: "safe w (fst (fst (process_confirmed_block ce sto w cert waiter now)))"
proof -
  let ?blk = "c_value cert" and ?h = "bh_height (b_header (c_value cert))" and ?ch = "wk_chain w"
  have w: "safe w w" by (simp add: keeps_safe)
  have register: "safe w (fst (register_delivery_notifier w' ?h actions waiter))" if "safe w w'" for w' actions
    using that by (simp add: safe_def)
  have skip: "safe w (fst (attempt w (create_network_actions ce sto w ?ch None) (\<lambda>actions.
      case register_delivery_notifier w ?h actions waiter of (w, notified) \<Rightarrow> (w, Ok (actions, Skipped, notified)))))"
    unfolding case_prod_unfold by (rule attempt_fst [where Q = "safe w"]) (simp_all add: w register)
  have pre: "safe w (save w ch)" if "preprocess_block ce ?ch ?blk = Ok ch" for ch
    using preprocess_chain_ok [OF _ that] by (simp add: safe_def save_def)
  have ahead: "safe w (fst (attempt w (chain_try (preprocess_block ce ?ch ?blk)) (\<lambda>ch. let w = save w ch in
      attempt w (create_network_actions ce sto w ch None) (\<lambda>actions.
      case register_delivery_notifier w ?h actions waiter of (w, notified) \<Rightarrow> (w, Ok (actions, Preprocessed, notified))))))"
    unfolding Let_def case_prod_unfold
    by (intro attempt_fst [where Q = "safe w"]) (simp_all only: chain_try_Ok fst_conv, simp_all only: register pre w)
  have finish: "safe w (fst (attempt w r (\<lambda>blobs. if next_height w < ?h then x else finish_confirmed ce sto w cert blobs waiter now)))"
    if "safe w (fst x)" "\<not> ?h < next_height w" for r x
    by (rule attempt_fst [where Q = "safe w"]) (use that w finish_confirmed_safe [of cert w] in auto)
  show ?thesis
    unfolding process_confirmed_block_def Let_def
    using w skip finish [OF ahead [unfolded Let_def]] by (simp split: result.split)
qed

section \<open>Acknowledgements\<close>

definition tracks :: "'d worker \<Rightarrow> chain_id \<Rightarrow> bool" where
  "tracks w target = (case wk_tracked_chains w of None \<Rightarrow> True | Some tracked \<Rightarrow> List.member tracked target)"

lemma tracked_targets_mem:
  assumes "outboxes_ok ch"
  shows "set (tracked_targets w ch) = {target. tracks w target \<and> outbox_heights ch target \<noteq> []}"
  using assms by (auto simp: tracked_targets_def tracks_def outboxes_ok_def split: option.split)

lemma outbox_entries_Ok:
  assumes "\<And>t. t \<in> set targets \<Longrightarrow> outbox_heights ch t \<noteq> []"
  shows "outbox_entries ch targets = Ok (map (load_outbox ch) targets)"
proof -
  have "btm_get (ch_outboxes ch) t \<noteq> None" if "t \<in> set targets" for t
    using assms [OF that] by (auto simp: outbox_heights_def load_outbox_def outbox_new_inv split: option.splits)
  then have "list_all (\<lambda>t. btm_get (ch_outboxes ch) t \<noteq> None) targets" by (simp add: list_all_iff)
  then show ?thesis unfolding outbox_entries_def by (simp only: ensure_def if_True) simp
qed

lemma outbox_front:
  assumes "outboxes_ok ch"
  shows "(case bucket_front (outbox_queue (load_outbox ch t)) of None \<Rightarrow> False | Some k \<Rightarrow> k \<le> h) \<longleftrightarrow>
    (\<exists>k \<in> set (outbox_heights ch t). k \<le> h)"
proof -
  from assms have inv: "outbox_inv (load_outbox ch t)" by (simp add: outboxes_ok_def)
  then have "bucket_front (outbox_queue (load_outbox ch t)) = list_front (outbox_heights ch t)" "sorted_wrt (<) (outbox_heights ch t)"
    by (simp_all add: outbox_inv_def outbox_heights_def outbox_items_def bucket_front_items)
  then show ?thesis by (cases "outbox_heights ch t") auto
qed

lemma tracked_delivered_exact:
  assumes inv: "outboxes_ok ch"
  shows "all_messages_to_tracked_chains_delivered_up_to w ch h =
    Ok (\<forall>target. tracks w target \<longrightarrow> (\<forall>k \<in> set (outbox_heights ch target). h < k))"
proof (cases "all_messages_delivered_up_to ch h")
  case True
  then show ?thesis using delivered_exact [OF inv, of h] by (simp add: all_messages_to_tracked_chains_delivered_up_to_def)
next
  case False
  show ?thesis
  proof (cases "wk_tracked_chains w")
    case None
    then show ?thesis
      using False delivered_exact [OF inv, of h] by (simp add: all_messages_to_tracked_chains_delivered_up_to_def tracks_def)
  next
    case (Some tracked)
    let ?ts = "filter (List.member tracked) (ch_nonempty_outboxes ch)"
    have ts: "set ?ts = {target. tracks w target \<and> outbox_heights ch target \<noteq> []}"
      using tracked_targets_mem [OF inv, of w] by (simp add: tracked_targets_def Some)
    have "list_ex (\<lambda>ob. case bucket_front (outbox_queue ob) of None \<Rightarrow> False | Some k \<Rightarrow> k \<le> h) (map (load_outbox ch) ?ts) \<longleftrightarrow>
        (\<exists>t \<in> set ?ts. \<exists>k \<in> set (outbox_heights ch t). k \<le> h)"
      unfolding list_ex_iff by (simp add: outbox_front [OF inv])
    also have "\<dots> \<longleftrightarrow> \<not> (\<forall>target. tracks w target \<longrightarrow> (\<forall>k \<in> set (outbox_heights ch target). h < k))"
      unfolding ts by (force simp: not_less)
    finally have front: "list_ex (\<lambda>ob. case bucket_front (outbox_queue ob) of None \<Rightarrow> False | Some k \<Rightarrow> k \<le> h) (map (load_outbox ch) ?ts) \<longleftrightarrow>
        \<not> (\<forall>target. tracks w target \<longrightarrow> (\<forall>k \<in> set (outbox_heights ch target). h < k))" .
    have "outbox_entries ch ?ts = Ok (map (load_outbox ch) ?ts)"
      using ts by (intro outbox_entries_Ok) blast
    with False front show ?thesis by (simp add: all_messages_to_tracked_chains_delivered_up_to_def Some)
  qed
qed

lemma notify_exact:
  "notifier_notify ns h = (filter (\<lambda>(k, _). h < k) ns, concat (map snd (filter (\<lambda>(k, _). k \<le> h) ns)))"
proof -
  have "filter (\<lambda>(k, _). h < k) ns = (case try_add_one h of Ok first \<Rightarrow> filter (\<lambda>(k, _). first \<le> k) ns | Err _ \<Rightarrow> [])"
  proof (cases "try_add_one h")
    case (Ok n)
    then have "unat n = unat h + 1" by (simp add: try_add_one_Ok)
    then have "n \<le> k \<longleftrightarrow> h < k" for k by (simp add: word_less_nat_alt word_le_nat_alt Suc_le_eq)
    with Ok show ?thesis by simp
  next
    case (Err e)
    then have "2 ^ 64 \<le> unat h + 1"
      by (simp add: try_add_one_def checked_add_def ok_or_def split: option.splits if_splits)
    moreover have "unat k < 2 ^ 64" for k :: block_height using unsigned_less [of k] by simp
    ultimately have "unat k < unat h + 1" for k :: block_height using less_le_trans by blast
    then have "\<not> h < k" for k by (simp add: word_less_nat_alt not_less less_Suc_eq_le)
    with Err show ?thesis by simp
  qed
  note pending = this [symmetric]
  have "filter (\<lambda>e. e \<notin> set (filter (\<lambda>(k, _). h < k) ns)) ns = filter (\<lambda>(k, _). k \<le> h) ns"
    by (rule filter_cong) auto
  then show ?thesis unfolding notifier_notify_def pending Let_def by simp
qed

lemma map_of_filter_later: "h < k \<Longrightarrow> map_of (filter (\<lambda>(k, _). h < k) ns) k = map_of ns k" for h :: block_height
  by (induction ns) auto

text \<open>An acknowledgement completes a delivery when it is the last one up to its height.\<close>

definition completes :: "'d worker \<Rightarrow> 'd worker \<Rightarrow> chain_id \<Rightarrow> block_height \<Rightarrow> bool" where
  "completes w w' target h \<longleftrightarrow> (\<exists>k \<in> set (outbox_heights (wk_chain w) target). k \<le> h) \<and>
    (\<forall>t. tracks w t \<longrightarrow> (\<forall>k \<in> set (outbox_heights (wk_chain w') t). h < k))"

lemma confirm_updated_recipient_exact:
  assumes inv: "outboxes_ok (wk_chain w)"
  obtains w' where "confirm_updated_recipient w target h =
      (w', Ok (if completes w w' target h then concat (map snd (filter (\<lambda>(k, _). k \<le> h) (wk_notifier w))) else []))"
    "outbox_heights (wk_chain w') = (outbox_heights (wk_chain w))(target := filter (\<lambda>k. h < k) (outbox_heights (wk_chain w) target))"
    "wk_notifier w' = (if completes w w' target h then filter (\<lambda>(k, _). h < k) (wk_notifier w) else wk_notifier w)"
    "wk_tracked_chains w' = wk_tracked_chains w"
    "chain_mark_messages_as_received (wk_chain w) target h = Ok (wk_chain w', \<exists>k \<in> set (outbox_heights (wk_chain w) target). k \<le> h)"
proof -
  let ?x = "\<exists>k \<in> set (outbox_heights (wk_chain w) target). k \<le> h"
  from mark_messages_as_received_ok [OF inv, of target h] obtain ch where
    ch: "chain_mark_messages_as_received (wk_chain w) target h = Ok (ch, ?x)" "outboxes_ok ch"
      "outbox_heights ch = (outbox_heights (wk_chain w))(target := filter (\<lambda>k. h < k) (outbox_heights (wk_chain w) target))"
    by blast
  let ?d = "?x \<and> (\<forall>t. tracks w t \<longrightarrow> (\<forall>k \<in> set (outbox_heights ch t). h < k))"
  let ?w = "(save w ch)\<lparr> wk_notifier := (if ?d then filter (\<lambda>(k, _). h < k) (wk_notifier w) else wk_notifier w) \<rparr>"
  have "confirm_updated_recipient w target h =
      (?w, Ok (if ?d then concat (map snd (filter (\<lambda>(k, _). k \<le> h) (wk_notifier w))) else []))"
    by (auto simp: confirm_updated_recipient_def ch(1) tracked_delivered_exact [OF ch(2)] notify_exact attempt_def chain_try_def save_def Let_def)
  moreover have "wk_chain ?w = ch" "wk_tracked_chains ?w = wk_tracked_chains w" "completes w ?w target h = ?d"
    by (simp_all add: save_def completes_def)
  ultimately show thesis using that [of ?w] ch by simp
qed

section \<open>Histories of a worker\<close>

text \<open>
  The worker handles any request, at any time and with any answers of the storage, the network and the
  applications. The counters have 32 bits, so a chain is taken to have fewer than \<open>2 ^ 32\<close> recipients.
\<close>

inductive handles :: "'d worker \<Rightarrow> 'd worker \<Rightarrow> bool" where
  proposal: "handles w (fst (handle_block_proposal ce sto w p now later))"
| validated: "handles w (fst (process_validated_block ce sto w cert now))"
| confirmed: "w' = fst (fst (process_confirmed_block ce sto w certificate waiter now)) \<Longrightarrow>
    length (ch_outboxes (wk_chain w')) < 2 ^ 32 \<Longrightarrow> handles w w'"
| timeout: "handles w (fst (process_timeout ce sto w timeout_certificate now))"
| received: "handles w (fst (process_cross_chain_update ce w origin bundles now))"
| acknowledged: "handles w (fst (confirm_updated_recipient w recipient height))"
| uploaded: "handles w (fst (handle_pending_blob ce w blob))"
| queried: "handles w (fst (handle_chain_info_query ce sto w query now))"
| staged: "handles w (fst (stage_block_execution ce sto w pb round published now))"
| synchronized: "handles w (worker_update_trackers w trackers)"

lemmas handlers_keep_mail = handle_block_proposal_keeps process_validated_block_keeps process_timeout_keeps
  process_cross_chain_update_keeps handle_pending_blob_keeps handle_chain_info_query_keeps
  stage_block_execution_keeps worker_update_trackers_keeps

lemmas handlers_chain_ok = handlers_keep_mail [THEN keeps_mailD, THEN same_mail_chain_ok]

lemma handles_chain_ok:
  assumes "handles w w'" "chain_ok (wk_chain w)"
  shows "chain_ok (wk_chain w')"
  using assms(1)
proof cases
  case (confirmed ce sto certificate waiter now)
  with process_confirmed_block_safe [of w ce sto certificate waiter now] assms(2) show ?thesis by (simp add: safe_def)
next
  case (acknowledged recipient height)
  from assms(2) have "outboxes_ok (wk_chain w)" by (simp add: chain_ok_def)
  then obtain w1 where "fst (confirm_updated_recipient w recipient height) = w1"
    "chain_mark_messages_as_received (wk_chain w) recipient height =
      Ok (wk_chain w1, \<exists>k \<in> set (outbox_heights (wk_chain w) recipient). k \<le> height)"
    by (rule confirm_updated_recipient_exact [where target = recipient and h = height]) simp
  with acknowledged acknowledged_chain_ok [OF assms(2)] show ?thesis by simp
qed (use assms(2) in \<open>simp_all only: handlers_chain_ok\<close>)

definition new_chain :: "'d chain_state \<Rightarrow> bool" where
  "new_chain ch \<longleftrightarrow> fresh_chain ch \<and> ch_preprocessed_blocks ch = []"

lemma history_chain_ok:
  assumes "handles\<^sup>*\<^sup>* w0 w" "new_chain (wk_chain w0)"
  shows "chain_ok (wk_chain w)"
  using assms(1)
proof (induction rule: rtranclp_induct)
  case base
  from assms(2) fresh_chain_ok [of "wk_chain w0"] show ?case
    by (simp add: new_chain_def chain_ok_def blocks_known_def fresh_chain_def outbox_heights_def load_outbox_def outbox_new_inv)
qed (rule handles_chain_ok)

section \<open>Requests to the recipients\<close>

definition block_hash :: "'d chain_state \<Rightarrow> block_height \<Rightarrow> crypto_hash" where
  "block_hash ch h = (if h < tip_next_block_height (ch_tip_state ch) then ch_confirmed_log ch ! unat h
    else the (btm_get (ch_preprocessed_blocks ch) h))"

definition bundles_at :: "hashes \<Rightarrow> storage \<Rightarrow> 'd chain_state \<Rightarrow> chain_id \<Rightarrow> block_height \<Rightarrow> (epoch \<times> message_bundle) list" where
  "bundles_at hs sto ch target h =
    (let blk = c_value (the (sto_certificate sto (block_hash ch h))) in message_bundles_for blk target (h_block hs blk))"

lemma hash_at_Ok:
  assumes "chain_ok ch" "k \<in> set (outbox_heights ch target)"
  shows "hash_at chain ch k = Ok (block_hash ch k)"
    "block_hash ch k \<in> set (ch_confirmed_log ch) \<union> snd ` set (ch_preprocessed_blocks ch)"
proof -
  let ?n = "tip_next_block_height (ch_tip_state ch)"
  have len: "unat k < length (ch_confirmed_log ch)" if "k < ?n" using that assms(1) by (simp add: chain_ok_def log_ok_def word_less_nat_alt)
  have "\<exists>x. btm_get (ch_preprocessed_blocks ch) k = Some x" if "\<not> k < ?n" using that assms by (auto simp: chain_ok_def blocks_known_def)
  with len show "hash_at chain ch k = Ok (block_hash ch k)" by (auto simp: hash_at_def block_hash_def ok_or_def)
  show "block_hash ch k \<in> set (ch_confirmed_log ch) \<union> snd ` set (ch_preprocessed_blocks ch)"
  proof (cases "k < ?n")
    case True
    with len show ?thesis by (simp add: block_hash_def)
  next
    case False
    with \<open>\<not> k < ?n \<Longrightarrow> _\<close> obtain x where "map_of (ch_preprocessed_blocks ch) k = Some x" by auto
    with False map_of_SomeD [OF this] show ?thesis by (force simp: block_hash_def)
  qed
qed

lemma hashes_at_Ok:
  assumes "\<And>k. k \<in> set ks \<Longrightarrow> hash_at chain ch k = Ok (f k)"
  shows "hashes_at chain ch ks = Ok (map f ks)"
proof -
  have "try_fold (\<lambda>acc h. and_then (hash_at chain ch h) (\<lambda>x. Ok (acc @ [x]))) acc ks = Ok (acc @ map f ks)" for acc
    using assms by (induction ks arbitrary: acc) simp_all
  then show ?thesis by (simp add: hashes_at_def)
qed

lemma pending_heights_Ok:
  assumes inv: "outboxes_ok ch" and m: "btm_ok m"
  shows "\<exists>m'. try_fold (\<lambda>m (target, ob). and_then (map_err (\<lambda>_. WViewError) (bucket_elements (outbox_queue ob))) (\<lambda>heights.
      Ok (btm_insert target heights m))) m (zip targets (map (load_outbox ch) targets)) = Ok m' \<and> btm_ok m' \<and>
    btm_get m' = (\<lambda>t. if t \<in> set targets then Some (outbox_heights ch t) else btm_get m t)"
  using m
proof (induction targets arbitrary: m)
  case (Cons t targets)
  from inv have "bucket_elements (outbox_queue (load_outbox ch t)) = Ok (outbox_heights ch t)"
    by (simp add: outboxes_ok_def outbox_inv_def outbox_heights_def outbox_items_def bucket_elements_items)
  with Cons.IH [of "btm_insert t (outbox_heights ch t) m"] Cons.prems show ?case by (auto simp: fun_eq_iff)
qed auto

lemma create_cross_chain_requests_Ok:
  fixes ch :: "'d chain_state"
  assumes inv: "chain_ok ch" and m: "\<And>t ks. (t, ks) \<in> set m \<Longrightarrow> ks = outbox_heights ch t"
    and stored: "\<And>h. h \<in> set (ch_confirmed_log ch) \<union> snd ` set (ch_preprocessed_blocks ch) \<Longrightarrow> sto_certificate sto h \<noteq> None"
  shows "create_cross_chain_requests hs sto chain ch m =
    Ok (map (\<lambda>(t, ks). UpdateRecipient chain t (concat (map (bundles_at hs sto ch t) ks))) m)"
proof -
  let ?ks = "bts_of_list (concat (map snd m))"
  have mem: "k \<in> set ?ks \<longleftrightarrow> (\<exists>t ks. (t, ks) \<in> set m \<and> k \<in> set ks)" for k by force
  have hash: "hash_at chain ch k = Ok (block_hash ch k)" "sto_certificate sto (block_hash ch k) \<noteq> None" if "k \<in> set ?ks" for k
  proof -
    from that mem m obtain t where "k \<in> set (outbox_heights ch t)" by blast
    from hash_at_Ok [OF inv this] stored show "hash_at chain ch k = Ok (block_hash ch k)" "sto_certificate sto (block_hash ch k) \<noteq> None" by blast+
  qed
  define certs where "certs = zip ?ks (map (\<lambda>h. the (sto_certificate sto h)) (map (block_hash ch) ?ks))"
  have cert: "the (map_of certs k) = the (sto_certificate sto (block_hash ch k))" if "(t, ks) \<in> set m" "k \<in> set ks" for t ks k
  proof -
    from that mem have "k \<in> set ?ks" by blast
    then show ?thesis by (simp add: certs_def map_of_zip_map comp_def)
  qed
  have "filter (\<lambda>h. sto_certificate sto h = None) (map (block_hash ch) ?ks) = []"
    using hash(2) by (simp add: filter_empty_conv)
  then have "create_cross_chain_requests hs sto chain ch m = Ok (map (\<lambda>(recipient, heights).
      UpdateRecipient chain recipient (concat (map (\<lambda>h. let cert = the (map_of certs h)
        in message_bundles_for (c_value cert) recipient (h_block hs (c_value cert))) heights))) m)"
    using hashes_at_Ok [of ?ks chain ch "block_hash ch", OF hash(1)] by (simp add: create_cross_chain_requests_def ensure_def Let_def certs_def del: filter_map)
  also have "\<dots> = Ok (map (\<lambda>(t, ks). UpdateRecipient chain t (concat (map (bundles_at hs sto ch t) ks))) m)"
    by (auto simp: cert bundles_at_def Let_def intro!: arg_cong [where f = concat])
  finally show ?thesis .
qed

lemma create_network_actions_Ok:
  fixes ch :: "'d chain_state"
  assumes inv: "chain_ok ch"
    and stored: "\<And>h. h \<in> set (ch_confirmed_log ch) \<union> snd ` set (ch_preprocessed_blocks ch) \<Longrightarrow> sto_certificate sto h \<noteq> None"
  shows "\<exists>actions. create_network_actions ce sto w ch old_round = Ok actions \<and> distinct (na_cross_chain_requests actions) \<and>
    set (na_cross_chain_requests actions) =
      {UpdateRecipient (xc_chain_id (ce_ctx ce)) t (concat (map (bundles_at (ce_hashes ce) sto ch t) (outbox_heights ch t))) |
        t. tracks w t \<and> outbox_heights ch t \<noteq> []}"
proof -
  let ?ts = "tracked_targets w ch" and ?chain = "xc_chain_id (ce_ctx ce)"
  let ?r = "\<lambda>(t, ks). UpdateRecipient ?chain t (concat (map (bundles_at (ce_hashes ce) sto ch t) ks))"
  from inv have ok: "outboxes_ok ch" by (simp add: chain_ok_def)
  note ts = tracked_targets_mem [OF ok, of w]
  have entries: "outbox_entries ch ?ts = Ok (map (load_outbox ch) ?ts)" using ts by (intro outbox_entries_Ok) blast
  from pending_heights_Ok [OF ok btm_ok_Nil, of ?ts] obtain m where
    m: "try_fold (\<lambda>m (target, ob). and_then (map_err (\<lambda>_. WViewError) (bucket_elements (outbox_queue ob))) (\<lambda>heights.
      Ok (btm_insert target heights m))) [] (zip ?ts (map (load_outbox ch) ?ts)) = Ok m" "btm_ok m"
    "btm_get m = (\<lambda>t. if t \<in> set ?ts then Some (outbox_heights ch t) else btm_get [] t)" by blast
  have mem: "(t, ks) \<in> set m \<longleftrightarrow> t \<in> set ?ts \<and> ks = outbox_heights ch t" for t ks
    using btm_get_iff_mem [OF m(2), of t ks] by (auto simp: m(3) split: if_splits)
  from create_cross_chain_requests_Ok [OF inv _ stored, of m "ce_hashes ce" ?chain] mem
  have requests: "create_cross_chain_requests (ce_hashes ce) sto ?chain ch m = Ok (map ?r m)" by simp
  have "inj_on ?r (set m)" by (auto simp: inj_on_def mem)
  then have "distinct (map ?r m)" using btm_ok_distinct [OF m(2)] by (simp add: distinct_map)
  moreover have "set (map ?r m) = {UpdateRecipient ?chain t (concat (map (bundles_at (ce_hashes ce) sto ch t) (outbox_heights ch t))) |
      t. tracks w t \<and> outbox_heights ch t \<noteq> []}"
    using mem ts by (force simp: image_iff)
  moreover have "\<exists>actions. create_network_actions ce sto w ch old_round = Ok actions \<and> na_cross_chain_requests actions = map ?r m"
    by (simp add: create_network_actions_def entries m(1) requests Let_def)
  ultimately show ?thesis by metis
qed

section \<open>Properties\<close>

text \<open>
  \<^bold>\<open>C8\<close>. Over any history of a worker that starts with a new chain, the requests to the recipients can be built
  whenever the storage has the certificates of the blocks that the chain knows: no outbox and no hash is missing.
  There is exactly one request for every tracked recipient with undelivered messages, and it holds
  the bundles of all the blocks in its outbox, in the order of their heights.
\<close>

theorem pending_messages_requested:
  assumes "handles\<^sup>*\<^sup>* w0 w" "new_chain (wk_chain w0)"
    and "\<And>h. h \<in> set (ch_confirmed_log (wk_chain w)) \<union> snd ` set (ch_preprocessed_blocks (wk_chain w)) \<Longrightarrow> sto_certificate sto h \<noteq> None"
  shows "\<exists>actions. create_network_actions ce sto w (wk_chain w) old_round = Ok actions \<and> distinct (na_cross_chain_requests actions) \<and>
    set (na_cross_chain_requests actions) =
      {UpdateRecipient (xc_chain_id (ce_ctx ce)) t
          (concat (map (bundles_at (ce_hashes ce) sto (wk_chain w) t) (outbox_heights (wk_chain w) t))) |
        t. tracks w t \<and> outbox_heights (wk_chain w) t \<noteq> []}"
  using create_network_actions_Ok [OF history_chain_ok [OF assms(1,2)] assms(3)] .

text \<open>
  \<^bold>\<open>C9\<close>. Over any history of a worker, an acknowledgement never fails. It takes the heights up to the acknowledged
  one off the outbox of the recipient, and notifies the waiters of these heights exactly when it took some
  height off and no tracked recipient has a message up to the acknowledged height left. So a waiter is only
  notified when all messages up to its height have arrived.
\<close>

theorem acknowledgement_exact:
  assumes "handles\<^sup>*\<^sup>* w0 w" "new_chain (wk_chain w0)"
  shows "\<exists>w'. confirm_updated_recipient w target h =
      (w', Ok (if completes w w' target h then concat (map snd (filter (\<lambda>(k, _). k \<le> h) (wk_notifier w))) else [])) \<and>
    outbox_heights (wk_chain w') = (outbox_heights (wk_chain w))(target := filter (\<lambda>k. h < k) (outbox_heights (wk_chain w) target)) \<and>
    wk_notifier w' = (if completes w w' target h then filter (\<lambda>(k, _). h < k) (wk_notifier w) else wk_notifier w)"
proof -
  from history_chain_ok [OF assms] have "outboxes_ok (wk_chain w)" by (simp add: chain_ok_def)
  then show ?thesis by (rule confirm_updated_recipient_exact [of w target h]) blast
qed


section \<open>A worker that learns of two blocks ahead of its chain\<close>

definition demo_sending :: "chain_id \<Rightarrow> block_height \<Rightarrow> block" where
  "demo_sending t h = Block_new demo_hashes (demo_proposed_block\<lparr> pb_chain_id := 5, pb_height := h \<rparr>)
    (demo_outcome\<lparr> beo_messages := [[demo_outgoing t]], beo_state_hash := ucast h \<rparr>)"

definition demo_certificate :: "chain_id \<Rightarrow> block_height \<Rightarrow> block certificate" where
  "demo_certificate t h = \<lparr> c_value = demo_sending t h, c_round = MultiLeader 0, c_signatures = [(1, 1)] \<rparr>"

definition demo_mail :: storage where
  "demo_mail = demo_storage\<lparr> sto_certificate := map_of [(3, demo_certificate 7 3), (4, demo_certificate 6 4)] \<rparr>"

lemma demo_sending_simps:
  "bh_height (b_header (demo_sending t h)) = h" "bh_epoch (b_header (demo_sending t h)) = 0" "recipients (demo_sending t h) = [t]"
  "bb_messages (b_body (demo_sending t h)) = [[demo_outgoing t]]" "bb_previous_message_blocks (b_body (demo_sending t h)) = []"
  "h_block (ce_hashes demo_env) (demo_sending t h) = ucast h" "created_blobs (demo_sending t h) = []"
  "h \<noteq> 0 \<Longrightarrow> required_blob_ids (demo_sending t h) = []"
  by (simp_all add: demo_sending_def Block_new_def demo_proposed_block_def demo_outcome_def recipients_def bts_of_list_def
      demo_outgoing_def OutgoingMessage_new_def demo_env_def demo_crypto_def demo_hashes_def created_blobs_def btm_of_list_def
      required_blob_ids_def block_published_blob_ids_def created_blob_ids_def block_oracle_blob_ids_def oracle_blob_ids_in_def operations_in_def List.map_filter_def)

lemma demo_ahead_preprocessed:
  assumes ch: "btm_get (ch_outboxes ch) t = None" "tip_next_block_height (ch_tip_state ch) = 0" and h: "h \<in> {3, 4}"
  shows "\<exists>ob c n. preprocess_block demo_env ch (demo_sending t h) = Ok (ch\<lparr> ch_outboxes := btm_insert t ob (ch_outboxes ch),
      ch_outbox_counters := c, ch_nonempty_outboxes := n, ch_preprocessed_blocks := btm_insert h (ucast h) (ch_preprocessed_blocks ch) \<rparr>) \<and>
    outbox_items ob = [h]"
proof -
  from h obtain k where k: "try_add_one h = Ok k"
    by (auto simp: try_add_one_def checked_add_def ok_or_def)
  let ?ob = "outbox_new\<lparr> next_height_to_schedule := k, outbox_queue := bucket_push_back (outbox_queue outbox_new) h \<rparr>"
  have load: "load_outbox ch t = outbox_new" using ch(1) by (simp add: load_outbox_def)
  have sched: "schedule_message outbox_new h = (?ob, Ok True)"
    by (simp add: schedule_message_def k) (simp add: outbox_new_def)
  have "last_scheduled_hash ch outbox_new = Ok None"
    by (simp add: last_scheduled_hash_def outbox_new_def try_sub_one_def checked_sub_def ok_or_def)
  moreover have "next_height_to_schedule outbox_new = 0" by (simp add: outbox_new_def)
  ultimately have "may_schedule ch (demo_sending t h) t outbox_new = Ok True"
    using h ch(2) by (auto simp: may_schedule_def demo_sending_simps Let_def)
  with sched load obtain c n where "schedule_target (demo_sending t h) ch t = Ok (ch\<lparr> ch_outboxes := btm_insert t ?ob (ch_outboxes ch),
      ch_outbox_counters := c, ch_nonempty_outboxes := n \<rparr>)"
    by (fastforce simp: schedule_target_def demo_sending_simps Let_def chain_arith_def)
  moreover have "outbox_items ?ob = [h]"
    using schedule_message_Ok(2) [OF outbox_new_inv(1) sched] by (simp add: outbox_new_inv(2))
  ultimately show ?thesis
    using ch(2) by (auto simp: preprocess_block_def process_outgoing_messages_def demo_sending_simps Let_def intro!: exI [of _ ?ob] exI [of _ c] exI [of _ n])
qed

definition demo_waiting :: "unit worker \<Rightarrow> bool" where
  "demo_waiting w \<longleftrightarrow> chain_ok (wk_chain w) \<and> next_height w = 0 \<and> wk_tracked_chains w = None \<and> ch_confirmed_log (wk_chain w) = [] \<and>
    btm_get (sy_committees (ch_system (wk_chain w))) 0 = Some demo_single \<and> length (ch_outboxes (wk_chain w)) < 5 \<and>
    snd ` set (ch_preprocessed_blocks (wk_chain w)) \<subseteq> {3, 4}"

lemma length_btm_insert: "length (btm_insert k v m) \<le> Suc (length m)"
  by (induction k v m rule: btm_insert.induct) auto

lemma demo_requests:
  assumes "demo_waiting w" "outbox_heights (wk_chain w) t = [h]" "(t, h) \<in> {(7, 3), (6, 4)}"
    "btm_get (ch_preprocessed_blocks (wk_chain w)) h = Some (ucast h)"
  shows "\<exists>actions. create_network_actions demo_env demo_mail w (wk_chain w) None = Ok actions \<and>
    list_ex (\<lambda>r. has_messages_lower_or_equal_than r h) (na_cross_chain_requests actions)"
proof -
  let ?ch = "wk_chain w"
  from assms(1) have "sto_certificate demo_mail x \<noteq> None" if "x \<in> set (ch_confirmed_log ?ch) \<union> snd ` set (ch_preprocessed_blocks ?ch)" for x
    using that by (auto simp: demo_waiting_def demo_mail_def)
  with assms(1) create_network_actions_Ok [of ?ch demo_mail demo_env w None] obtain actions where
    actions: "create_network_actions demo_env demo_mail w ?ch None = Ok actions"
    "set (na_cross_chain_requests actions) = {UpdateRecipient (xc_chain_id (ce_ctx demo_env)) t
      (concat (map (bundles_at (ce_hashes demo_env) demo_mail ?ch t) (outbox_heights ?ch t))) | t. tracks w t \<and> outbox_heights ?ch t \<noteq> []}"
    by (auto simp: demo_waiting_def)
  have "block_hash ?ch h = ucast h" "tracks w t" using assms by (auto simp: block_hash_def demo_waiting_def tracks_def)
  then have "bundles_at (ce_hashes demo_env) demo_mail ?ch t h = message_bundles_for (demo_sending t h) t (ucast h)"
    using assms(3) by (auto simp: bundles_at_def demo_mail_def demo_certificate_def demo_sending_simps)
  then have "UpdateRecipient (xc_chain_id (ce_ctx demo_env)) t (message_bundles_for (demo_sending t h) t (ucast h)) \<in> set (na_cross_chain_requests actions)"
    using \<open>tracks w t\<close> assms(2) unfolding actions(2) by force
  moreover have "has_messages_lower_or_equal_than (UpdateRecipient c t (message_bundles_for (demo_sending t h) t x)) h" for c x
    by (simp add: has_messages_lower_or_equal_than_def message_bundles_for_def demo_sending_simps demo_outgoing_def OutgoingMessage_new_def Let_def)
  ultimately show ?thesis using actions(1) by (auto simp: list_ex_iff)
qed

lemma demo_learns:
  assumes w: "demo_waiting w" and t: "btm_get (ch_outboxes (wk_chain w)) t = None" "(t, h) \<in> {(7, 3), (6, 4)}"
    and small: "length (ch_outboxes (wk_chain w)) < 4" and w': "w' = fst (fst (process_confirmed_block demo_env demo_mail w (demo_certificate t h) (Some n) 0))"
  shows "handles w w'" "demo_waiting w'" "outbox_heights (wk_chain w') = (outbox_heights (wk_chain w))(t := [h])"
    "wk_notifier w' = notifier_register (wk_notifier w) h n" "length (ch_outboxes (wk_chain w')) \<le> Suc (length (ch_outboxes (wk_chain w)))"
    "\<And>t'. t' \<noteq> t \<Longrightarrow> btm_get (ch_outboxes (wk_chain w')) t' = btm_get (ch_outboxes (wk_chain w)) t'"
proof -
  let ?ch = "wk_chain w" and ?b = "demo_sending t h"
  from w have ok: "chain_ok ?ch" "next_height w = 0" "btm_get (sy_committees (ch_system ?ch)) 0 = Some demo_single"
    by (simp_all add: demo_waiting_def)
  from ok(1) have maps: "btm_ok (ch_outboxes ?ch)" "btm_ok (ch_preprocessed_blocks ?ch)"
    by (simp_all add: chain_ok_def outboxes_ok_def blocks_known_def)
  from demo_ahead_preprocessed [OF t(1), of h] ok(2) t(2) obtain ob c m where
    run: "preprocess_block demo_env ?ch ?b = Ok (?ch\<lparr> ch_outboxes := btm_insert t ob (ch_outboxes ?ch),
      ch_outbox_counters := c, ch_nonempty_outboxes := m, ch_preprocessed_blocks := btm_insert h (ucast h) (ch_preprocessed_blocks ?ch) \<rparr>)"
    and ob: "outbox_items ob = [h]" by auto
  let ?ch' = "?ch\<lparr> ch_outboxes := btm_insert t ob (ch_outboxes ?ch), ch_outbox_counters := c, ch_nonempty_outboxes := m,
    ch_preprocessed_blocks := btm_insert h (ucast h) (ch_preprocessed_blocks ?ch) \<rparr>"
  let ?w = "save w ?ch'"
  have len: "length (ch_outboxes ?ch') \<le> Suc (length (ch_outboxes ?ch))" using length_btm_insert [of t ob "ch_outboxes ?ch"] by simp
  have heights: "outbox_heights ?ch' = (outbox_heights ?ch)(t := [h])"
    using load_outbox_insert [OF maps(1), of t ob] ob by (simp add: outbox_heights_def fun_eq_iff load_outbox_def)
  have "chain_ok ?ch'" using preprocess_chain_ok [OF ok(1) run] len small by simp
  moreover have "snd ` set (ch_preprocessed_blocks ?ch') \<subseteq> insert (ucast h) {3, 4}"
    using w btm_insert_values [of h "ucast h :: crypto_hash" "ch_preprocessed_blocks ?ch"] unfolding demo_waiting_def by simp blast
  then have "snd ` set (ch_preprocessed_blocks ?ch') \<subseteq> {3, 4}" using t(2) by auto
  ultimately have waiting: "demo_waiting ?w" using w len small by (simp add: demo_waiting_def save_def)
  have "wk_chain ?w = ?ch'" "btm_get (ch_preprocessed_blocks ?ch') h = Some (ucast h)" using maps(2) by (simp_all add: save_def)
  with demo_requests [OF waiting _ t(2)] heights obtain actions where
    actions: "create_network_actions demo_env demo_mail ?w ?ch' None = Ok actions"
      "list_ex (\<lambda>r. has_messages_lower_or_equal_than r h) (na_cross_chain_requests actions)" by auto
  have "committee_for_block demo_mail ?ch 0 = Ok demo_single" by (simp add: committee_for_block_def ok(3))
  moreover have "check_certificate demo_env (confirmed_value (ce_hashes demo_env)) (demo_certificate t h) demo_single = Ok ()"
    by (simp add: check_certificate_def chain_try_def certificate_check_def check_signatures_def quorum_step_def demo_single_def Committee_new_def
        weight_def ensure_def demo_env_def demo_crypto_def demo_certificate_def)
  moreover have "get_required_blobs demo_mail ?ch [] [] = Ok []"
    by (simp add: get_required_blobs_def maybe_get_required_blobs_def bts_of_list_def missing_blob_ids_def found_blobs_def List.map_filter_def ensure_def Let_def)
  moreover have "h \<noteq> 0" "0 < h" using t(2) by auto
  ultimately have eq: "w' = ?w\<lparr> wk_notifier := notifier_register (wk_notifier w) h n \<rparr>"
    using actions run
    by (simp add: w' process_confirmed_block_def demo_certificate_def demo_sending_simps ok(2) Let_def attempt_def chain_try_def register_delivery_notifier_def)
      (simp add: save_def)
  have chain: "wk_chain w' = ?ch'" by (simp add: eq save_def)
  show "handles w w'" using handles.confirmed [OF w'] len small by (simp add: chain)
  show "demo_waiting w'" using waiting by (simp add: eq demo_waiting_def)
  show "outbox_heights (wk_chain w') = (outbox_heights ?ch)(t := [h])" "wk_notifier w' = notifier_register (wk_notifier w) h n"
    "length (ch_outboxes (wk_chain w')) \<le> Suc (length (ch_outboxes ?ch))"
    using len heights by (simp_all add: eq save_def)
  show "btm_get (ch_outboxes (wk_chain w')) t' = btm_get (ch_outboxes ?ch) t'" if "t' \<noteq> t" for t'
    using that maps(1) by (simp add: chain)
qed

text \<open>The worker after the certificates of the blocks at heights 3 and 4, with a waiter for each.\<close>

definition demo_one :: "unit worker" where
  "demo_one = fst (fst (process_confirmed_block demo_env demo_mail demo_worker (demo_certificate 7 3) (Some 30) 0))"

definition demo_two :: "unit worker" where
  "demo_two = fst (fst (process_confirmed_block demo_env demo_mail demo_one (demo_certificate 6 4) (Some 40) 0))"

lemma demo_history:
  "handles\<^sup>*\<^sup>* demo_worker demo_two" "new_chain (wk_chain demo_worker)" "demo_waiting demo_two"
  "outbox_heights (wk_chain demo_two) = (\<lambda>_. [])(7 := [3], 6 := [4])" "wk_notifier demo_two = [(3, [30]), (4, [40])]"
proof -
  have start: "wk_chain demo_worker = demo_chain" "wk_notifier demo_worker = []" "wk_tracked_chains demo_worker = None" by (simp_all add: demo_worker_def)
  show new: "new_chain (wk_chain demo_worker)"
    using demo_chain_fresh by (simp add: start new_chain_def demo_chain_def)
  have none: "ch_outboxes demo_chain = []" by (simp add: demo_chain_def)
  then have vacant: "outbox_heights demo_chain = (\<lambda>_. [])" by (simp add: fun_eq_iff outbox_heights_def load_outbox_def outbox_new_inv)
  have "demo_waiting demo_worker"
    using history_chain_ok [OF rtranclp.rtrancl_refl new] by (simp add: demo_waiting_def start) (simp add: demo_chain_def)
  note one = demo_learns [OF this _ _ _ demo_one_def]
  have w1: "handles demo_worker demo_one" "demo_waiting demo_one" "outbox_heights (wk_chain demo_one) = (\<lambda>_. [])(7 := [3])"
    "wk_notifier demo_one = [(3, [30])]" "length (ch_outboxes (wk_chain demo_one)) \<le> 1" "btm_get (ch_outboxes (wk_chain demo_one)) 6 = None"
    using one by (simp_all add: start none vacant notifier_register_def fun_eq_iff)
  note two = demo_learns [OF w1(2,6) _ _ demo_two_def]
  then show "demo_waiting demo_two" "outbox_heights (wk_chain demo_two) = (\<lambda>_. [])(7 := [3], 6 := [4])"
    "wk_notifier demo_two = [(3, [30]), (4, [40])]"
    using w1(3-5) by (simp_all add: notifier_register_def)
  have "handles demo_one demo_two" using two(1) w1(5) by simp
  with w1(1) show "handles\<^sup>*\<^sup>* demo_worker demo_two" by (meson converse_rtranclp_into_rtranclp r_into_rtranclp)
qed

theorem pending_messages_requested_witness:
  "\<exists>actions b b'. create_network_actions demo_env demo_mail demo_two (wk_chain demo_two) None = Ok actions \<and>
    length (na_cross_chain_requests actions) = 2 \<and>
    {UpdateRecipient 5 6 b, UpdateRecipient 5 7 b'} \<subseteq> set (na_cross_chain_requests actions)"
proof -
  have "sto_certificate demo_mail x \<noteq> None"
    if "x \<in> set (ch_confirmed_log (wk_chain demo_two)) \<union> snd ` set (ch_preprocessed_blocks (wk_chain demo_two))" for x
    using that demo_history(3) by (auto simp: demo_waiting_def demo_mail_def)
  from pending_messages_requested [OF demo_history(1,2) this, of demo_env None] obtain actions where
    actions: "create_network_actions demo_env demo_mail demo_two (wk_chain demo_two) None = Ok actions" "distinct (na_cross_chain_requests actions)"
    "set (na_cross_chain_requests actions) = {UpdateRecipient (xc_chain_id (ce_ctx demo_env)) t
      (concat (map (bundles_at (ce_hashes demo_env) demo_mail (wk_chain demo_two) t) (outbox_heights (wk_chain demo_two) t))) |
        t. tracks demo_two t \<and> outbox_heights (wk_chain demo_two) t \<noteq> []}" by blast
  let ?r = "\<lambda>t. UpdateRecipient 5 t
    (concat (map (bundles_at (ce_hashes demo_env) demo_mail (wk_chain demo_two) t) (outbox_heights (wk_chain demo_two) t)))"
  have "tracks demo_two t" for t using demo_history(3) by (simp add: demo_waiting_def tracks_def)
  moreover have "xc_chain_id (ce_ctx demo_env) = 5" by (simp add: demo_env_def demo_ctx_def)
  moreover have "outbox_heights (wk_chain demo_two) t \<noteq> [] \<longleftrightarrow> t = 6 \<or> t = 7" for t by (simp add: demo_history(4))
  ultimately have set: "set (na_cross_chain_requests actions) = {?r 6, ?r 7}" unfolding actions(3) by auto
  then have "length (na_cross_chain_requests actions) = 2" using distinct_card [OF actions(2)] by simp
  with set actions(1) show ?thesis by blast
qed

theorem acknowledgement_exact_witness:
  "\<exists>w'. confirm_updated_recipient demo_two 7 3 = (w', Ok [30]) \<and> outbox_heights (wk_chain w') = (\<lambda>_. [])(6 := [4])"
proof -
  from acknowledgement_exact [OF demo_history(1,2), of 7 3] obtain w' where
    w': "confirm_updated_recipient demo_two 7 3 =
        (w', Ok (if completes demo_two w' 7 3 then concat (map snd (filter (\<lambda>(k, _). k \<le> 3) (wk_notifier demo_two))) else []))"
      "outbox_heights (wk_chain w') = (outbox_heights (wk_chain demo_two))(7 := filter (\<lambda>k. 3 < k) (outbox_heights (wk_chain demo_two) 7))"
    by blast
  have "outbox_heights (wk_chain w') = (\<lambda>_. [])(6 := [4])" by (auto simp: w'(2) demo_history(4) fun_eq_iff)
  moreover from this have "completes demo_two w' 7 3" by (auto simp: completes_def demo_history(4))
  ultimately show ?thesis using w'(1) by (simp add: demo_history(5))
qed


end
