(* ===== verification/Dependencies.thy ===== *)
theory Dependencies
  imports Lifecycle
begin

text \<open>
  The order in which the dependencies of an application are loaded
  (\<open>find_dependencies\<close> in \<open>linera-execution/src/system.rs\<close>): the loop over an explicit stack
  terminates and returns a topological sort of the applications that are reachable.
\<close>

section \<open>Depth-first search with an explicit stack\<close>

definition dep_rel :: "('a \<Rightarrow> 'a list) \<Rightarrow> ('a \<times> 'a) set" where
  "dep_rel deps = {(x, y). y \<in> set (deps x)}"

text \<open>
  The state of the search: the stack, the visited nodes and the nodes in the order of the
  result. A node that is visited and not yet in the result is open. Above the topmost entry
  of an open node on the stack are only nodes it depends on, directly or not, and its
  direct dependencies are there or already in the result.
\<close>

definition topological :: "('a \<Rightarrow> 'a list) \<Rightarrow> 'a list \<Rightarrow> bool" where
  "topological deps res \<longleftrightarrow> distinct res \<and> (\<forall>A x B. res = A @ x # B \<longrightarrow> set (deps x) \<subseteq> set A)"

definition open_above :: "('a \<Rightarrow> 'a list) \<Rightarrow> 'a set \<Rightarrow> 'a list \<Rightarrow> 'a list \<Rightarrow> bool" where
  "open_above deps seen res stack \<longleftrightarrow>
    (\<forall>A g B. stack = A @ g # B \<longrightarrow> g \<notin> set A \<longrightarrow> g \<in> seen \<longrightarrow> g \<notin> set res \<longrightarrow>
      set (deps g) \<subseteq> set res \<union> set A \<and> (\<forall>a \<in> set A. (g, a) \<in> (dep_rel deps)\<^sup>+))"

definition search_inv :: "('a \<Rightarrow> 'a list) \<Rightarrow> 'a set \<Rightarrow> 'a list \<Rightarrow> 'a set \<Rightarrow> 'a list \<Rightarrow> bool" where
  "search_inv deps roots stack seen res \<longleftrightarrow>
    topological deps res \<and> open_above deps seen res stack \<and> set res \<subseteq> seen \<and> seen \<subseteq> set res \<union> set stack \<and>
    roots \<subseteq> set res \<union> set stack \<and> set stack \<union> seen \<subseteq> (dep_rel deps)\<^sup>* `` roots"

lemma open_aboveD:
  assumes "open_above deps seen res (A @ g # B)" "g \<notin> set A" "g \<in> seen" "g \<notin> set res"
  shows "set (deps g) \<subseteq> set res \<union> set A" "a \<in> set A \<Longrightarrow> (g, a) \<in> (dep_rel deps)\<^sup>+"
  using assms unfolding open_above_def by blast+

lemma open_above_pop:
  assumes "open_above deps seen res (x # stack)" "x \<in> set res' " "set res \<subseteq> set res'"
  shows "open_above deps seen res' stack"
  unfolding open_above_def
proof (intro allI impI)
  fix A g B
  assume *: "stack = A @ g # B" "g \<notin> set A" "g \<in> seen" "g \<notin> set res'"
  then have "g \<notin> set (x # A)" "g \<notin> set res" using assms(2,3) by auto
  with open_aboveD [of deps seen res "x # A" g B] assms(1) *(1,3)
  have "set (deps g) \<subseteq> set res \<union> set (x # A)" "\<forall>a \<in> set (x # A). (g, a) \<in> (dep_rel deps)\<^sup>+" by auto
  with assms(2,3) show "set (deps g) \<subseteq> set res' \<union> set A \<and> (\<forall>a \<in> set A. (g, a) \<in> (dep_rel deps)\<^sup>+)" by auto
qed

lemma topological_append:
  assumes "topological deps res" "x \<notin> set res" "set (deps x) \<subseteq> set res"
  shows "topological deps (res @ [x])"
  unfolding topological_def
proof (intro conjI allI impI)
  show "distinct (res @ [x])" using assms(1,2) by (simp add: topological_def)
  fix A y B
  assume "res @ [x] = A @ y # B"
  then consider B' where "res = A @ y # B'" | "A = res" "y = x"
    by (cases B rule: rev_cases) auto
  then show "set (deps y) \<subseteq> set A"
    using assms(1,3) by cases (auto simp: topological_def)
qed

lemma search_skip:
  assumes "search_inv deps roots (x # stack) seen res" "x \<in> set res"
  shows "search_inv deps roots stack seen res"
  using assms open_above_pop [of deps seen res x stack res] by (auto simp: search_inv_def)

lemma search_invD:
  assumes "search_inv deps roots stack seen res"
  shows "topological deps res" "open_above deps seen res stack" "set res \<subseteq> seen" "seen \<subseteq> set res \<union> set stack"
    "roots \<subseteq> set res \<union> set stack" "set stack \<union> seen \<subseteq> (dep_rel deps)\<^sup>* `` roots"
  using assms unfolding search_inv_def by simp_all

lemma search_finish:
  assumes inv: "search_inv deps roots (x # stack) seen res" and x: "x \<in> seen" "x \<notin> set res"
  shows "search_inv deps roots stack seen (res @ [x])"
  unfolding search_inv_def
proof (intro conjI)
  note inv = search_invD [OF inv]
  have "set (deps x) \<subseteq> set res"
    using open_aboveD(1) [of deps seen res "[]" x stack] inv(2) x by simp
  then show "topological deps (res @ [x])" by (rule topological_append [OF inv(1) x(2)])
  show "open_above deps seen (res @ [x]) stack" by (rule open_above_pop [OF inv(2)]) auto
  show "set (res @ [x]) \<subseteq> seen" using inv(3) x(1) by simp
  show "seen \<subseteq> set (res @ [x]) \<union> set stack" using inv(4) by simp
  show "roots \<subseteq> set (res @ [x]) \<union> set stack" using inv(5) by simp
  show "set stack \<union> seen \<subseteq> (dep_rel deps)\<^sup>* `` roots" using inv(6) by simp
qed

lemma append_split_after:
  "xs @ ys = A @ g # B \<Longrightarrow> g \<notin> set xs \<Longrightarrow> \<exists>A'. A = xs @ A' \<and> ys = A' @ g # B"
proof (induction xs arbitrary: A)
  case (Cons x xs)
  then show ?case by (cases A) auto
qed simp

lemma open_above_visit:
  assumes acyclic: "acyclic (dep_rel deps)" and inv: "open_above deps seen res (x # stack)"
    and seen: "seen \<subseteq> set res \<union> set (x # stack)" and x: "x \<notin> seen"
  shows "open_above deps (insert x seen) res (filter (\<lambda>c. c \<notin> insert x seen) (deps x) @ x # stack)"
  unfolding open_above_def
proof (intro allI impI)
  let ?new = "filter (\<lambda>c. c \<notin> insert x seen) (deps x)"
  have child: "(x, c) \<in> (dep_rel deps)\<^sup>+" if "c \<in> set (deps x)" for c
    using that by (auto simp: dep_rel_def)
  have above: "(g, x) \<in> (dep_rel deps)\<^sup>+" if g: "g \<in> seen" "g \<notin> set res" for g
  proof -
    have "g \<in> set stack" using seen g x by auto
    then obtain A B where "stack = A @ g # B" "g \<notin> set A" by (meson split_list_first)
    moreover have "g \<noteq> x" using g(1) x by metis
    ultimately show ?thesis using open_aboveD(2) [of deps seen res "x # A" g B x] inv g by simp
  qed
  fix A g B
  assume split: "?new @ x # stack = A @ g # B" and g: "g \<notin> set A" "g \<in> insert x seen" "g \<notin> set res"
  have "g \<notin> set ?new" using g(2) by auto
  then obtain A' where A: "A = ?new @ A'" "x # stack = A' @ g # B"
    using append_split_after [OF split] by metis
  show "set (deps g) \<subseteq> set res \<union> set A \<and> (\<forall>a \<in> set A. (g, a) \<in> (dep_rel deps)\<^sup>+)"
  proof (cases "g = x")
    case True
    have "A' = []"
    proof (cases A')
      case (Cons a A'')
      then have "a = x" using A(2) by simp
      with True g(1) A(1) Cons show ?thesis by simp
    qed simp
    moreover have "c \<in> set res \<union> set ?new" if c: "c \<in> set (deps x)" for c
    proof -
      have "c \<noteq> x" using child [OF c] acyclic by (auto simp: acyclic_def)
      moreover have "c \<notin> seen \<or> c \<in> set res"
        using above [of c] child [OF c] acyclic by (auto simp: acyclic_def dest: trancl_trans)
      ultimately show ?thesis using c by auto
    qed
    ultimately show ?thesis using True A(1) child by auto
  next
    case False
    then have g': "g \<in> seen" "g \<notin> set A'" using g A(1) by auto
    with open_aboveD [of deps seen res A' g B] inv A(2) g(3)
    have *: "set (deps g) \<subseteq> set res \<union> set A'" "\<forall>a \<in> set A'. (g, a) \<in> (dep_rel deps)\<^sup>+" by auto
    have "(g, a) \<in> (dep_rel deps)\<^sup>+" if "a \<in> set ?new" for a
      using above [OF g'(1) g(3)] child [of a] that by (auto dest: trancl_trans)
    with * A(1) show ?thesis by auto
  qed
qed

lemma search_visit:
  assumes acyclic: "acyclic (dep_rel deps)" and inv: "search_inv deps roots (x # stack) seen res" and x: "x \<notin> seen"
  shows "search_inv deps roots (filter (\<lambda>c. c \<notin> insert x seen) (deps x) @ x # stack) (insert x seen) res"
    (is "search_inv _ _ (?new @ _) _ _")
  unfolding search_inv_def
proof (intro conjI)
  note inv = search_invD [OF inv]
  show "topological deps res" by (rule inv(1))
  show "open_above deps (insert x seen) res (?new @ x # stack)" by (rule open_above_visit [OF acyclic inv(2,4) x])
  show "set res \<subseteq> insert x seen" using inv(3) by blast
  have more: "set res \<union> set (x # stack) \<subseteq> set res \<union> set (?new @ x # stack)" by (simp only: set_append) blast
  have "insert x seen \<subseteq> set res \<union> set (x # stack)" using inv(4) by simp
  with more show "insert x seen \<subseteq> set res \<union> set (?new @ x # stack)" by (rule order.trans [rotated])
  show "roots \<subseteq> set res \<union> set (?new @ x # stack)" using inv(5) more by (rule order.trans)
  have x: "x \<in> (dep_rel deps)\<^sup>* `` roots" using inv(6) by simp
  have "set (deps x) \<subseteq> (dep_rel deps)\<^sup>* `` roots"
  proof
    fix c
    assume "c \<in> set (deps x)"
    then have "(x, c) \<in> dep_rel deps" by (simp add: dep_rel_def)
    moreover obtain r where "r \<in> roots" "(r, x) \<in> (dep_rel deps)\<^sup>*" using x by (rule ImageE)
    ultimately show "c \<in> (dep_rel deps)\<^sup>* `` roots" by (blast intro: rtrancl_into_rtrancl)
  qed
  then have "set ?new \<subseteq> (dep_rel deps)\<^sup>* `` roots" by (rule order.trans [OF filter_is_subset])
  with x inv(6) show "set (?new @ x # stack) \<union> insert x seen \<subseteq> (dep_rel deps)\<^sup>* `` roots"
    by (simp only: set_append list.set Un_subset_iff insert_subset)
qed

section \<open>The loop of find dependencies\<close>

definition app_description ::
  "codec \<Rightarrow> exec_ctx \<Rightarrow> (blob_id \<times> blob_content) list \<Rightarrow> application_id \<Rightarrow> application_description option" where
  "app_description cd cx blobs app =
    Option.bind (case btm_get blobs (description_blob_id app) of
                   Some content \<Rightarrow> Some content
                 | None \<Rightarrow> xc_get_blob cx (description_blob_id app))
      (\<lambda>content. cd_decode_application cd (content_bytes content))"

definition app_requires ::
  "codec \<Rightarrow> exec_ctx \<Rightarrow> (blob_id \<times> blob_content) list \<Rightarrow> application_id \<Rightarrow> application_id list" where
  "app_requires cd cx blobs app =
    (case app_description cd cx blobs app of None \<Rightarrow> [] | Some d \<Rightarrow> ad_required_application_ids d)"

definition describable ::
  "codec \<Rightarrow> exec_ctx \<Rightarrow> (blob_id \<times> blob_content) list \<Rightarrow> application_id \<Rightarrow> bool" where
  "describable cd cx blobs app \<longleftrightarrow>
    (case app_description cd cx blobs app of
       None \<Rightarrow> False
     | Some d \<Rightarrow> \<forall>bid \<in> set (bytecode_blob_ids (ad_module_id d)). btm_get blobs bid \<noteq> None \<or> xc_contains_blob cx bid)"

definition recording :: "(blob_id \<times> blob_content) list \<Rightarrow> tracker \<Rightarrow> bool" where
  "recording blobs t \<longleftrightarrow> tt_replaying t = None \<and> tt_blobs t = blobs"

lemma blob_used_recording:
  "recording blobs t \<Longrightarrow> \<exists>s' t' b. blob_used s t bid = Ok (s', t', b) \<and> recording blobs t'"
  by (auto simp: blob_used_def replay_oracle_response_def next_replayed_oracle_response_def recording_def Let_def)

lemma blobs_used_recording:
  "recording blobs t \<Longrightarrow> \<exists>s' t'. blobs_used s t bids = Ok (s', t') \<and> recording blobs t'"
proof (induction bids arbitrary: s t)
  case (Cons bid bids)
  from blob_used_recording [OF Cons.prems, of s bid] obtain s1 t1 b
    where "blob_used s t bid = Ok (s1, t1, b)" "recording blobs t1" by blast
  with Cons.IH [of t1 s1] show ?case by simp
qed simp

lemma check_required_recording:
  assumes "\<And>s t app. app \<in> set apps \<Longrightarrow> recording blobs t \<Longrightarrow>
    \<exists>s' t' d. describe_application fuel cd cx s t app = Ok (s', t', d) \<and> recording blobs t'"
    and "recording blobs t"
  shows "\<exists>s' t'. check_required_applications fuel cd cx s t apps = Ok (s', t') \<and> recording blobs t'"
  using assms
proof (induction apps arbitrary: s t)
  case (Cons app apps)
  from Cons.prems(1) [of app t s] Cons.prems(2) obtain s1 t1 d
    where "describe_application fuel cd cx s t app = Ok (s1, t1, d)" "recording blobs t1" by auto
  moreover from Cons.IH [of t1 s1] Cons.prems(1) this(2)
  obtain s2 t2 where "check_required_applications fuel cd cx s1 t1 apps = Ok (s2, t2)" "recording blobs t2" by auto
  ultimately show ?case by simp
qed simp

lemma describe_recording:
  assumes closed: "\<And>x. x \<in> U \<Longrightarrow> describable cd cx blobs x \<and> set (app_requires cd cx blobs x) \<subseteq> U"
    and rank: "\<And>x y. x \<in> U \<Longrightarrow> y \<in> set (app_requires cd cx blobs x) \<Longrightarrow> rank y < (rank x :: nat)"
  shows "app \<in> U \<Longrightarrow> rank app < fuel \<Longrightarrow> recording blobs t \<Longrightarrow>
    \<exists>s' t' d. describe_application fuel cd cx s t app = Ok (s', t', d) \<and> recording blobs t' \<and>
      ad_required_application_ids d = app_requires cd cx blobs app"
proof (induction fuel arbitrary: app s t)
  case (Suc fuel)
  from closed [OF Suc.prems(1)] obtain content d where
    content: "(case btm_get blobs (description_blob_id app) of Some content \<Rightarrow> Some content
      | None \<Rightarrow> xc_get_blob cx (description_blob_id app)) = Some content"
    and d: "cd_decode_application cd (content_bytes content) = Some d"
    and bytecode: "\<forall>bid \<in> set (bytecode_blob_ids (ad_module_id d)). btm_get blobs bid \<noteq> None \<or> xc_contains_blob cx bid"
    by (auto simp: describable_def app_description_def bind_eq_Some_conv split: option.splits)
  then have req: "app_requires cd cx blobs app = ad_required_application_ids d"
    by (simp add: app_requires_def app_description_def)
  have read: "(case btm_get (tt_blobs t) (description_blob_id app) of Some content \<Rightarrow> Ok content
      | None \<Rightarrow> read_blob_content cx (description_blob_id app)) = Ok content"
    using content Suc.prems(3) by (auto simp: recording_def read_blob_content_def ok_or_def split: option.splits)
  from blob_used_recording [OF Suc.prems(3), of s "description_blob_id app"] obtain s1 t1 b
    where 1: "blob_used s t (description_blob_id app) = Ok (s1, t1, b)" "recording blobs t1" by blast
  have code: "check_bytecode_blobs cx (ad_module_id d) t1 = Ok (bytecode_blob_ids (ad_module_id d))"
    using bytecode 1(2) by (auto simp: check_bytecode_blobs_def recording_def ensure_def Let_def filter_empty_conv)
  from blobs_used_recording [OF 1(2), of s1 "bytecode_blob_ids (ad_module_id d)"] obtain s2 t2
    where 2: "blobs_used s1 t1 (bytecode_blob_ids (ad_module_id d)) = Ok (s2, t2)" "recording blobs t2" by blast
  have "\<exists>s' t' d. describe_application fuel cd cx s t x = Ok (s', t', d) \<and> recording blobs t'"
    if "x \<in> set (ad_required_application_ids d)" "recording blobs t" for s t x
    using Suc.IH [of x t s] that Suc.prems closed [OF Suc.prems(1)] rank [OF Suc.prems(1), of x] req by force
  from check_required_recording [OF this 2(2), of "ad_required_application_ids d"]
  obtain s3 t3 where "check_required_applications fuel cd cx s2 t2 (ad_required_application_ids d) = Ok (s3, t3)"
    "recording blobs t3" by blast
  with 1 2 read code d req show ?case by (simp add: Let_def ok_or_def)
qed simp

text \<open>
  An iteration either pops an entry or visits an application for the first time, which pushes
  at most its dependencies and itself: \<open>search_measure\<close> decreases.
\<close>

definition search_measure :: "('a \<Rightarrow> 'a list) \<Rightarrow> 'a set \<Rightarrow> 'a list \<Rightarrow> 'a set \<Rightarrow> nat" where
  "search_measure deps U stack seen = length stack + (\<Sum>x \<in> U - seen. Suc (length (deps x)))"

lemma search_measure_visit:
  assumes "finite U" "x \<in> U" "x \<notin> seen"
  shows "search_measure deps U (filter P (deps x) @ x # stack) (insert x seen) < search_measure deps U (x # stack) seen"
proof -
  have "(\<Sum>y \<in> U - seen. Suc (length (deps y))) =
      Suc (length (deps x)) + (\<Sum>y \<in> U - insert x seen. Suc (length (deps y)))"
    using sum.remove [of "U - seen" x "\<lambda>y. Suc (length (deps y))"] assms
    by (simp add: Diff_insert [of U x seen, symmetric])
  moreover have "length (filter P (deps x) @ x # stack) < length (x # stack) + Suc (length (deps x))"
    using length_filter_le [of P "deps x"] unfolding length_append by linarith
  ultimately show ?thesis unfolding search_measure_def by linarith
qed

lemma dependency_loop_searches:
  assumes finite: "finite U"
    and closed: "\<And>x. x \<in> U \<Longrightarrow> describable cd cx blobs x \<and> set (app_requires cd cx blobs x) \<subseteq> U"
    and rank: "\<And>x y. x \<in> U \<Longrightarrow> y \<in> set (app_requires cd cx blobs x) \<Longrightarrow> rank y < (rank x :: nat)"
    and depth: "\<And>x. x \<in> U \<Longrightarrow> rank x < depth"
    and acyclic: "acyclic (dep_rel (app_requires cd cx blobs))"
  shows "recording blobs t \<Longrightarrow> set stack \<subseteq> U \<Longrightarrow>
    search_inv (app_requires cd cx blobs) roots stack (set seen) res \<Longrightarrow> set finished = set res \<Longrightarrow>
    search_measure (app_requires cd cx blobs) U stack (set seen) < fuel \<Longrightarrow>
    \<exists>s' t' res' seen'. dependency_loop fuel depth cd cx s t stack finished seen res = Ok (s', t', res') \<and>
      search_inv (app_requires cd cx blobs) roots [] seen' res'"
proof (induction fuel arbitrary: s t stack finished seen res)
  case (Suc fuel)
  show ?case
  proof (cases stack)
    case Nil
    with Suc.prems(3) show ?thesis by auto
  next
    case (Cons app rest)
    have shrink: "search_measure (app_requires cd cx blobs) U rest (set seen) < fuel" "set rest \<subseteq> U" "app \<in> U"
      using Suc.prems(2,5) Cons by (auto simp: search_measure_def)
    note inv = Suc.prems(3) [unfolded Cons]
    consider (skip) "app \<in> set res" | (finish) "app \<in> set seen" "app \<notin> set res" | (visit) "app \<notin> set seen" "app \<notin> set res"
      by blast
    then show ?thesis
    proof cases
      case skip
      from Suc.IH [OF Suc.prems(1) shrink(2) search_skip [OF inv skip] Suc.prems(4) shrink(1)] skip Suc.prems(4)
      show ?thesis by (simp add: Cons List.member_iff)
    next
      case finish
      have "set (app # finished) = set (res @ [app])" using Suc.prems(4) by simp
      from Suc.IH [OF Suc.prems(1) shrink(2) search_finish [OF inv finish] this shrink(1)] finish Suc.prems(4)
      show ?thesis by (simp add: Cons List.member_iff)
    next
      case visit
      from describe_recording [of U cd cx blobs rank, OF closed rank shrink(3) depth [OF shrink(3)] Suc.prems(1), of s]
      obtain s1 t1 d where d: "describe_application depth cd cx s t app = Ok (s1, t1, d)" "recording blobs t1"
        "ad_required_application_ids d = app_requires cd cx blobs app" by blast
      let ?stack = "filter (\<lambda>child. child \<notin> insert app (set seen)) (app_requires cd cx blobs app) @ app # rest"
      have "set ?stack \<subseteq> U" using closed [OF shrink(3)] shrink(2,3) by auto
      moreover have "search_measure (app_requires cd cx blobs) U ?stack (set (app # seen)) < fuel"
        using search_measure_visit [OF finite shrink(3) visit(1), of "app_requires cd cx blobs"
            "\<lambda>child. child \<notin> insert app (set seen)" rest] Suc.prems(5) Cons
        by simp
      moreover have "search_inv (app_requires cd cx blobs) roots ?stack (set (app # seen)) res"
        using search_visit [OF acyclic inv visit(1)] by simp
      ultimately obtain s' t' res' seen' where
        "dependency_loop fuel depth cd cx s1 t1 ?stack finished (app # seen) res = Ok (s', t', res')"
        "search_inv (app_requires cd cx blobs) roots [] seen' res'"
        using Suc.IH [OF d(2) _ _ Suc.prems(4), of ?stack "app # seen" s1] by blast
      moreover have "dependency_loop (Suc fuel) depth cd cx s t stack finished seen res =
          dependency_loop fuel depth cd cx s1 t1 ?stack finished (app # seen) res"
        using visit Suc.prems(4) by (simp add: Cons List.member_iff d(1,3))
      ultimately show ?thesis by metis
    qed
  qed
qed simp

lemma trancl_closed: "(x, y) \<in> (dep_rel deps)\<^sup>+ \<Longrightarrow> (\<And>x. x \<in> U \<Longrightarrow> set (deps x) \<subseteq> U) \<Longrightarrow> x \<in> U \<Longrightarrow> y \<in> U"
  by (induction rule: trancl_induct) (auto simp: dep_rel_def)

text \<open>The number of applications below one decreases along the dependencies.\<close>

lemma acyclic_rank:
  assumes "finite U" "acyclic (dep_rel deps)" and closed: "\<And>x. x \<in> U \<Longrightarrow> set (deps x) \<subseteq> U" and x: "x \<in> U"
  defines "below \<equiv> \<lambda>x. (dep_rel deps)\<^sup>+ `` {x}"
  shows "card (below x) < card U" "y \<in> set (deps x) \<Longrightarrow> card (below y) < card (below x)"
proof -
  have sub: "below z \<subseteq> U" if "z \<in> U" for z
    using trancl_closed [of z _ deps U] closed that by (auto simp: below_def)
  have irrefl: "z \<notin> below z" for z using assms(2) by (simp add: below_def acyclic_def)
  show "card (below x) < card U"
    using sub [OF x] irrefl [of x] x assms(1) by (metis psubsetI psubset_card_mono)
  assume y: "y \<in> set (deps x)"
  then have xy: "(x, y) \<in> dep_rel deps" by (simp add: dep_rel_def)
  have "below y \<subseteq> below x" using xy by (auto simp: below_def intro: trancl_into_trancl2)
  moreover have "y \<in> below x" using xy by (auto simp: below_def)
  ultimately have "below y \<subset> below x" using irrefl [of y] by blast
  then show "card (below y) < card (below x)"
    using sub [OF x] assms(1) by (meson finite_subset psubset_card_mono)
qed

lemma search_result:
  assumes "search_inv deps roots [] seen res"
  shows "set res = (dep_rel deps)\<^sup>* `` roots"
proof
  note inv = search_invD [OF assms]
  show "set res \<subseteq> (dep_rel deps)\<^sup>* `` roots" using inv(3,6) by simp
  have closed: "set (deps x) \<subseteq> set res" if x: "x \<in> set res" for x
  proof -
    obtain A B where "res = A @ x # B" using split_list [OF x] by blast
    with inv(1) show ?thesis by (auto simp: topological_def)
  qed
  have "y \<in> set res" if "(r, y) \<in> (dep_rel deps)\<^sup>*" "r \<in> set res" for r y
    using that by (induction rule: rtrancl_induct) (use closed in \<open>auto simp: dep_rel_def\<close>)
  then show "(dep_rel deps)\<^sup>* `` roots \<subseteq> set res" using inv(5) by auto
qed

text \<open>
  \<^bold>\<open>C34\<close>. Loading the dependencies of applications terminates with a topological sort. Let a
  finite set of applications contain the roots and every application they require, let each
  have a description and bytecode blobs that can be read, and let the requirements be acyclic.
  Then \<open>find_dependencies\<close> returns, within a number of iterations bounded by the sizes of the
  lists of requirements and a depth bounded by the number of applications: the result lists
  exactly the applications reachable from the roots, each once, and every application after
  all the applications it requires.
\<close>

theorem find_dependencies_topological:
  assumes "finite U" "set roots \<subseteq> U" "tt_replaying t = None"
    and "\<forall>x \<in> U. describable cd cx (tt_blobs t) x \<and> set (app_requires cd cx (tt_blobs t) x) \<subseteq> U"
    and "acyclic (dep_rel (app_requires cd cx (tt_blobs t)))"
    and "card U \<le> depth" "length roots + (\<Sum>x \<in> U. Suc (length (app_requires cd cx (tt_blobs t) x))) < fuel"
  shows "\<exists>s' t' res. find_dependencies fuel depth cd cx s t roots = Ok (s', t', res) \<and> distinct res \<and>
    set res = (dep_rel (app_requires cd cx (tt_blobs t)))\<^sup>* `` set roots \<and>
    (\<forall>A x B. res = A @ x # B \<longrightarrow> set (app_requires cd cx (tt_blobs t) x) \<subseteq> set A)"
proof -
  let ?deps = "app_requires cd cx (tt_blobs t)"
  have closed: "\<And>x. x \<in> U \<Longrightarrow> set (?deps x) \<subseteq> U" using assms(4) by blast
  note rank = acyclic_rank [of U ?deps, OF assms(1,5) closed]
  have "search_inv ?deps (set roots) (rev roots) (set []) []"
    by (auto simp: search_inv_def topological_def open_above_def)
  moreover have "search_measure ?deps U (rev roots) (set []) < fuel"
    using assms(7) by (simp add: search_measure_def)
  moreover have "recording (tt_blobs t) t" using assms(3) by (simp add: recording_def)
  ultimately obtain s' t' res seen where
    run: "dependency_loop fuel depth cd cx s t (rev roots) [] [] [] = Ok (s', t', res)"
    and inv: "search_inv ?deps (set roots) [] seen res"
    using dependency_loop_searches [of U cd cx "tt_blobs t" "\<lambda>x. card ((dep_rel ?deps)\<^sup>+ `` {x})" depth t "rev roots"
        "set roots" "[]" "[]" "[]" fuel s] assms rank order.strict_trans2 [OF rank(1) assms(6)] by auto
  then show ?thesis
    using search_result [OF inv] search_invD(1) [OF inv] unfolding find_dependencies_def topological_def by metis
qed

definition demo_application :: "application_id list \<Rightarrow> application_description" where
  "demo_application required =
    \<lparr> ad_module_id = \<lparr> contract_blob_hash = 8, service_blob_hash = 9, mod_vm_runtime = Wasm \<rparr>, ad_creator_chain_id = 5,
      ad_block_height = 0, ad_application_index = 0, ad_parameters = [], ad_required_application_ids = required \<rparr>"

definition demo_apps_codec :: codec where
  "demo_apps_codec =
    demo_codec\<lparr> cd_decode_application := \<lambda>bs. Some (demo_application (if bs = [1] then [2, 3] else if bs = [2] then [3] else [])) \<rparr>"

definition demo_apps_ctx :: exec_ctx where
  "demo_apps_ctx =
    (demo_ctx 5)\<lparr> xc_contains_blob := \<lambda>_. True,
      xc_get_blob := \<lambda>bid. Some \<lparr> content_blob_type = id_blob_type bid,
        content_bytes = (if id_hash bid = 1 then [1] else if id_hash bid = 2 then [2] else [3]) \<rparr> \<rparr>"

lemma demo_apps_requires:
  "app_requires demo_apps_codec demo_apps_ctx [] x = (if x = 1 then [2, 3] else if x = 2 then [3] else [])"
  "describable demo_apps_codec demo_apps_ctx [] x"
  by (simp_all add: app_requires_def describable_def app_description_def demo_apps_codec_def demo_apps_ctx_def
      demo_application_def description_blob_id_def)

lemma demo_apps_acyclic: "acyclic (dep_rel (app_requires demo_apps_codec demo_apps_ctx []))"
proof -
  have "dep_rel (app_requires demo_apps_codec demo_apps_ctx []) \<subseteq> measure unat"
    by (auto simp: dep_rel_def demo_apps_requires split: if_splits)
  then show ?thesis by (meson wf_acyclic wf_measure wf_subset)
qed

theorem find_dependencies_topological_witness:
  "\<exists>s' t' res. find_dependencies 8 3 demo_apps_codec demo_apps_ctx demo_system demo_tracker [1] = Ok (s', t', res) \<and>
    distinct res \<and> 3 \<in> set res \<and>
    (\<forall>A x B. res = A @ x # B \<longrightarrow> set (app_requires demo_apps_codec demo_apps_ctx [] x) \<subseteq> set A)"
proof -
  have t: "tt_blobs demo_tracker = []" "tt_replaying demo_tracker = None"
    by (simp_all add: demo_tracker_def TransactionTracker_new_def)
  have "\<exists>s' t' res. find_dependencies 8 3 demo_apps_codec demo_apps_ctx demo_system demo_tracker [1] = Ok (s', t', res) \<and>
      distinct res \<and> set res = (dep_rel (app_requires demo_apps_codec demo_apps_ctx []))\<^sup>* `` set [1] \<and>
      (\<forall>A x B. res = A @ x # B \<longrightarrow> set (app_requires demo_apps_codec demo_apps_ctx [] x) \<subseteq> set A)"
    using find_dependencies_topological [of "{1, 2, 3}" "[1]" demo_tracker demo_apps_codec demo_apps_ctx 3 8 demo_system]
    by (simp add: t demo_apps_requires demo_apps_acyclic)
  moreover have "(1, 3) \<in> dep_rel (app_requires demo_apps_codec demo_apps_ctx [])"
    by (simp add: dep_rel_def demo_apps_requires)
  ultimately show ?thesis by fastforce
qed

end
