(* ===== verification/Prefixes.thy ===== *)
theory Prefixes
  imports Identifiers
begin

text \<open>
  Sets of key prefixes (\<open>linera-views/src/common.rs\<close>): the interval of the keys with a given
  prefix, the iterator that finds a prefix of a key in a sorted set of prefixes, and the
  set of prefixes a view has deleted.
\<close>

section \<open>The model\<close>

text \<open>The loop runs over the positions from the last to the first.\<close>

fun upper_bound_rev :: "bytes \<Rightarrow> bytes option" where
  "upper_bound_rev [] = None"
| "upper_bound_rev (b # rest) = (if b < word_max then Some (rev ((b + 1) # rest)) else upper_bound_rev rest)"

definition get_upper_bound_option :: "bytes \<Rightarrow> bytes option" where
  "get_upper_bound_option key_prefix = upper_bound_rev (rev key_prefix)"

definition get_upper_bound :: "bytes \<Rightarrow> bytes bound" where
  "get_upper_bound key_prefix =
    (case get_upper_bound_option key_prefix of None \<Rightarrow> Unbounded | Some b \<Rightarrow> Excluded b)"

definition get_interval :: "bytes \<Rightarrow> bytes bound \<times> bytes bound" where
  "get_interval key_prefix = (Included key_prefix, get_upper_bound key_prefix)"

text \<open>The keys a \<open>range\<close> of a B-tree visits.\<close>

fun above :: "bytes bound \<Rightarrow> bytes \<Rightarrow> bool" where
  "above (Included b) k \<longleftrightarrow> b \<le> k"
| "above (Excluded b) k \<longleftrightarrow> b < k"
| "above Unbounded k \<longleftrightarrow> True"

fun below :: "bytes bound \<Rightarrow> bytes \<Rightarrow> bool" where
  "below (Included b) k \<longleftrightarrow> k \<le> b"
| "below (Excluded b) k \<longleftrightarrow> k < b"
| "below Unbounded k \<longleftrightarrow> True"

definition in_range :: "bytes bound \<times> bytes bound \<Rightarrow> bytes \<Rightarrow> bool" where
  "in_range r k \<longleftrightarrow> above (fst r) k \<and> below (snd r) k"

definition starts_with :: "bytes \<Rightarrow> bytes \<Rightarrow> bool" where
  "starts_with k p \<longleftrightarrow> take (length p) k = p"

record suffix_closed_set_iterator =
  si_prefix_len :: nat
  si_previous :: "bytes option"
  si_current :: "bytes option"
  si_iter :: "bytes list"

definition SuffixClosedSetIterator_new :: "nat \<Rightarrow> bytes list \<Rightarrow> suffix_closed_set_iterator" where
  "SuffixClosedSetIterator_new n xs =
    \<lparr> si_prefix_len = n, si_previous = None, si_current = (case xs of [] \<Rightarrow> None | x # _ \<Rightarrow> Some x), si_iter = tl xs \<rparr>"

text \<open>The loop of \<open>find_lower_bound\<close>: the previous entry, the current one and the entries after it.\<close>

fun lower_bound_loop ::
  "nat \<Rightarrow> bytes \<Rightarrow> bytes option \<Rightarrow> bytes option \<Rightarrow> bytes list \<Rightarrow> bytes option \<times> bytes option \<times> bytes list" where
  "lower_bound_loop n v previous None rest = (previous, None, rest)"
| "lower_bound_loop n v previous (Some x) [] =
    (if v < drop n x then (previous, Some x, []) else (Some x, None, []))"
| "lower_bound_loop n v previous (Some x) (y # rest) =
    (if v < drop n x then (previous, Some x, y # rest) else lower_bound_loop n v (Some x) (Some y) rest)"

definition find_lower_bound :: "suffix_closed_set_iterator \<Rightarrow> bytes \<Rightarrow> suffix_closed_set_iterator \<times> bytes option" where
  "find_lower_bound it v =
    (case lower_bound_loop (si_prefix_len it) v (si_previous it) (si_current it) (si_iter it) of
       (previous, current, rest) \<Rightarrow>
         (it\<lparr> si_previous := previous, si_current := current, si_iter := rest \<rparr>, previous))"

definition find_key :: "suffix_closed_set_iterator \<Rightarrow> bytes \<Rightarrow> suffix_closed_set_iterator \<times> bool" where
  "find_key it index =
    (case find_lower_bound it index of
       (it, None) \<Rightarrow> (it, False)
     | (it, Some key_prefix) \<Rightarrow> (it, starts_with index (drop (si_prefix_len it) key_prefix)))"

definition contains_prefix_of :: "bytes btree_set \<Rightarrow> bytes \<Rightarrow> bool" where
  "contains_prefix_of prefixes key = snd (find_key (SuffixClosedSetIterator_new 0 prefixes) key)"

definition insert_key_prefix :: "bytes btree_set \<Rightarrow> bytes \<Rightarrow> bytes btree_set" where
  "insert_key_prefix prefixes p =
    (if contains_prefix_of prefixes p then prefixes
     else bts_insert p (foldl (\<lambda>ps key. bts_remove key ps) prefixes (filter (in_range (get_interval p)) prefixes)))"

record deletion_set =
  ds_delete_storage_first :: bool
  ds_deleted_prefixes :: "bytes btree_set"

definition DeletionSet_new :: deletion_set where
  "DeletionSet_new = \<lparr> ds_delete_storage_first = False, ds_deleted_prefixes = [] \<rparr>"

definition ds_clear :: "deletion_set \<Rightarrow> deletion_set" where
  "ds_clear d = d\<lparr> ds_delete_storage_first := True, ds_deleted_prefixes := [] \<rparr>"

definition ds_rollback :: "deletion_set \<Rightarrow> deletion_set" where
  "ds_rollback d = d\<lparr> ds_delete_storage_first := False, ds_deleted_prefixes := [] \<rparr>"

definition ds_contains_prefix_of :: "deletion_set \<Rightarrow> bytes \<Rightarrow> bool" where
  "ds_contains_prefix_of d index \<longleftrightarrow> ds_delete_storage_first d \<or> contains_prefix_of (ds_deleted_prefixes d) index"

definition ds_has_pending_changes :: "deletion_set \<Rightarrow> bool" where
  "ds_has_pending_changes d \<longleftrightarrow> ds_delete_storage_first d \<or> ds_deleted_prefixes d \<noteq> []"

definition ds_insert_key_prefix :: "deletion_set \<Rightarrow> bytes \<Rightarrow> deletion_set" where
  "ds_insert_key_prefix d p =
    (if ds_delete_storage_first d then d
     else d\<lparr> ds_deleted_prefixes := insert_key_prefix (ds_deleted_prefixes d) p \<rparr>)"

section \<open>The interval of a prefix\<close>

lemma starts_with_simps [simp]:
  "starts_with k []" "\<not> starts_with [] (b # p)" "starts_with (c # k) (b # p) \<longleftrightarrow> c = b \<and> starts_with k p"
  by (auto simp: starts_with_def)

lemma starts_with_refl [simp]: "starts_with p p"
  by (simp add: starts_with_def)

lemma starts_with_trans: "starts_with k p \<Longrightarrow> starts_with p q \<Longrightarrow> starts_with k q"
  by (metis starts_with_def take_take min.absorb1 nat_le_linear take_all)

lemma starts_with_length: "starts_with k p \<Longrightarrow> length p \<le> length k"
  by (metis starts_with_def length_take min.cobounded1)

lemma upper_bound_rev_snoc:
  "upper_bound_rev (xs @ [b]) =
    (case upper_bound_rev xs of Some u \<Rightarrow> Some (b # u) | None \<Rightarrow> if b < word_max then Some [b + 1] else None)"
  by (induction xs rule: upper_bound_rev.induct) auto

lemma upper_bound_Cons:
  "get_upper_bound_option (b # p) =
    (case get_upper_bound_option p of Some u \<Rightarrow> Some (b # u) | None \<Rightarrow> if b < word_max then Some [b + 1] else None)"
  by (simp add: get_upper_bound_option_def upper_bound_rev_snoc)

lemma less_plus_one: "b < word_max \<Longrightarrow> c < b + 1 \<longleftrightarrow> c \<le> (b :: 'a::len word)"
proof -
  assume "b < word_max"
  then have "unat b + 1 < 2 ^ LENGTH('a)" by (simp add: word_less_nat_alt unat_word_max)
  then have "unat (b + 1) = unat b + 1" by (simp add: unat_word_ariths)
  then show ?thesis by (simp add: word_less_nat_alt word_le_nat_alt less_Suc_eq_le)
qed

lemma prefix_interval:
  "starts_with k p \<longleftrightarrow> p \<le> k \<and> (case get_upper_bound_option p of None \<Rightarrow> True | Some u \<Rightarrow> k < u)"
proof (induction p arbitrary: k)
  case Nil
  then show ?case by (simp add: get_upper_bound_option_def)
next
  case (Cons b p)
  show ?case
  proof (cases k)
    case (Cons c ks)
    show ?thesis
      using Cons.IH [of ks]
      by (cases "get_upper_bound_option p") (auto simp: Cons upper_bound_Cons less_plus_one dest: less_le_trans [of b c word_max])
  qed simp
qed

lemma in_interval [simp]: "in_range (get_interval p) k \<longleftrightarrow> starts_with k p"
  by (auto simp: in_range_def get_interval_def get_upper_bound_def prefix_interval split: option.splits)

lemma starts_with_le: "starts_with k p \<Longrightarrow> p \<le> k"
  by (simp add: prefix_interval)

text \<open>The keys with a prefix are an interval, so a key between a prefix and its extension has the prefix.\<close>

lemma starts_with_between: "starts_with k p \<Longrightarrow> p \<le> x \<Longrightarrow> x \<le> k \<Longrightarrow> starts_with x p"
  unfolding prefix_interval by (auto split: option.splits)

section \<open>The iterator over a suffix-closed set\<close>

text \<open>
  A set of prefixes is minimal when none of its entries starts with another one. The
  iterator has passed the entries \<open>done\<close>, all of them at most the last index it was asked for.
\<close>

definition prefix_free :: "bytes list \<Rightarrow> bool" where
  "prefix_free ps \<longleftrightarrow> (\<forall>p \<in> set ps. \<forall>q \<in> set ps. starts_with p q \<longrightarrow> p = q)"

definition iter_inv :: "bytes list \<Rightarrow> suffix_closed_set_iterator \<Rightarrow> bytes \<Rightarrow> bool" where
  "iter_inv ps it v \<longleftrightarrow>
    (\<exists>passed. map (drop (si_prefix_len it)) (passed @ (case si_current it of None \<Rightarrow> [] | Some x \<Rightarrow> x # si_iter it)) = ps \<and>
      (si_current it = None \<longrightarrow> si_iter it = []) \<and>
      si_previous it = (if passed = [] then None else Some (last passed)) \<and>
      (\<forall>x \<in> set passed. drop (si_prefix_len it) x \<le> v))"

lemma iter_inv_new: "iter_inv (map (drop n) xs) (SuffixClosedSetIterator_new n xs) v"
  unfolding iter_inv_def SuffixClosedSetIterator_new_def
  by (rule exI [of _ "[]"]) (cases xs; simp)

lemma lower_bound_loop_spec:
  assumes "lower_bound_loop n v (if passed = [] then None else Some (last passed)) current rest = (previous', current', rest')"
    and "\<forall>x \<in> set passed. drop n x \<le> v" "current = None \<longrightarrow> rest = []"
  shows "\<exists>passed'. passed' @ (case current' of None \<Rightarrow> [] | Some x \<Rightarrow> x # rest') =
      passed @ (case current of None \<Rightarrow> [] | Some x \<Rightarrow> x # rest) \<and>
    (current' = None \<longrightarrow> rest' = []) \<and> previous' = (if passed' = [] then None else Some (last passed')) \<and>
    (\<forall>x \<in> set passed'. drop n x \<le> v) \<and> (\<forall>x. current' = Some x \<longrightarrow> v < drop n x)"
  using assms
proof (induction rest arbitrary: passed current)
  case Nil
  show ?case
  proof (cases current)
    case None
    with Nil show ?thesis by (intro exI [of _ passed]) auto
  next
    case (Some x)
    with Nil show ?thesis
      by (cases "v < drop n x") (auto intro: exI [of _ passed] exI [of _ "passed @ [x]"])
  qed
next
  case (Cons y rest)
  then obtain x where x: "current = Some x" by (cases current) auto
  show ?case
  proof (cases "v < drop n x")
    case True
    with Cons.prems x show ?thesis by (intro exI [of _ passed]) auto
  next
    case False
    with Cons.IH [of "passed @ [x]" "Some y"] Cons.prems x show ?thesis by (auto simp: not_less)
  qed
qed

text \<open>In a sorted minimal set, the greatest entry below a key is the only candidate for its prefix.\<close>

lemma lower_bound_decides:
  assumes "sorted_wrt (<) (A @ B)" "prefix_free (A @ B)" "\<forall>x \<in> set A. x \<le> v" "\<forall>x \<in> set B. v < x"
  shows "(\<exists>p \<in> set (A @ B). starts_with v p) \<longleftrightarrow> A \<noteq> [] \<and> starts_with v (last A)"
proof
  assume "\<exists>p \<in> set (A @ B). starts_with v p"
  then obtain p where p: "p \<in> set (A @ B)" "starts_with v p" by blast
  then have "p \<in> set A" using assms(4) starts_with_le [OF p(2)] by auto
  then have A: "A \<noteq> []" "p \<le> last A"
    using assms(1) by (cases A rule: rev_cases; auto simp: sorted_wrt_append)+
  have "starts_with (last A) p"
    by (rule starts_with_between [OF p(2) A(2)]) (use A(1) assms(3) in auto)
  then have "last A = p" using assms(2) \<open>p \<in> set A\<close> A(1) by (auto simp: prefix_free_def)
  with A p show "A \<noteq> [] \<and> starts_with v (last A)" by simp
qed (use assms in auto)

lemma find_key_correct:
  assumes inv: "iter_inv ps it v0" and "v0 \<le> v" and ps: "sorted_wrt (<) ps" "prefix_free ps"
    and find: "find_key it v = (it', b)"
  shows "iter_inv ps it' v" "b \<longleftrightarrow> (\<exists>p \<in> set ps. starts_with v p)"
proof -
  let ?n = "si_prefix_len it" and ?tail = "\<lambda>c r. case c of None \<Rightarrow> [] | Some x \<Rightarrow> x # r"
  from inv obtain passed where passed: "map (drop ?n) (passed @ ?tail (si_current it) (si_iter it)) = ps"
    "si_current it = None \<longrightarrow> si_iter it = []" "si_previous it = (if passed = [] then None else Some (last passed))"
    "\<forall>x \<in> set passed. drop ?n x \<le> v0" by (auto simp: iter_inv_def)
  obtain previous current rest where
    loop: "lower_bound_loop ?n v (si_previous it) (si_current it) (si_iter it) = (previous, current, rest)"
    by (metis prod_cases3)
  have "\<forall>x \<in> set passed. drop ?n x \<le> v" using passed(4) assms(2) by (meson order.trans)
  from lower_bound_loop_spec [OF loop [unfolded passed(3)] this passed(2)] obtain passed' where
    passed': "passed' @ ?tail current rest = passed @ ?tail (si_current it) (si_iter it)" "current = None \<longrightarrow> rest = []"
      "previous = (if passed' = [] then None else Some (last passed'))" "\<forall>x \<in> set passed'. drop ?n x \<le> v"
      "\<forall>x. current = Some x \<longrightarrow> v < drop ?n x" by blast
  have it': "it' = it\<lparr> si_previous := previous, si_current := current, si_iter := rest \<rparr>"
    "b \<longleftrightarrow> (case previous of None \<Rightarrow> False | Some p \<Rightarrow> starts_with v (drop ?n p))"
    using find loop by (auto simp: find_key_def find_lower_bound_def split: option.splits)
  have split: "map (drop ?n) passed' @ map (drop ?n) (?tail current rest) = ps"
    using passed(1) passed'(1) by (metis map_append)
  show "iter_inv ps it' v"
    unfolding iter_inv_def it'(1) using split passed'(2-4) by (intro exI [of _ passed']) (cases current; simp)
  have "\<forall>x \<in> set (map (drop ?n) (?tail current rest)). v < x"
    using passed'(5) ps(1) split by (cases current) (auto simp: sorted_wrt_append simp flip: split)
  with lower_bound_decides [of "map (drop ?n) passed'" "map (drop ?n) (?tail current rest)" v] ps split passed'(4)
  show "b \<longleftrightarrow> (\<exists>p \<in> set ps. starts_with v p)"
    unfolding it'(2) passed'(3) by (simp add: last_map)
qed

lemma contains_prefix_of_iff:
  assumes "bts_ok ps" "prefix_free ps"
  shows "contains_prefix_of ps k \<longleftrightarrow> (\<exists>p \<in> set ps. starts_with k p)"
proof -
  have "iter_inv ps (SuffixClosedSetIterator_new 0 ps) k"
    using iter_inv_new [of 0 ps k] by (simp add: drop_0 [abs_def] map_idI)
  from find_key_correct(2) [OF this order.refl _ assms(2) prod.collapse [symmetric]] assms(1)
  show ?thesis by (simp add: contains_prefix_of_def bts_ok_def)
qed

section \<open>Deleted prefixes\<close>

lemma set_bts_remove_all: "set (foldl (\<lambda>ps key. bts_remove key ps) ps ks) = set ps - set ks"
  by (induction ks arbitrary: ps) (auto simp: bts_remove_def)

lemma bts_ok_remove_all: "bts_ok ps \<Longrightarrow> bts_ok (foldl (\<lambda>ps key. bts_remove key ps) ps ks)"
  by (induction ks arbitrary: ps) (auto simp: bts_remove_def bts_ok_def sorted_wrt_filter)

lemma insert_key_prefix_correct:
  assumes "bts_ok ps" "prefix_free ps"
  shows "bts_ok (insert_key_prefix ps p)" "prefix_free (insert_key_prefix ps p)"
    "(\<exists>q \<in> set (insert_key_prefix ps p). starts_with k q) \<longleftrightarrow> starts_with k p \<or> (\<exists>q \<in> set ps. starts_with k q)"
proof -
  have set: "set (insert_key_prefix ps p) =
      (if \<exists>q \<in> set ps. starts_with p q then set ps else insert p {q \<in> set ps. \<not> starts_with q p})"
    using contains_prefix_of_iff [OF assms, of p] by (auto simp: insert_key_prefix_def set_bts_remove_all)
  show "bts_ok (insert_key_prefix ps p)"
    using assms(1) by (simp add: insert_key_prefix_def bts_ok_remove_all)
  show "prefix_free (insert_key_prefix ps p)"
    using assms(2) unfolding prefix_free_def set by (auto split: if_splits)
  show "(\<exists>q \<in> set (insert_key_prefix ps p). starts_with k q) \<longleftrightarrow> starts_with k p \<or> (\<exists>q \<in> set ps. starts_with k q)"
    unfolding set by (auto dest: starts_with_trans)
qed

text \<open>What is deleted, as a set of keys.\<close>

datatype deletion_action = Clear | Rollback | Insert_prefix bytes

fun deletion_step :: "deletion_set \<Rightarrow> deletion_action \<Rightarrow> deletion_set" where
  "deletion_step d Clear = ds_clear d"
| "deletion_step d Rollback = ds_rollback d"
| "deletion_step d (Insert_prefix p) = ds_insert_key_prefix d p"

fun deleted_keys :: "bytes set \<Rightarrow> deletion_action \<Rightarrow> bytes set" where
  "deleted_keys K Clear = UNIV"
| "deleted_keys K Rollback = {}"
| "deleted_keys K (Insert_prefix p) = K \<union> {k. starts_with k p}"

definition ds_ok :: "deletion_set \<Rightarrow> bool" where
  "ds_ok d \<longleftrightarrow> bts_ok (ds_deleted_prefixes d) \<and> prefix_free (ds_deleted_prefixes d) \<and>
    (ds_delete_storage_first d \<longrightarrow> ds_deleted_prefixes d = [])"

definition ds_keys :: "deletion_set \<Rightarrow> bytes set" where
  "ds_keys d = (if ds_delete_storage_first d then UNIV else {k. \<exists>p \<in> set (ds_deleted_prefixes d). starts_with k p})"

lemma ds_contains_iff: "ds_ok d \<Longrightarrow> ds_contains_prefix_of d k \<longleftrightarrow> k \<in> ds_keys d"
  by (simp add: ds_ok_def ds_keys_def ds_contains_prefix_of_def contains_prefix_of_iff)

lemma ds_new [simp]: "ds_ok DeletionSet_new" "ds_keys DeletionSet_new = {}"
  by (simp_all add: ds_ok_def ds_keys_def DeletionSet_new_def bts_ok_def prefix_free_def)

lemma deletion_step_correct:
  assumes "ds_ok d"
  shows "ds_ok (deletion_step d st)" "ds_keys (deletion_step d st) = deleted_keys (ds_keys d) st"
  using assms insert_key_prefix_correct [of "ds_deleted_prefixes d"]
  by (cases st; auto simp: ds_ok_def ds_keys_def ds_clear_def ds_rollback_def ds_insert_key_prefix_def bts_ok_def prefix_free_def)+

text \<open>
  \<^bold>\<open>C39\<close>. The deletion set of a view remembers exactly the deleted keys: after any sequence of
  deleted prefixes, clears and rollbacks, the search for the greatest deleted prefix below a key
  finds a prefix of that key exactly when one of the deleted prefixes matches, although dominated
  prefixes are dropped and only one candidate is compared.
\<close>

theorem deletion_set_exact:
  "ds_contains_prefix_of (foldl deletion_step DeletionSet_new steps) k \<longleftrightarrow> k \<in> foldl deleted_keys {} steps"
proof -
  have "ds_ok (foldl deletion_step d steps) \<and> ds_keys (foldl deletion_step d steps) = foldl deleted_keys (ds_keys d) steps"
    if "ds_ok d" for d
    using that by (induction steps arbitrary: d) (simp_all add: deletion_step_correct)
  from this [OF ds_new(1)] show ?thesis by (simp add: ds_contains_iff)
qed

end
