(* ===== verification/Batches.thy ===== *)
theory Batches
  imports Prefixes
begin

text \<open>
  Batches of write operations (\<open>linera-views/src/batch.rs\<close>): the simplification of a batch to
  operations on disjoint keys, and the expansion of prefix deletions for databases that cannot
  execute them. The database that lists the keys with a prefix is a parameter.
\<close>

section \<open>The model\<close>

datatype write_operation =
    Delete (op_key: bytes)
  | DeletePrefix (op_key_prefix: bytes)
  | Put (op_key: bytes) (op_value: bytes)

type_synonym batch = "write_operation list"

definition batch_num_operations :: "batch \<Rightarrow> nat" where
  "batch_num_operations b = length b"

definition batch_size :: "batch \<Rightarrow> nat" where
  "batch_size b =
    sum_list (map (\<lambda>op. case op of Delete k \<Rightarrow> length k | Put k v \<Rightarrow> length k + length v | DeletePrefix p \<Rightarrow> length p) b)"

definition check_value_size :: "batch \<Rightarrow> nat \<Rightarrow> bool" where
  "check_value_size b max_value_size \<longleftrightarrow>
    (\<forall>op \<in> set b. case op of Put _ v \<Rightarrow> length v \<le> max_value_size | _ \<Rightarrow> True)"

record simple_unordered_batch =
  sb_deletions :: "bytes list"
  sb_insertions :: "(bytes \<times> bytes) list"

record unordered_batch =
  ub_key_prefix_deletions :: "bytes list"
  ub_simple_unordered_batch :: simple_unordered_batch

definition is_prefix_matched :: "bytes btree_set \<Rightarrow> bytes \<Rightarrow> bool" where
  "is_prefix_matched key_prefix_set key =
    (case rev (filter (\<lambda>p. below (Included key) p) key_prefix_set) of
       value # _ \<Rightarrow> if length key < length value then False else value = take (length value) key
     | [] \<Rightarrow> False)"

definition simplify_step ::
  "(bytes, bytes option) btree_map \<times> bytes btree_set \<Rightarrow> write_operation
    \<Rightarrow> (bytes, bytes option) btree_map \<times> bytes btree_set" where
  "simplify_step st operation =
    (case st of (delete_and_insert_map, delete_prefix_set) \<Rightarrow>
     case operation of
       Delete key \<Rightarrow>
        if is_prefix_matched delete_prefix_set key
        then (btm_remove key delete_and_insert_map, delete_prefix_set)
        else (btm_insert key None delete_and_insert_map, delete_prefix_set)
     | Put key value \<Rightarrow> (btm_insert key (Some value) delete_and_insert_map, delete_prefix_set)
     | DeletePrefix key_prefix \<Rightarrow>
        let keys = filter (in_range (get_interval key_prefix)) (btm_keys delete_and_insert_map);
            delete_and_insert_map = foldl (\<lambda>m key. btm_remove key m) delete_and_insert_map keys
        in if is_prefix_matched delete_prefix_set key_prefix then (delete_and_insert_map, delete_prefix_set)
           else
             let key_prefixes = filter (in_range (get_interval key_prefix)) delete_prefix_set
             in (delete_and_insert_map,
                 bts_insert key_prefix (foldl (\<lambda>ps p. bts_remove p ps) delete_prefix_set key_prefixes)))"

definition simplify :: "batch \<Rightarrow> unordered_batch" where
  "simplify b =
    (case foldl simplify_step ([], []) b of (delete_and_insert_map, delete_prefix_set) \<Rightarrow>
      \<lparr> ub_key_prefix_deletions = delete_prefix_set,
        ub_simple_unordered_batch =
          \<lparr> sb_deletions = List.map_filter (\<lambda>(k, v). case v of None \<Rightarrow> Some k | Some _ \<Rightarrow> None) delete_and_insert_map,
            sb_insertions = List.map_filter (\<lambda>(k, v). case v of None \<Rightarrow> None | Some v \<Rightarrow> Some (k, v)) delete_and_insert_map \<rparr> \<rparr>)"

text \<open>The keys with a prefix, without those that are inserted, as deletions.\<close>

definition expanded :: "(bytes \<Rightarrow> (bytes list, 'e) result) \<Rightarrow> bytes list \<Rightarrow> bytes \<Rightarrow> (bytes list, 'e) result" where
  "expanded expand inserted key_prefix =
    and_then (expand key_prefix) (\<lambda>short_keys.
    Ok (filter (\<lambda>key. \<not> List.member inserted key) (map (\<lambda>short_key. key_prefix @ short_key) short_keys)))"

definition expand_delete_prefixes ::
  "(bytes \<Rightarrow> (bytes list, 'e) result) \<Rightarrow> unordered_batch \<Rightarrow> (simple_unordered_batch, 'e) result" where
  "expand_delete_prefixes expand u =
    (let simple = ub_simple_unordered_batch u; insert_set = map fst (sb_insertions simple) in
     and_then (try_fold (\<lambda>deletions key_prefix.
         and_then (expanded expand insert_set key_prefix) (\<lambda>keys. Ok (deletions @ keys)))
       (sb_deletions simple) (ub_key_prefix_deletions u)) (\<lambda>deletions.
     Ok \<lparr> sb_deletions = deletions, sb_insertions = sb_insertions simple \<rparr>))"

definition collide_step ::
  "(bytes \<Rightarrow> (bytes list, 'e) result) \<Rightarrow> bytes list \<Rightarrow> bytes list \<times> bytes list \<Rightarrow> bytes
    \<Rightarrow> (bytes list \<times> bytes list, 'e) result" where
  "collide_step expand inserted_keys = (\<lambda>(deletions, key_prefix_deletions) key_prefix.
    if filter (in_range (get_interval key_prefix)) inserted_keys \<noteq> []
    then and_then (expanded expand inserted_keys key_prefix) (\<lambda>keys. Ok (deletions @ keys, key_prefix_deletions))
    else Ok (deletions, key_prefix_deletions @ [key_prefix]))"

definition expand_colliding_prefix_deletions ::
  "(bytes \<Rightarrow> (bytes list, 'e) result) \<Rightarrow> unordered_batch \<Rightarrow> (unordered_batch, 'e) result" where
  "expand_colliding_prefix_deletions expand u =
    (if ub_key_prefix_deletions u = [] then Ok u
     else
       let simple = ub_simple_unordered_batch u; inserted_keys = map fst (sb_insertions simple) in
       and_then (try_fold (collide_step expand inserted_keys) (sb_deletions simple, []) (ub_key_prefix_deletions u)) (\<lambda>(deletions, key_prefix_deletions).
       Ok \<lparr> ub_key_prefix_deletions = key_prefix_deletions,
            ub_simple_unordered_batch = simple\<lparr> sb_deletions := deletions \<rparr> \<rparr>))"

definition simple_from_batch :: "(bytes \<Rightarrow> (bytes list, 'e) result) \<Rightarrow> batch \<Rightarrow> (simple_unordered_batch, 'e) result" where
  "simple_from_batch expand b = expand_delete_prefixes expand (simplify b)"

definition unordered_from_batch :: "(bytes \<Rightarrow> (bytes list, 'e) result) \<Rightarrow> batch \<Rightarrow> (unordered_batch, 'e) result" where
  "unordered_from_batch expand b = expand_colliding_prefix_deletions expand (simplify b)"

section \<open>The effect of a batch\<close>

type_synonym store = "bytes \<Rightarrow> bytes option"

fun apply_operation :: "store \<Rightarrow> write_operation \<Rightarrow> store" where
  "apply_operation m (Delete k) = m(k := None)"
| "apply_operation m (Put k v) = m(k \<mapsto> v)"
| "apply_operation m (DeletePrefix p) = (\<lambda>k. if starts_with k p then None else m k)"

abbreviation apply_batch :: "store \<Rightarrow> batch \<Rightarrow> store" where
  "apply_batch \<equiv> foldl apply_operation"

definition simple_operations :: "simple_unordered_batch \<Rightarrow> batch" where
  "simple_operations sb = map Delete (sb_deletions sb) @ map (\<lambda>(k, v). Put k v) (sb_insertions sb)"

definition unordered_operations :: "unordered_batch \<Rightarrow> batch" where
  "unordered_operations u = map DeletePrefix (ub_key_prefix_deletions u) @ simple_operations (ub_simple_unordered_batch u)"

text \<open>
  In a settled batch every inserted key has one value and no operation deletes it. The effect of
  such a batch depends only on the set of its operations.
\<close>

definition settled :: "batch \<Rightarrow> bool" where
  "settled ops \<longleftrightarrow>
    (\<forall>k v. Put k v \<in> set ops \<longrightarrow>
      (\<forall>v'. Put k v' \<in> set ops \<longrightarrow> v' = v) \<and> Delete k \<notin> set ops \<and> (\<forall>p. DeletePrefix p \<in> set ops \<longrightarrow> \<not> starts_with k p))"

lemma settled_effect:
  assumes "settled ops"
  shows "Put k v \<in> set ops \<Longrightarrow> apply_batch m ops k = Some v"
    and "\<forall>v. Put k v \<notin> set ops \<Longrightarrow> apply_batch m ops k =
      (if Delete k \<in> set ops \<or> (\<exists>p. DeletePrefix p \<in> set ops \<and> starts_with k p) then None else m k)"
proof -
  have "(Put k v \<in> set ops \<longrightarrow> apply_batch m ops k = Some v) \<and>
    ((\<forall>v. Put k v \<notin> set ops) \<longrightarrow> apply_batch m ops k =
      (if Delete k \<in> set ops \<or> (\<exists>p. DeletePrefix p \<in> set ops \<and> starts_with k p) then None else m k))"
    using assms
  proof (induction ops rule: rev_induct)
    case (snoc op ops)
    then have "settled ops" by (auto simp: settled_def)
    with snoc show ?case by (cases op) (auto simp: settled_def)
  qed simp
  then show "Put k v \<in> set ops \<Longrightarrow> apply_batch m ops k = Some v"
    "\<forall>v. Put k v \<notin> set ops \<Longrightarrow> apply_batch m ops k =
      (if Delete k \<in> set ops \<or> (\<exists>p. DeletePrefix p \<in> set ops \<and> starts_with k p) then None else m k)" by simp_all
qed

lemma settled_reorder:
  assumes "settled ops" "set ops' = set ops"
  shows "apply_batch m ops' = apply_batch m ops"
proof
  fix k
  have "settled ops'" using assms by (simp add: settled_def)
  with settled_effect [OF assms(1), of k] settled_effect [of ops' k] assms(2)
  show "apply_batch m ops' k = apply_batch m ops k" by (cases "\<exists>v. Put k v \<in> set ops") auto
qed

section \<open>Simplification\<close>

lemma sorted_split: "sorted_wrt (<) ps \<Longrightarrow> filter (\<lambda>p. p \<le> k) ps @ filter (\<lambda>p. \<not> p \<le> k) ps = ps"
  for k :: "'a::linorder"
proof (induction ps)
  case (Cons p ps)
  show ?case
  proof (cases "p \<le> k")
    case False
    with Cons.prems have "\<forall>q \<in> set ps. \<not> q \<le> k" by (auto dest: order.strict_trans1 [of k p])
    then have "filter (\<lambda>p. p \<le> k) ps = []" "filter (\<lambda>p. \<not> p \<le> k) ps = ps"
      by (auto simp: filter_empty_conv filter_id_conv)
    with False show ?thesis by simp
  qed (use Cons in simp)
qed simp

lemma is_prefix_matched_iff:
  assumes "bts_ok ps" "prefix_free ps"
  shows "is_prefix_matched ps k \<longleftrightarrow> (\<exists>p \<in> set ps. starts_with k p)"
proof -
  let ?A = "filter (\<lambda>p. p \<le> k) ps" and ?B = "filter (\<lambda>p. \<not> p \<le> k) ps"
  have split: "?A @ ?B = ps" using assms(1) by (simp add: bts_ok_def sorted_split)
  have "(\<exists>p \<in> set (?A @ ?B). starts_with k p) \<longleftrightarrow> ?A \<noteq> [] \<and> starts_with k (last ?A)"
    by (rule lower_bound_decides) (use assms split in \<open>auto simp: bts_ok_def\<close>)
  then have "(\<exists>p \<in> set ps. starts_with k p) \<longleftrightarrow> ?A \<noteq> [] \<and> starts_with k (last ?A)"
    by (simp only: split)
  also have "\<dots> \<longleftrightarrow> is_prefix_matched ps k"
    using starts_with_length [of k "last ?A"]
    by (cases ?A rule: rev_cases) (auto simp: is_prefix_matched_def starts_with_def)
  finally show ?thesis by simp
qed

definition simplify_inv :: "(bytes, bytes option) btree_map \<times> bytes btree_set \<Rightarrow> bool" where
  "simplify_inv st \<longleftrightarrow> btm_ok (fst st) \<and> bts_ok (snd st) \<and> prefix_free (snd st)"

definition simplified :: "(bytes, bytes option) btree_map \<times> bytes btree_set \<Rightarrow> store \<Rightarrow> store" where
  "simplified st m k =
    (case btm_get (fst st) k of
       Some v \<Rightarrow> v
     | None \<Rightarrow> if \<exists>p \<in> set (snd st). starts_with k p then None else m k)"

lemma btm_remove_all:
  "btm_ok m \<Longrightarrow> btm_ok (foldl (\<lambda>m key. btm_remove key m) m ks)"
  "btm_get (foldl (\<lambda>m key. btm_remove key m) m ks) k = (if k \<in> set ks then None else btm_get m k)"
  by (induction ks arbitrary: m) auto

lemma delete_prefix_step:
  assumes "simplify_inv (dim, dps)"
  shows "\<exists>dim'. simplify_step (dim, dps) (DeletePrefix p) = (dim', insert_key_prefix dps p) \<and> btm_ok dim' \<and>
    (\<forall>k. btm_get dim' k = (if starts_with k p then None else btm_get dim k))"
proof -
  have "is_prefix_matched dps p = contains_prefix_of dps p"
    using assms by (simp add: simplify_inv_def is_prefix_matched_iff contains_prefix_of_iff)
  moreover have "k \<notin> set (filter (in_range (get_interval p)) (btm_keys dim)) \<Longrightarrow> starts_with k p \<Longrightarrow> btm_get dim k = None" for k
    by (simp add: map_of_eq_None_iff)
  ultimately show ?thesis
    using assms btm_remove_all [of dim "filter (in_range (get_interval p)) (btm_keys dim)"]
    by (auto simp: simplify_step_def insert_key_prefix_def simplify_inv_def Let_def)
qed

lemma simplify_step_correct:
  assumes "simplify_inv st"
  shows "simplify_inv (simplify_step st op)" "simplified (simplify_step st op) m = apply_operation (simplified st m) op"
proof -
  obtain dim dps where st: "st = (dim, dps)" by (cases st)
  have ok: "btm_ok dim" "bts_ok dps" "prefix_free dps" using assms by (simp_all add: st simplify_inv_def)
  have "simplify_inv (simplify_step st op) \<and> simplified (simplify_step st op) m = apply_operation (simplified st m) op"
  proof (cases op)
    case (DeletePrefix p)
    from delete_prefix_step [of dim dps p] assms st obtain dim' where
      step: "simplify_step st op = (dim', insert_key_prefix dps p)" "btm_ok dim'"
        "\<And>k. btm_get dim' k = (if starts_with k p then None else btm_get dim k)" by (auto simp: DeletePrefix)
    with insert_key_prefix_correct [OF ok(2,3), of p] show ?thesis
      by (auto simp: simplify_inv_def simplified_def DeletePrefix st fun_eq_iff split: option.splits)
  next
    case (Delete k)
    then show ?thesis using ok is_prefix_matched_iff [OF ok(2,3), of k]
      by (auto simp: simplify_step_def simplify_inv_def simplified_def st fun_eq_iff split: option.splits)
  next
    case (Put k v)
    then show ?thesis using ok
      by (auto simp: simplify_step_def simplify_inv_def simplified_def st fun_eq_iff split: option.splits)
  qed
  then show "simplify_inv (simplify_step st op)"
    "simplified (simplify_step st op) m = apply_operation (simplified st m) op" by simp_all
qed

lemma simplify_steps:
  "simplify_inv (foldl simplify_step ([], []) b) \<and> simplified (foldl simplify_step ([], []) b) m = apply_batch m b"
proof (induction b rule: rev_induct)
  case Nil
  then show ?case by (simp add: simplify_inv_def simplified_def bts_ok_def prefix_free_def fun_eq_iff)
next
  case (snoc op b)
  then show ?case by (simp add: simplify_step_correct)
qed

lemma set_map_filter_iff: "y \<in> set (List.map_filter f xs) \<longleftrightarrow> (\<exists>x \<in> set xs. f x = Some y)"
  by (induction xs) (auto simp: List.map_filter_simps split: option.splits)

lemma simplify_operations:
  assumes "foldl simplify_step ([], []) b = (dim, dps)"
  shows "Put k v \<in> set (unordered_operations (simplify b)) \<longleftrightarrow> btm_get dim k = Some (Some v)"
    "Delete k \<in> set (unordered_operations (simplify b)) \<longleftrightarrow> btm_get dim k = Some None"
    "DeletePrefix p \<in> set (unordered_operations (simplify b)) \<longleftrightarrow> p \<in> set dps"
proof -
  have "btm_ok dim" using simplify_steps [of b "\<lambda>_. None"] by (simp add: assms simplify_inv_def)
  note get = btm_get_iff_mem [OF this]
  have ins: "(k, v) \<in> set (sb_insertions (ub_simple_unordered_batch (simplify b))) \<longleftrightarrow> (k, Some v) \<in> set dim" for k v
  proof -
    have "(case x of (k, v) \<Rightarrow> case v of None \<Rightarrow> None | Some v \<Rightarrow> Some (k, v)) = Some (k, v) \<longleftrightarrow> x = (k, Some v)" for x
      by (auto split: prod.splits option.splits)
    then show ?thesis by (simp add: simplify_def assms set_map_filter_iff)
  qed
  have del: "k \<in> set (sb_deletions (ub_simple_unordered_batch (simplify b))) \<longleftrightarrow> (k, None) \<in> set dim" for k
  proof -
    have "(case x of (k, v) \<Rightarrow> case v of None \<Rightarrow> Some k | Some _ \<Rightarrow> None) = Some k \<longleftrightarrow> x = (k, None :: bytes option)" for x
      by (auto split: prod.splits option.splits)
    then show ?thesis by (simp add: simplify_def assms set_map_filter_iff)
  qed
  show "Put k v \<in> set (unordered_operations (simplify b)) \<longleftrightarrow> btm_get dim k = Some (Some v)"
    by (auto simp: get unordered_operations_def simple_operations_def ins)
  show "Delete k \<in> set (unordered_operations (simplify b)) \<longleftrightarrow> btm_get dim k = Some None"
    by (auto simp: get unordered_operations_def simple_operations_def del)
  show "DeletePrefix p \<in> set (unordered_operations (simplify b)) \<longleftrightarrow> p \<in> set dps"
    by (auto simp: unordered_operations_def simple_operations_def) (simp_all add: simplify_def assms)
qed

section \<open>Expansion of prefix deletions\<close>

lemma starts_with_iff_append: "starts_with k p \<longleftrightarrow> (\<exists>s. k = p @ s)"
  by (metis append_eq_conv_conj append_take_drop_id starts_with_def)

definition lists_keys :: "store \<Rightarrow> (bytes \<Rightarrow> (bytes list, 'e) result) \<Rightarrow> bool" where
  "lists_keys m expand \<longleftrightarrow> (\<forall>p. \<exists>ks. expand p = Ok ks \<and> set ks = {s. p @ s \<in> dom m})"

lemma expanded_ok:
  assumes "lists_keys m expand"
  shows "\<exists>ks. expanded expand inserted p = Ok ks \<and> set ks = {k. starts_with k p \<and> k \<in> dom m \<and> k \<notin> set inserted}"
proof -
  from assms obtain ks where "expand p = Ok ks" "set ks = {s. p @ s \<in> dom m}"
    unfolding lists_keys_def by blast
  then show ?thesis by (auto simp: expanded_def starts_with_iff_append List.member_iff)
qed

lemma expand_all_ok:
  assumes "lists_keys m expand"
  shows "\<exists>ds. try_fold (\<lambda>ds p. and_then (expanded expand inserted p) (\<lambda>ks. Ok (ds @ ks))) ds0 ps = Ok ds \<and>
    set ds = set ds0 \<union> {k. k \<notin> set inserted \<and> k \<in> dom m \<and> (\<exists>p \<in> set ps. starts_with k p)}"
proof (induction ps arbitrary: ds0)
  case (Cons p ps)
  from expanded_ok [OF assms, of inserted p] obtain ks where
    ks: "expanded expand inserted p = Ok ks" "set ks = {k. starts_with k p \<and> k \<in> dom m \<and> k \<notin> set inserted}" by blast
  from Cons.IH [of "ds0 @ ks"] ks show ?case by auto
qed simp

lemma expand_colliding_ok:
  assumes "lists_keys m expand"
  shows "\<exists>ds kept. try_fold (collide_step expand inserted) (ds0, kept0) ps = Ok (ds, kept) \<and>
    set kept = set kept0 \<union> {p \<in> set ps. \<forall>k \<in> set inserted. \<not> starts_with k p} \<and>
    set ds = set ds0 \<union> {k. k \<notin> set inserted \<and> k \<in> dom m \<and>
      (\<exists>p \<in> set ps. starts_with k p \<and> (\<exists>k' \<in> set inserted. starts_with k' p))}"
proof (induction ps arbitrary: ds0 kept0)
  case (Cons p ps)
  show ?case
  proof (cases "\<exists>k \<in> set inserted. starts_with k p")
    case True
    from expanded_ok [OF assms, of inserted p] obtain ks where
      ks: "expanded expand inserted p = Ok ks" "set ks = {k. starts_with k p \<and> k \<in> dom m \<and> k \<notin> set inserted}" by blast
    have step: "collide_step expand inserted (ds0, kept0) p = Ok (ds0 @ ks, kept0)"
      using True ks(1) by (auto simp: collide_step_def filter_empty_conv)
    from Cons.IH [of "ds0 @ ks" kept0] obtain ds kept where
      run: "try_fold (collide_step expand inserted) (ds0 @ ks, kept0) ps = Ok (ds, kept)"
      and kept: "set kept = set kept0 \<union> {p \<in> set ps. \<forall>k \<in> set inserted. \<not> starts_with k p}"
      and ds: "set ds = set (ds0 @ ks) \<union> {k. k \<notin> set inserted \<and> k \<in> dom m \<and>
        (\<exists>p \<in> set ps. starts_with k p \<and> (\<exists>k' \<in> set inserted. starts_with k' p))}" by blast
    show ?thesis
    proof (intro exI conjI)
      show "try_fold (collide_step expand inserted) (ds0, kept0) (p # ps) = Ok (ds, kept)" by (simp add: step run)
      show "set kept = set kept0 \<union> {q \<in> set (p # ps). \<forall>k \<in> set inserted. \<not> starts_with k q}"
        unfolding kept list.set using True by blast
      show "set ds = set ds0 \<union> {k. k \<notin> set inserted \<and> k \<in> dom m \<and>
          (\<exists>q \<in> set (p # ps). starts_with k q \<and> (\<exists>k' \<in> set inserted. starts_with k' q))}"
        unfolding ds set_append ks(2) list.set using True by blast
    qed
  next
    case False
    then have "collide_step expand inserted (ds0, kept0) p = Ok (ds0, kept0 @ [p])"
      by (auto simp: collide_step_def filter_empty_conv)
    with Cons.IH [of ds0 "kept0 @ [p]"] False show ?thesis by auto
  qed
qed simp

lemma matching_effect:
  assumes st: "foldl simplify_step ([], []) b = (dim, dps)"
    and put: "\<And>k v. Put k v \<in> set ops \<longleftrightarrow> btm_get dim k = Some (Some v)"
    and delete: "\<And>k. Delete k \<in> set ops \<Longrightarrow> btm_get dim k = Some None \<or>
      (\<exists>p \<in> set dps. starts_with k p) \<and> btm_get dim k = None"
    and prefix: "\<And>p. DeletePrefix p \<in> set ops \<Longrightarrow> p \<in> set dps \<and> (\<forall>k v. btm_get dim k = Some (Some v) \<longrightarrow> \<not> starts_with k p)"
    and deleted: "\<And>k. btm_get dim k = Some None \<Longrightarrow> Delete k \<in> set ops"
    and covered: "\<And>k p. p \<in> set dps \<Longrightarrow> starts_with k p \<Longrightarrow> btm_get dim k = None \<Longrightarrow> k \<in> dom m \<Longrightarrow>
      Delete k \<in> set ops \<or> (\<exists>p. DeletePrefix p \<in> set ops \<and> starts_with k p)"
  shows "settled ops" "apply_batch m ops = apply_batch m b"
proof -
  show settled: "settled ops"
    unfolding settled_def using put delete prefix by (metis option.distinct(1) option.inject)
  have "apply_batch m ops k = simplified (dim, dps) m k" for k
  proof (cases "\<exists>v. Put k v \<in> set ops")
    case True
    with settled_effect(1) [OF settled] put show ?thesis by (auto simp: simplified_def)
  next
    case False
    let ?gone = "Delete k \<in> set ops \<or> (\<exists>p. DeletePrefix p \<in> set ops \<and> starts_with k p)"
    have effect: "apply_batch m ops k = (if ?gone then None else m k)"
      using settled_effect(2) [OF settled] False by blast
    from False have "btm_get dim k = None \<or> btm_get dim k = Some None" using put by (metis option.exhaust)
    then show ?thesis
    proof
      assume none: "btm_get dim k = None"
      then have "?gone \<Longrightarrow> \<exists>p \<in> set dps. starts_with k p" using delete [of k] prefix by auto
      moreover have "\<not> ?gone \<Longrightarrow> \<exists>p \<in> set dps. starts_with k p \<Longrightarrow> m k = None" using covered none by blast
      ultimately show ?thesis using none by (auto simp: effect simplified_def)
    qed (simp add: effect simplified_def deleted)
  qed
  then show "apply_batch m ops = apply_batch m b" using simplify_steps [of b m] by (simp add: st fun_eq_iff)
qed

lemma simplify_parts:
  assumes "foldl simplify_step ([], []) b = (dim, dps)"
  shows "ub_key_prefix_deletions (simplify b) = dps"
    "(k, v) \<in> set (sb_insertions (ub_simple_unordered_batch (simplify b))) \<longleftrightarrow> btm_get dim k = Some (Some v)"
    "k \<in> set (sb_deletions (ub_simple_unordered_batch (simplify b))) \<longleftrightarrow> btm_get dim k = Some None"
    "k \<in> set (map fst (sb_insertions (ub_simple_unordered_batch (simplify b)))) \<longleftrightarrow> (\<exists>v. btm_get dim k = Some (Some v))"
proof -
  note ops = simplify_operations [OF assms]
  show "ub_key_prefix_deletions (simplify b) = dps" by (simp add: simplify_def assms)
  have ins: "(k, v) \<in> set (sb_insertions (ub_simple_unordered_batch (simplify b))) \<longleftrightarrow> btm_get dim k = Some (Some v)" for k v
    using ops(1) [of k v] by (auto simp: unordered_operations_def simple_operations_def)
  show "(k, v) \<in> set (sb_insertions (ub_simple_unordered_batch (simplify b))) \<longleftrightarrow> btm_get dim k = Some (Some v)" by (rule ins)
  show "k \<in> set (sb_deletions (ub_simple_unordered_batch (simplify b))) \<longleftrightarrow> btm_get dim k = Some None"
    using ops(2) [of k] by (auto simp: unordered_operations_def simple_operations_def)
  show "k \<in> set (map fst (sb_insertions (ub_simple_unordered_batch (simplify b)))) \<longleftrightarrow> (\<exists>v. btm_get dim k = Some (Some v))"
  proof -
    have "k \<in> set (map fst xs) \<longleftrightarrow> (\<exists>v. (k, v) \<in> set xs)" for xs :: "(bytes \<times> bytes) list" by force
    then show ?thesis by (simp only: ins)
  qed
qed

lemma simple_from_batch_ok:
  assumes "lists_keys m expand"
  shows "\<exists>sb. simple_from_batch expand b = Ok sb \<and> settled (simple_operations sb) \<and>
    apply_batch m (simple_operations sb) = apply_batch m b"
proof -
  obtain dim dps where st: "foldl simplify_step ([], []) b = (dim, dps)" by (metis surj_pair)
  let ?sb = "ub_simple_unordered_batch (simplify b)"
  note parts = simplify_parts [OF st]
  from expand_all_ok [OF assms, of "map fst (sb_insertions ?sb)" "sb_deletions ?sb" dps] obtain ds where
    ds: "try_fold (\<lambda>ds p. and_then (expanded expand (map fst (sb_insertions ?sb)) p) (\<lambda>ks. Ok (ds @ ks))) (sb_deletions ?sb) dps = Ok ds"
      "set ds = set (sb_deletions ?sb) \<union>
        {k. k \<notin> set (map fst (sb_insertions ?sb)) \<and> k \<in> dom m \<and> (\<exists>p \<in> set dps. starts_with k p)}" by blast
  define sb where "sb = \<lparr> sb_deletions = ds, sb_insertions = sb_insertions ?sb \<rparr>"
  have run: "simple_from_batch expand b = Ok sb"
    by (simp only: simple_from_batch_def expand_delete_prefixes_def Let_def parts(1) ds(1) and_then.simps sb_def)
  have mem: "Put k v \<in> set (simple_operations sb) \<longleftrightarrow> btm_get dim k = Some (Some v)"
    "Delete k \<in> set (simple_operations sb) \<longleftrightarrow> k \<in> set ds" "DeletePrefix p \<notin> set (simple_operations sb)" for k v p
    using parts(2) [of k v] by (auto simp: simple_operations_def sb_def)
  have deleted: "k \<in> set ds \<longleftrightarrow> btm_get dim k = Some None \<or>
      btm_get dim k = None \<and> k \<in> dom m \<and> (\<exists>p \<in> set dps. starts_with k p)" for k
    unfolding ds(2) Un_iff mem_Collect_eq parts(3,4) by (cases "btm_get dim k"; cases "the (btm_get dim k)") auto
  have "settled (simple_operations sb)" "apply_batch m (simple_operations sb) = apply_batch m b"
    by (rule matching_effect [OF st, where m = m]; simp only: mem deleted; blast)+
  with run show ?thesis by blast
qed

lemma unordered_from_batch_ok:
  assumes "lists_keys m expand"
  shows "\<exists>u. unordered_from_batch expand b = Ok u \<and> settled (unordered_operations u) \<and>
    apply_batch m (unordered_operations u) = apply_batch m b"
proof -
  obtain dim dps where st: "foldl simplify_step ([], []) b = (dim, dps)" by (metis surj_pair)
  let ?sb = "ub_simple_unordered_batch (simplify b)"
  let ?ins = "map fst (sb_insertions ?sb)"
  note parts = simplify_parts [OF st]
  from expand_colliding_ok [OF assms, of ?ins "sb_deletions ?sb" "[]" dps] obtain ds kept where
    run: "try_fold (collide_step expand ?ins) (sb_deletions ?sb, []) dps = Ok (ds, kept)"
    and kept: "set kept = set [] \<union> {p \<in> set dps. \<forall>k \<in> set ?ins. \<not> starts_with k p}"
    and ds: "set ds = set (sb_deletions ?sb) \<union> {k. k \<notin> set ?ins \<and> k \<in> dom m \<and>
      (\<exists>p \<in> set dps. starts_with k p \<and> (\<exists>k' \<in> set ?ins. starts_with k' p))}" by blast
  define u where "u = \<lparr> ub_key_prefix_deletions = kept, ub_simple_unordered_batch = ?sb\<lparr> sb_deletions := ds \<rparr> \<rparr>"
  have u: "unordered_from_batch expand b = Ok u"
  proof (cases "dps = []")
    case True
    with run show ?thesis by (simp add: unordered_from_batch_def expand_colliding_prefix_deletions_def parts(1) u_def)
  next
    case False
    then show ?thesis
      by (simp only: unordered_from_batch_def expand_colliding_prefix_deletions_def Let_def parts(1) run
          and_then.simps u_def if_False prod.case)
  qed
  have mem: "Put k v \<in> set (unordered_operations u) \<longleftrightarrow> btm_get dim k = Some (Some v)"
    "Delete k \<in> set (unordered_operations u) \<longleftrightarrow> k \<in> set ds" "DeletePrefix p \<in> set (unordered_operations u) \<longleftrightarrow> p \<in> set kept" for k v p
    using parts(2) [of k v] by (auto simp: unordered_operations_def simple_operations_def u_def)
  have kept: "p \<in> set kept \<longleftrightarrow> p \<in> set dps \<and> (\<forall>k. (\<exists>v. btm_get dim k = Some (Some v)) \<longrightarrow> \<not> starts_with k p)" for p
    unfolding kept using parts(4) by (simp add: Ball_def)
  have deleted: "k \<in> set ds \<longleftrightarrow> btm_get dim k = Some None \<or>
      btm_get dim k = None \<and> k \<in> dom m \<and> (\<exists>p \<in> set dps. starts_with k p \<and> p \<notin> set kept)" for k
    unfolding ds Un_iff mem_Collect_eq parts(3,4) kept
    by (cases "btm_get dim k"; cases "the (btm_get dim k)") (auto simp: parts(4) Bex_def simp del: set_map)
  have "settled (unordered_operations u)" "apply_batch m (unordered_operations u) = apply_batch m b"
    by (rule matching_effect [OF st, where m = m]; simp only: mem deleted; use kept in blast)+
  with u show ?thesis by blast
qed

text \<open>
  \<^bold>\<open>C38\<close>. A batch of writes may be reordered after simplification. Let the database list the keys
  it stores under each prefix. Then the simplified batch without prefix deletions, and the one
  where only the colliding prefix deletions are expanded, can be computed, and executing their
  operations in any order and any number of times has the effect of executing the original
  operations in sequence, with its repeated keys and prefixes that overlap.
\<close>

theorem batch_order_irrelevant:
  assumes "\<forall>p. \<exists>ks. expand p = Ok ks \<and> set ks = {s. m (p @ s) \<noteq> None}"
  shows "(\<exists>sb. simple_from_batch expand b = Ok sb \<and>
      (\<forall>ops. set ops = set (simple_operations sb) \<longrightarrow> apply_batch m ops = apply_batch m b)) \<and>
    (\<exists>u. unordered_from_batch expand b = Ok u \<and>
      (\<forall>ops. set ops = set (unordered_operations u) \<longrightarrow> apply_batch m ops = apply_batch m b))"
proof -
  have expand: "lists_keys m expand" using assms by (simp add: lists_keys_def dom_def)
  show ?thesis
    using simple_from_batch_ok [OF expand, of b] unordered_from_batch_ok [OF expand, of b] settled_reorder by metis
qed

theorem batch_order_irrelevant_witness:
  "let m = [[1, 2] \<mapsto> [7], [1, 3] \<mapsto> [8], [2] \<mapsto> [9]];
       expand = (\<lambda>p. Ok (if p = [1] then [[2], [3]] else if p = [] then [[1, 2], [1, 3], [2]]
         else if p = [2] then [[]] else if p = [1, 2] then [[]] else if p = [1, 3] then [[]] else []) :: (bytes list, unit) result);
       b = [Put [1, 4] [5], DeletePrefix [1], Put [1, 2] [6], Delete [2]]
   in \<exists>sb. simple_from_batch expand b = Ok sb \<and>
     apply_batch m (rev (simple_operations sb)) = apply_batch m b"
proof -
  let ?m = "[[1, 2] \<mapsto> [7], [1, 3] \<mapsto> [8], [2] \<mapsto> [9]] :: store"
  let ?expand = "\<lambda>p. Ok (if p = [1] then [[2], [3]] else if p = [] then [[1, 2], [1, 3], [2]]
         else if p = [2] then [[]] else if p = [1, 2] then [[]] else if p = [1, 3] then [[]] else []) :: (bytes list, unit) result"
  let ?b = "[Put [1, 4] [5], DeletePrefix [1], Put [1, 2] [6], Delete [2]]"
  have "\<exists>ks. ?expand p = Ok ks \<and> set ks = {s. ?m (p @ s) \<noteq> None}" for p
    by (auto simp: append_eq_Cons_conv split: if_splits)
  then have "\<forall>p. \<exists>ks. ?expand p = Ok ks \<and> set ks = {s. ?m (p @ s) \<noteq> None}" by blast
  from batch_order_irrelevant [OF this, of ?b, THEN conjunct1] obtain sb where
    "simple_from_batch ?expand ?b = Ok sb"
    "\<forall>ops. set ops = set (simple_operations sb) \<longrightarrow> apply_batch ?m ops = apply_batch ?m ?b" by (elim exE conjE)
  from this(1) this(2) [rule_format, OF set_rev] show ?thesis unfolding Let_def by (intro exI conjI)
qed

end
