(* ===== verification/Map_View.thy ===== *)
theory Map_View
  imports Batches
begin

text \<open>
  The key-value store in memory (\<open>linera-views/src/backends/memory.rs\<close>) and byte map views over it
  (\<open>ByteMapView\<close> of \<open>linera-views/src/views/map_view.rs\<close>): pending updates and deleted prefixes. The
  store holds the keys of all views in lexicographic order, and a view reads and writes the ones
  under its base key. The BCS encoding of values is a parameter.
\<close>

section \<open>The key-value store\<close>

type_synonym database = "(bytes, bytes) btree_map"

fun db_write :: "database \<Rightarrow> write_operation \<Rightarrow> database" where
  "db_write db (Delete k) = btm_remove k db"
| "db_write db (Put k v) = btm_insert k v db"
| "db_write db (DeletePrefix p) = filter (\<lambda>(k, _). \<not> in_range (get_interval p) k) db"

definition db_write_batch :: "database \<Rightarrow> batch \<Rightarrow> database" where
  "db_write_batch db b = foldl db_write db b"

definition find_key_values_by_prefix :: "database \<Rightarrow> bytes \<Rightarrow> (bytes \<times> bytes) list" where
  "find_key_values_by_prefix db p =
    map (\<lambda>(k, v). (drop (length p) k, v)) (filter (\<lambda>(k, _). in_range (get_interval p) k) db)"

lemma db_write_store:
  assumes "btm_ok db"
  shows "btm_ok (db_write db op)" "btm_get (db_write db op) = apply_operation (btm_get db) op"
proof -
  have "btm_get (filter (\<lambda>(k, _). \<not> starts_with k p) m) k = (if starts_with k p then None else btm_get m k)" for p k and m :: database
    by (induction m) auto
  with assms show "btm_ok (db_write db op)" "btm_get (db_write db op) = apply_operation (btm_get db) op"
    by (cases op; auto simp: btm_ok_filter fun_eq_iff)+
qed

lemma db_write_batch_store:
  "btm_ok db \<Longrightarrow> btm_ok (db_write_batch db b) \<and> btm_get (db_write_batch db b) = apply_batch (btm_get db) b"
  unfolding db_write_batch_def by (induction b arbitrary: db) (auto simp: db_write_store)

section \<open>Byte map views\<close>

datatype view_error = ViewBcs | ViewKeyTooLong | ViewArithmetic arithmetic_error

datatype 'v update = Removed | Set 'v

record 'v serde =
  sd_to_bytes :: "'v \<Rightarrow> bytes"
  sd_from_bytes :: "bytes \<Rightarrow> 'v option"

record 'v byte_map_view =
  mv_base_key :: bytes
  mv_deletion_set :: deletion_set
  mv_updates :: "(bytes, 'v update) btree_map"

definition mv_load :: "bytes \<Rightarrow> 'v byte_map_view" where
  "mv_load base = \<lparr> mv_base_key = base, mv_deletion_set = DeletionSet_new, mv_updates = [] \<rparr>"

definition mv_rollback :: "'v byte_map_view \<Rightarrow> 'v byte_map_view" where
  "mv_rollback v = v\<lparr> mv_updates := [], mv_deletion_set := ds_rollback (mv_deletion_set v) \<rparr>"

definition mv_clear :: "'v byte_map_view \<Rightarrow> 'v byte_map_view" where
  "mv_clear v = v\<lparr> mv_updates := [], mv_deletion_set := ds_clear (mv_deletion_set v) \<rparr>"

definition mv_has_pending_changes :: "'v byte_map_view \<Rightarrow> bool" where
  "mv_has_pending_changes v \<longleftrightarrow> ds_has_pending_changes (mv_deletion_set v) \<or> mv_updates v \<noteq> []"

text \<open>The operations a flush adds to the batch, and whether the view becomes empty in storage.\<close>

definition mv_flush :: "'v serde \<Rightarrow> 'v byte_map_view \<Rightarrow> 'v byte_map_view \<times> batch \<times> bool" where
  "mv_flush sd v =
    (let base = mv_base_key v; d = mv_deletion_set v in
     if ds_delete_storage_first d then
       let puts = List.map_filter (\<lambda>(index, u). case u of
             Set x \<Rightarrow> Some (Put (base @ index) (sd_to_bytes sd x)) | Removed \<Rightarrow> None) (mv_updates v)
       in (v\<lparr> mv_updates := [], mv_deletion_set := d\<lparr> ds_delete_storage_first := False \<rparr> \<rparr>,
           DeletePrefix base # puts, puts = [])
     else
       (v\<lparr> mv_updates := [], mv_deletion_set := d\<lparr> ds_deleted_prefixes := [], ds_delete_storage_first := False \<rparr> \<rparr>,
        map (\<lambda>index. DeletePrefix (base @ index)) (ds_deleted_prefixes d) @
        map (\<lambda>(index, u). case u of
            Removed \<Rightarrow> Delete (base @ index) | Set x \<Rightarrow> Put (base @ index) (sd_to_bytes sd x)) (mv_updates v),
        False))"

definition mv_insert :: "'v byte_map_view \<Rightarrow> bytes \<Rightarrow> 'v \<Rightarrow> 'v byte_map_view" where
  "mv_insert v short_key x = v\<lparr> mv_updates := btm_insert short_key (Set x) (mv_updates v) \<rparr>"

definition mv_remove :: "'v byte_map_view \<Rightarrow> bytes \<Rightarrow> 'v byte_map_view" where
  "mv_remove v short_key =
    (if ds_contains_prefix_of (mv_deletion_set v) short_key
     then v\<lparr> mv_updates := btm_remove short_key (mv_updates v) \<rparr>
     else v\<lparr> mv_updates := btm_insert short_key Removed (mv_updates v) \<rparr>)"

definition mv_remove_by_prefix :: "'v byte_map_view \<Rightarrow> bytes \<Rightarrow> 'v byte_map_view" where
  "mv_remove_by_prefix v key_prefix =
    (let key_list = filter (in_range (get_interval key_prefix)) (btm_keys (mv_updates v))
     in v\<lparr> mv_updates := foldl (\<lambda>m key. btm_remove key m) (mv_updates v) key_list,
          mv_deletion_set := ds_insert_key_prefix (mv_deletion_set v) key_prefix \<rparr>)"

definition mv_contains_key :: "database \<Rightarrow> 'v byte_map_view \<Rightarrow> bytes \<Rightarrow> bool" where
  "mv_contains_key db v short_key =
    (case btm_get (mv_updates v) short_key of
       Some u \<Rightarrow> (case u of Removed \<Rightarrow> False | Set _ \<Rightarrow> True)
     | None \<Rightarrow>
        if ds_contains_prefix_of (mv_deletion_set v) short_key then False
        else btm_get db (mv_base_key v @ short_key) \<noteq> None)"

definition read_value :: "'v serde \<Rightarrow> database \<Rightarrow> bytes \<Rightarrow> ('v option, view_error) result" where
  "read_value sd db key =
    (case btm_get db key of
       None \<Rightarrow> Ok None
     | Some bs \<Rightarrow> (case sd_from_bytes sd bs of None \<Rightarrow> Err ViewBcs | Some x \<Rightarrow> Ok (Some x)))"

definition mv_get :: "'v serde \<Rightarrow> database \<Rightarrow> 'v byte_map_view \<Rightarrow> bytes \<Rightarrow> ('v option, view_error) result" where
  "mv_get sd db v short_key =
    (case btm_get (mv_updates v) short_key of
       Some u \<Rightarrow> Ok (case u of Removed \<Rightarrow> None | Set x \<Rightarrow> Some x)
     | None \<Rightarrow>
        if ds_contains_prefix_of (mv_deletion_set v) short_key then Ok None
        else read_value sd db (mv_base_key v @ short_key))"

text \<open>The first pass of \<open>multi_get\<close>: what the updates answer, and the positions to read from storage.\<close>

fun multi_get_scan ::
  "'v byte_map_view \<Rightarrow> nat \<Rightarrow> bytes list \<Rightarrow> 'v option list \<times> (nat \<times> bytes) list" where
  "multi_get_scan v i [] = ([], [])"
| "multi_get_scan v i (short_key # short_keys) =
    (case multi_get_scan v (Suc i) short_keys of (results, missed) \<Rightarrow>
     case btm_get (mv_updates v) short_key of
       Some (Set x) \<Rightarrow> (Some x # results, missed)
     | Some Removed \<Rightarrow> (None # results, missed)
     | None \<Rightarrow>
        if ds_contains_prefix_of (mv_deletion_set v) short_key then (None # results, missed)
        else (None # results, (i, mv_base_key v @ short_key) # missed))"

definition mv_multi_get ::
  "'v serde \<Rightarrow> database \<Rightarrow> 'v byte_map_view \<Rightarrow> bytes list \<Rightarrow> ('v option list, view_error) result" where
  "mv_multi_get sd db v short_keys =
    (case multi_get_scan v 0 short_keys of (results, missed) \<Rightarrow>
     try_fold (\<lambda>results (i, key). and_then (read_value sd db key) (\<lambda>x. Ok (results[i := x]))) results missed)"

text \<open>\<open>get_mut\<close> hands out a reference; \<open>f\<close> is the change the caller makes through it.\<close>

definition mv_get_mut ::
  "'v serde \<Rightarrow> database \<Rightarrow> 'v byte_map_view \<Rightarrow> bytes \<Rightarrow> ('v \<Rightarrow> 'v) \<Rightarrow> ('v byte_map_view \<times> 'v option, view_error) result" where
  "mv_get_mut sd db v short_key f =
    (case btm_get (mv_updates v) short_key of
       Some (Set x) \<Rightarrow> Ok (mv_insert v short_key (f x), Some x)
     | Some Removed \<Rightarrow> Ok (v, None)
     | None \<Rightarrow>
        if ds_contains_prefix_of (mv_deletion_set v) short_key then Ok (v, None)
        else and_then (read_value sd db (mv_base_key v @ short_key)) (\<lambda>value.
          Ok (case value of None \<Rightarrow> (v, None) | Some x \<Rightarrow> (mv_insert v short_key (f x), Some x))))"

definition mv_get_mut_or_default ::
  "'v \<Rightarrow> 'v serde \<Rightarrow> database \<Rightarrow> 'v byte_map_view \<Rightarrow> bytes \<Rightarrow> ('v \<Rightarrow> 'v) \<Rightarrow> ('v byte_map_view \<times> 'v, view_error) result" where
  "mv_get_mut_or_default dflt sd db v short_key f =
    and_then
      (case btm_get (mv_updates v) short_key of
         None \<Rightarrow>
          if ds_contains_prefix_of (mv_deletion_set v) short_key then Ok dflt
          else and_then (read_value sd db (mv_base_key v @ short_key)) (\<lambda>value.
            Ok (case value of None \<Rightarrow> dflt | Some x \<Rightarrow> x))
       | Some (Set x) \<Rightarrow> Ok x
       | Some Removed \<Rightarrow> Ok dflt) (\<lambda>x. Ok (mv_insert v short_key (f x), x))"

subsection \<open>Iteration\<close>

text \<open>
  The callback of an iteration takes a state and tells whether to go on. The loops
  return the last state, and whether the iteration ran to the end. \<open>fu\<close> is called for an
  update and \<open>fs\<close> for a stored entry.
\<close>

fun drain_updates ::
  "('s \<Rightarrow> bytes \<Rightarrow> 'v \<Rightarrow> ('s \<times> bool, view_error) result) \<Rightarrow> nat \<Rightarrow> 's \<Rightarrow> (bytes \<times> 'v update) list
    \<Rightarrow> ('s \<times> bool, view_error) result" where
  "drain_updates fu n s [] = Ok (s, True)"
| "drain_updates fu n s ((key, u) # updates) =
    (case u of
       Removed \<Rightarrow> drain_updates fu n s updates
     | Set x \<Rightarrow>
        and_then (fu s (drop n key) x) (\<lambda>(s, more). if more then drain_updates fu n s updates else Ok (s, False)))"

function merge_loop ::
  "('s \<Rightarrow> bytes \<Rightarrow> 'v \<Rightarrow> ('s \<times> bool, view_error) result) \<Rightarrow> ('s \<Rightarrow> bytes \<Rightarrow> 'b \<Rightarrow> ('s \<times> bool, view_error) result)
    \<Rightarrow> nat \<Rightarrow> suffix_closed_set_iterator \<Rightarrow> 's \<Rightarrow> (bytes \<times> 'b) list \<Rightarrow> (bytes \<times> 'v update) list
    \<Rightarrow> ('s \<times> bool, view_error) result" where
  "merge_loop fu fs n it s [] updates = drain_updates fu n s updates"
| "merge_loop fu fs n it s ((index, stored) # rest) ((key, u) # updates) =
    (if drop n key \<le> index then
       and_then (case u of Removed \<Rightarrow> Ok (s, True) | Set x \<Rightarrow> fu s (drop n key) x) (\<lambda>(s, more).
       if \<not> more then Ok (s, False)
       else if drop n key = index then merge_loop fu fs n it s rest updates
       else merge_loop fu fs n it s ((index, stored) # rest) updates)
     else
       case find_key it index of (it, found) \<Rightarrow>
       and_then (if found then Ok (s, True) else fs s index stored) (\<lambda>(s, more).
       if \<not> more then Ok (s, False) else merge_loop fu fs n it s rest ((key, u) # updates)))"
| "merge_loop fu fs n it s ((index, stored) # rest) [] =
    (case find_key it index of (it, found) \<Rightarrow>
     and_then (if found then Ok (s, True) else fs s index stored) (\<lambda>(s, more).
     if \<not> more then Ok (s, False) else merge_loop fu fs n it s rest []))"
  by pat_completeness auto
termination
  by (relation "measure (\<lambda>(fu, fs, n, it, s, entries, updates). length entries + length updates)") auto

definition iterate ::
  "('s \<Rightarrow> bytes \<Rightarrow> 'v \<Rightarrow> ('s \<times> bool, view_error) result) \<Rightarrow> ('s \<Rightarrow> bytes \<Rightarrow> bytes \<Rightarrow> ('s \<times> bool, view_error) result)
    \<Rightarrow> database \<Rightarrow> 'v byte_map_view \<Rightarrow> bytes \<Rightarrow> 's \<Rightarrow> ('s \<times> bool, view_error) result" where
  "iterate fu fs db v prefix s =
    (let updates = filter (\<lambda>(k, _). in_range (get_interval prefix) k) (mv_updates v) in
     if ds_contains_prefix_of (mv_deletion_set v) prefix then drain_updates fu (length prefix) s updates
     else
       merge_loop fu fs (length prefix)
         (SuffixClosedSetIterator_new (length prefix)
           (filter (in_range (get_interval prefix)) (ds_deleted_prefixes (mv_deletion_set v))))
         s (find_key_values_by_prefix db (mv_base_key v @ prefix)) updates)"

definition for_each_key_while ::
  "('s \<Rightarrow> bytes \<Rightarrow> ('s \<times> bool, view_error) result) \<Rightarrow> database \<Rightarrow> 'v byte_map_view \<Rightarrow> bytes \<Rightarrow> 's \<Rightarrow> ('s, view_error) result" where
  "for_each_key_while f db v prefix s =
    and_then (iterate (\<lambda>s k _. f s k) (\<lambda>s k _. f s k) db v prefix s) (\<lambda>(s, _). Ok s)"

definition mv_keys_by_prefix :: "database \<Rightarrow> 'v byte_map_view \<Rightarrow> bytes \<Rightarrow> (bytes list, view_error) result" where
  "mv_keys_by_prefix db v prefix =
    for_each_key_while (\<lambda>keys key. Ok (keys @ [prefix @ key], True)) db v prefix []"

definition mv_keys :: "database \<Rightarrow> 'v byte_map_view \<Rightarrow> (bytes list, view_error) result" where
  "mv_keys db v = for_each_key_while (\<lambda>keys key. Ok (keys @ [key], True)) db v [] []"

definition mv_count :: "database \<Rightarrow> 'v byte_map_view \<Rightarrow> (nat, view_error) result" where
  "mv_count db v = for_each_key_while (\<lambda>count _. Ok (count + 1, True)) db v [] 0"

datatype 'v value_or_bytes = Value 'v | Bytes bytes

definition to_value :: "'v serde \<Rightarrow> 'v value_or_bytes \<Rightarrow> ('v, view_error) result" where
  "to_value sd x = (case x of Value x \<Rightarrow> Ok x | Bytes bs \<Rightarrow> ok_or (sd_from_bytes sd bs) ViewBcs)"

definition for_each_key_value_or_bytes_while ::
  "('s \<Rightarrow> bytes \<Rightarrow> 'v value_or_bytes \<Rightarrow> ('s \<times> bool, view_error) result) \<Rightarrow> database \<Rightarrow> 'v byte_map_view \<Rightarrow> bytes \<Rightarrow> 's
    \<Rightarrow> ('s, view_error) result" where
  "for_each_key_value_or_bytes_while f db v prefix s =
    and_then (iterate (\<lambda>s k x. f s k (Value x)) (\<lambda>s k bs. f s k (Bytes bs)) db v prefix s) (\<lambda>(s, _). Ok s)"

definition for_each_key_value_while ::
  "'v serde \<Rightarrow> ('s \<Rightarrow> bytes \<Rightarrow> 'v \<Rightarrow> ('s \<times> bool, view_error) result) \<Rightarrow> database \<Rightarrow> 'v byte_map_view \<Rightarrow> bytes \<Rightarrow> 's
    \<Rightarrow> ('s, view_error) result" where
  "for_each_key_value_while sd f db v prefix s =
    for_each_key_value_or_bytes_while (\<lambda>s k x. and_then (to_value sd x) (\<lambda>x. f s k x)) db v prefix s"

definition mv_key_values_by_prefix ::
  "'v serde \<Rightarrow> database \<Rightarrow> 'v byte_map_view \<Rightarrow> bytes \<Rightarrow> ((bytes \<times> 'v) list, view_error) result" where
  "mv_key_values_by_prefix sd db v prefix =
    for_each_key_value_while sd (\<lambda>kvs key x. Ok (kvs @ [(prefix @ key, x)], True)) db v prefix []"

section \<open>What an iteration visits\<close>

fun visit ::
  "('s \<Rightarrow> bytes \<Rightarrow> 'x \<Rightarrow> ('s \<times> bool, view_error) result) \<Rightarrow> 's \<Rightarrow> (bytes \<times> 'x) list \<Rightarrow> ('s \<times> bool, view_error) result" where
  "visit f s [] = Ok (s, True)"
| "visit f s ((k, x) # xs) = and_then (f s k x) (\<lambda>(s, more). if more then visit f s xs else Ok (s, False))"

definition set_updates :: "(bytes \<times> 'v update) list \<Rightarrow> (bytes \<times> ('v + 'b)) list" where
  "set_updates updates = List.map_filter (\<lambda>(k, u). case u of Removed \<Rightarrow> None | Set x \<Rightarrow> Some (k, Inl x)) updates"

text \<open>The entries the two loops visit, in order: updates on the left, stored entries on the right.\<close>

function merge_list ::
  "suffix_closed_set_iterator \<Rightarrow> (bytes \<times> 'b) list \<Rightarrow> (bytes \<times> 'v update) list \<Rightarrow> (bytes \<times> ('v + 'b)) list" where
  "merge_list it [] updates = set_updates updates"
| "merge_list it ((index, stored) # rest) ((key, u) # updates) =
    (if key \<le> index then
       set_updates [(key, u)] @
       (if key = index then merge_list it rest updates else merge_list it ((index, stored) # rest) updates)
     else
       case find_key it index of (it, found) \<Rightarrow>
       (if found then [] else [(index, Inr stored)]) @ merge_list it rest ((key, u) # updates))"
| "merge_list it ((index, stored) # rest) [] =
    (case find_key it index of (it, found) \<Rightarrow>
     (if found then [] else [(index, Inr stored)]) @ merge_list it rest [])"
  by pat_completeness auto
termination
  by (relation "measure (\<lambda>(it, entries, updates). length entries + length updates)") auto

abbreviation either :: "('s \<Rightarrow> bytes \<Rightarrow> 'v \<Rightarrow> 'r) \<Rightarrow> ('s \<Rightarrow> bytes \<Rightarrow> 'b \<Rightarrow> 'r) \<Rightarrow> 's \<Rightarrow> bytes \<Rightarrow> 'v + 'b \<Rightarrow> 'r" where
  "either fu fs \<equiv> \<lambda>s k x. case x of Inl v \<Rightarrow> fu s k v | Inr b \<Rightarrow> fs s k b"

abbreviation dropped :: "nat \<Rightarrow> (bytes \<times> 'u) list \<Rightarrow> (bytes \<times> 'u) list" where
  "dropped n \<equiv> map (\<lambda>(k, u). (drop n k, u))"

lemma set_updates_simps [simp]:
  "set_updates [] = []"
  "set_updates ((k, Removed) # us) = set_updates us" "set_updates ((k, Set x) # us) = (k, Inl x) # set_updates us"
  by (simp_all add: set_updates_def)

lemma drain_updates_visits: "drain_updates fu n s us = visit (either fu fs) s (set_updates (dropped n us))"
proof (induction fu n s us rule: drain_updates.induct)
  case (2 fu n s key u us)
  then show ?case by (cases u) (auto intro!: and_then_cong)
qed simp

lemma merge_loop_visits:
  "merge_loop fu fs n it s entries us = visit (either fu fs) s (merge_list it entries (dropped n us))"
proof (induction fu fs n it s entries us rule: merge_loop.induct)
  case (1 fu fs n it s us)
  show ?case by (simp add: drain_updates_visits [of fu n s us fs])
next
  case (2 fu fs n it s index stored rest key u us)
  obtain it' found where find: "find_key it index = (it', found)" by fastforce
  show ?case
  proof (cases "drop n key \<le> index")
    case True
    with 2(1,2) show ?thesis by (cases u) (auto intro!: and_then_cong)
  next
    case False
    with 2(3) [OF False find [symmetric]] show ?thesis by (cases found) (auto simp: find intro!: and_then_cong)
  qed
next
  case (3 fu fs n it s index stored rest)
  obtain it' found where find: "find_key it index = (it', found)" by fastforce
  with 3 [OF find [symmetric]] show ?case by (cases found) (auto intro!: and_then_cong)
qed

text \<open>The entry under a key: the update if there is one, otherwise what is stored and not deleted.\<close>

definition merged_at :: "bytes list \<Rightarrow> (bytes \<times> 'b) list \<Rightarrow> (bytes \<times> 'v update) list \<Rightarrow> bytes \<Rightarrow> ('v + 'b) option" where
  "merged_at ps entries updates k =
    (case btm_get updates k of
       Some (Set x) \<Rightarrow> Some (Inl x)
     | Some Removed \<Rightarrow> None
     | None \<Rightarrow> if \<exists>p \<in> set ps. starts_with k p then None else map_option Inr (btm_get entries k))"

lemma set_updates_Cons: "set_updates ((k, u) # us) = (case u of Removed \<Rightarrow> [] | Set x \<Rightarrow> [(k, Inl x)]) @ set_updates us"
  by (cases u) simp_all

lemma set_updates_keys: "fst ` set (set_updates us) \<subseteq> fst ` set us"
proof (induction us)
  case (Cons e us)
  then show ?case by (cases e; cases "snd e") auto
qed simp

lemma merge_list_keys: "fst ` set (merge_list it entries us) \<subseteq> fst ` set entries \<union> fst ` set us"
proof (induction it entries us rule: merge_list.induct)
  case (1 it us)
  show ?case using set_updates_keys [of us] by simp
next
  case (2 it index stored rest key u us)
  obtain it' found where find: "find_key it index = (it', found)" by fastforce
  consider (same) "key = index" | (update) "key \<le> index" "key \<noteq> index" | (stored) "\<not> key \<le> index" by blast
  then show ?case
  proof cases
    case same
    with 2(1) show ?thesis by (cases u) (simp_all, blast+)
  next
    case update
    with 2(2) show ?thesis by (cases u) (simp_all, blast+)
  next
    case stored
    with 2(3) [OF _ find [symmetric]] show ?thesis by (cases found) (simp_all add: find, blast+)
  qed
next
  case (3 it index stored rest)
  obtain it' found where find: "find_key it index = (it', found)" by fastforce
  with 3 [OF find [symmetric]] show ?case by (cases found) (simp_all add: find, blast+)
qed

lemma btm_ok_ConsI: "btm_ok m \<Longrightarrow> fst ` set m \<subseteq> K \<Longrightarrow> \<forall>k \<in> K. a < k \<Longrightarrow> btm_ok ((a, x) # m)"
  by (simp add: btm_ok_Cons) blast

lemma btm_get_below: "\<forall>k \<in> fst ` set m. a < k \<Longrightarrow> btm_get m (a :: 'k::linorder) = None"
  by (auto simp: map_of_eq_None_iff)

lemma set_updates_sorted:
  "btm_ok us \<Longrightarrow> btm_ok (set_updates us) \<and>
    btm_get (set_updates us) k = (case btm_get us k of Some (Set x) \<Rightarrow> Some (Inl x) | _ \<Rightarrow> None)"
proof (induction us)
  case (Cons e us)
  obtain a u where e: "e = (a, u)" by fastforce
  have us: "\<forall>k \<in> fst ` set us. a < k" "btm_ok us" using Cons.prems by (simp_all add: e btm_ok_Cons)
  with Cons.IH btm_ok_ConsI [OF _ set_updates_keys us(1)] btm_get_below [OF us(1)]
  show ?case by (cases u) (auto simp: e)
qed simp

lemma merged_at_simps:
  "merged_at ps [] us k = (case btm_get us k of Some (Set x) \<Rightarrow> Some (Inl x) | _ \<Rightarrow> None)"
  "merged_at ps entries ((key, u) # us) k =
    (if k = key then (case u of Set x \<Rightarrow> Some (Inl x) | Removed \<Rightarrow> None) else merged_at ps entries us k)"
  "k \<noteq> index \<Longrightarrow> merged_at ps ((index, stored) # rest) us k = merged_at ps rest us k"
  "btm_get us index = None \<Longrightarrow> found = (\<exists>p \<in> set ps. starts_with index p) \<Longrightarrow>
    merged_at ps ((index, stored) # rest) us k =
      (if k = index then if found then None else Some (Inr stored) else merged_at ps rest us k)"
  "btm_get us k = None \<Longrightarrow> btm_get entries k = None \<Longrightarrow> merged_at ps entries us k = None"
  by (auto simp: merged_at_def split: option.splits update.splits)

lemma prepend_entry:
  assumes "btm_ok L \<and> (\<forall>k. btm_get L k = M k)" "fst ` set L \<subseteq> K" "\<forall>k \<in> K. a < k"
  shows "btm_ok ((a, x) # L) \<and> (\<forall>k. btm_get ((a, x) # L) k = (if k = a then Some x else M k))"
  using assms btm_ok_ConsI [OF _ assms(2,3)] by simp

lemma merge_list_correct:
  assumes "btm_ok entries" "btm_ok us" and ps: "sorted_wrt (<) ps" "prefix_free ps"
    and "iter_inv ps it v0" "\<forall>k \<in> fst ` set entries. v0 \<le> k"
  shows "btm_ok (merge_list it entries us) \<and> (\<forall>k. btm_get (merge_list it entries us) k = merged_at ps entries us k)"
  using assms(1,2,5,6)
proof (induction it entries us arbitrary: v0 rule: merge_list.induct)
  case (1 it us)
  then show ?case by (simp add: set_updates_sorted merged_at_simps)
next
  case (2 it index stored rest key u us)
  obtain it' found where find: "find_key it index = (it', found)" by fastforce
  have rest: "\<forall>k \<in> fst ` set rest. index < k" "btm_ok rest" and us: "\<forall>k \<in> fst ` set us. key < k" "btm_ok us"
    using 2(4,5) by (simp_all add: btm_ok_Cons)
  note none = btm_get_below [OF rest(1)] btm_get_below [OF us(1)]
  consider (same) "key = index" | (update) "key < index" | (stored) "index < key" by (rule linorder_cases)
  then show ?case
  proof cases
    case same
    have "btm_ok (merge_list it rest us) \<and> (\<forall>k. btm_get (merge_list it rest us) k = merged_at ps rest us k)"
      by (rule 2(1) [of v0]) (use same rest us 2(6,7) in auto)
    with same none btm_ok_ConsI [OF _ merge_list_keys [of it rest us], of key] rest(1) us(1)
    show ?thesis by (cases u) (auto simp: merged_at_simps)
  next
    case update
    let ?entries = "(index, stored) # rest"
    have "btm_ok (merge_list it ?entries us) \<and> (\<forall>k. btm_get (merge_list it ?entries us) k = merged_at ps ?entries us k)"
      by (rule 2(2) [of v0]) (use update rest us 2(4,6,7) in auto)
    note L = this
    have below: "\<forall>k \<in> fst ` set ?entries. key < k" using rest(1) update by (auto dest: less_trans)
    then have M: "merged_at ps ?entries us key = None"
      by (intro merged_at_simps(5) none(2) btm_get_below)
    have "\<forall>k \<in> fst ` set ?entries \<union> fst ` set us. key < k" using below us(1) by blast
    note put = prepend_entry [OF L merge_list_keys this]
    have step: "merge_list it ?entries ((key, u) # us) = set_updates [(key, u)] @ merge_list it ?entries us"
      using update by (simp add: less_imp_le less_imp_neq)
    show ?thesis unfolding step merged_at_simps(2) using L M put by (cases u) auto
  next
    case stored
    let ?us = "(key, u) # us"
    from find_key_correct [OF 2(6) _ ps find] 2(7)
    have it': "iter_inv ps it' index" "found \<longleftrightarrow> (\<exists>p \<in> set ps. starts_with index p)" by simp_all
    have "btm_ok (merge_list it' rest ?us) \<and> (\<forall>k. btm_get (merge_list it' rest ?us) k = merged_at ps rest ?us k)"
      by (rule 2(3) [OF _ find [symmetric] _ _ it'(1)]) (use stored rest us 2(5) in auto)
    note L = this
    have below: "\<forall>k \<in> fst ` set ?us. index < k" using us(1) stored by (auto dest: less_trans)
    then have us': "btm_get ?us index = None" by (rule btm_get_below)
    then have M: "merged_at ps rest ?us index = None" by (intro merged_at_simps(5) none(1))
    have "\<forall>k \<in> fst ` set rest \<union> fst ` set ?us. index < k" using below rest(1) by blast
    note put = prepend_entry [OF L merge_list_keys this]
    have step: "merge_list it ((index, stored) # rest) ?us = (if found then [] else [(index, Inr stored)]) @ merge_list it' rest ?us"
    proof -
      have "\<not> key \<le> index" using stored by (simp only: not_le)
      then show ?thesis using find by simp
    qed
    show ?thesis unfolding step merged_at_simps(4) [OF us' it'(2)] using L M put by (cases found) simp_all
  qed
next
  case (3 it index stored rest)
  obtain it' found where find: "find_key it index = (it', found)" by fastforce
  have rest: "\<forall>k \<in> fst ` set rest. index < k" "btm_ok rest" using 3(2) by (simp_all add: btm_ok_Cons)
  from find_key_correct [OF 3(4) _ ps find] 3(5)
  have it': "iter_inv ps it' index" "found \<longleftrightarrow> (\<exists>p \<in> set ps. starts_with index p)" by simp_all
  have "\<forall>k \<in> fst ` set rest. index \<le> k" using rest(1) by auto
  note L = 3(1) [OF find [symmetric] rest(2) btm_ok_Nil it'(1) this]
  note none = merged_at_simps(5) [OF _ btm_get_below [OF rest(1)], of "[]"]
  have "\<forall>k \<in> fst ` set rest \<union> fst ` set []. index < k" using rest(1) by simp
  note put = prepend_entry [OF L merge_list_keys this]
  show ?case
    using L put find by (cases found) (simp_all add: merged_at_simps(4) [OF _ it'(2)] none)
qed

lemma append_less_append [simp]: "p @ a < p @ b \<longleftrightarrow> a < (b :: bytes)"
  by (induction p) auto

lemma starts_with_append [simp]: "starts_with (p @ k) p" "starts_with (p @ k) (p @ q) \<longleftrightarrow> starts_with k q"
  by (simp_all add: starts_with_def)

lemma in_interval_abs: "in_range (get_interval p) = (\<lambda>k. starts_with k p)"
  by (simp add: fun_eq_iff)

lemma stripped_entries:
  assumes "btm_ok m"
  shows "btm_ok (dropped (length p) (filter (\<lambda>(k, _). starts_with k p) m)) \<and>
    (\<forall>k. btm_get (dropped (length p) (filter (\<lambda>(k, _). starts_with k p) m)) k = btm_get m (p @ k))"
  using assms
proof (induction m)
  case (Cons e m)
  obtain a x where e: "e = (a, x)" by fastforce
  show ?case
  proof (cases "starts_with a p")
    case True
    then obtain r where a: "a = p @ r" by (auto simp: starts_with_iff_append)
    have "\<forall>k \<in> fst ` set (dropped (length p) (filter (\<lambda>(k, _). starts_with k p) m)). r < k"
      using Cons.prems by (auto simp: e a btm_ok_Cons starts_with_iff_append)
    with Cons show ?thesis by (auto simp: e a btm_ok_Cons)
  next
    case False
    then have "p @ k \<noteq> a" for k by auto
    with Cons False show ?thesis by (auto simp: e btm_ok_Cons)
  qed
qed simp

lemma stripped_prefixes:
  assumes "sorted_wrt (<) ps" "prefix_free ps" "\<forall>q \<in> set ps. \<not> starts_with p q"
  shows "sorted_wrt (<) (map (drop (length p)) (filter (\<lambda>q. starts_with q p) ps))"
    "prefix_free (map (drop (length p)) (filter (\<lambda>q. starts_with q p) ps))"
    "(\<exists>q \<in> set (map (drop (length p)) (filter (\<lambda>q. starts_with q p) ps)). starts_with k q) \<longleftrightarrow>
      (\<exists>q \<in> set ps. starts_with (p @ k) q)"
proof -
  show "sorted_wrt (<) (map (drop (length p)) (filter (\<lambda>q. starts_with q p) ps))"
    using assms(1) by (induction ps) (auto simp: starts_with_iff_append)
  show "prefix_free (map (drop (length p)) (filter (\<lambda>q. starts_with q p) ps))"
    unfolding prefix_free_def
  proof (intro ballI impI)
    fix a b assume "a \<in> set (map (drop (length p)) (filter (\<lambda>q. starts_with q p) ps))"
      "b \<in> set (map (drop (length p)) (filter (\<lambda>q. starts_with q p) ps))" and ab: "starts_with a b"
    then have "p @ a \<in> set ps" "p @ b \<in> set ps" by (auto simp: starts_with_iff_append)
    with assms(2) ab have "p @ a = p @ b" unfolding prefix_free_def by (metis starts_with_append(2))
    then show "a = b" by simp
  qed
  have "starts_with q p" if "q \<in> set ps" "starts_with (p @ k) q" for q
  proof -
    from that(2) obtain s where s: "p @ k = q @ s" by (auto simp: starts_with_iff_append)
    then consider us where "p = q @ us" | us where "q = p @ us" by (auto simp: append_eq_append_conv2)
    then show ?thesis using assms(3) that(1) by cases auto
  qed
  moreover have "starts_with k (drop (length p) q) \<longleftrightarrow> starts_with (p @ k) q" if "starts_with q p" for q
    using that by (auto simp: starts_with_iff_append)
  ultimately show "(\<exists>q \<in> set (map (drop (length p)) (filter (\<lambda>q. starts_with q p) ps)). starts_with k q) \<longleftrightarrow>
      (\<exists>q \<in> set ps. starts_with (p @ k) q)"
    unfolding set_map set_filter by blast
qed

section \<open>The content of a view\<close>

definition mv_ok :: "'v byte_map_view \<Rightarrow> bool" where
  "mv_ok v \<longleftrightarrow> ds_ok (mv_deletion_set v) \<and> btm_ok (mv_updates v)"

definition mv_entry :: "database \<Rightarrow> 'v byte_map_view \<Rightarrow> bytes \<Rightarrow> ('v + bytes) option" where
  "mv_entry db v k =
    (case btm_get (mv_updates v) k of
       Some (Set x) \<Rightarrow> Some (Inl x)
     | Some Removed \<Rightarrow> None
     | None \<Rightarrow> if k \<in> ds_keys (mv_deletion_set v) then None else map_option Inr (btm_get db (mv_base_key v @ k)))"

text \<open>The entries under a prefix, in the order in which an iteration visits them.\<close>

definition mv_entries :: "database \<Rightarrow> 'v byte_map_view \<Rightarrow> bytes \<Rightarrow> (bytes \<times> ('v + bytes)) list" where
  "mv_entries db v prefix =
    (let updates = dropped (length prefix) (filter (\<lambda>(k, _). starts_with k prefix) (mv_updates v)) in
     if ds_contains_prefix_of (mv_deletion_set v) prefix then set_updates updates
     else
       merge_list
         (SuffixClosedSetIterator_new (length prefix)
           (filter (\<lambda>q. starts_with q prefix) (ds_deleted_prefixes (mv_deletion_set v))))
         (find_key_values_by_prefix db (mv_base_key v @ prefix)) updates)"

lemma iterate_visits: "iterate fu fs db v prefix s = visit (either fu fs) s (mv_entries db v prefix)"
  by (simp add: iterate_def mv_entries_def Let_def merge_loop_visits drain_updates_visits [of fu "length prefix" s _ fs] in_interval_abs)

lemma mv_entries_correct:
  assumes "mv_ok v" "btm_ok db"
  shows "btm_ok (mv_entries db v prefix)" "btm_get (mv_entries db v prefix) k = mv_entry db v (prefix @ k)"
proof -
  let ?n = "length prefix" and ?d = "mv_deletion_set v"
  let ?us = "dropped ?n (filter (\<lambda>(k, _). starts_with k prefix) (mv_updates v))"
  have us: "btm_ok ?us \<and> (\<forall>k. btm_get ?us k = btm_get (mv_updates v) (prefix @ k))"
    by (rule stripped_entries) (use assms(1) in \<open>simp add: mv_ok_def\<close>)
  have ds: "ds_ok ?d" using assms(1) by (simp add: mv_ok_def)
  have "btm_ok (mv_entries db v prefix) \<and> btm_get (mv_entries db v prefix) k = mv_entry db v (prefix @ k)"
  proof (cases "prefix \<in> ds_keys ?d")
    case True
    then have "prefix @ k \<in> ds_keys ?d"
      by (auto simp: ds_keys_def split: if_splits intro: starts_with_trans [OF starts_with_append(1)])
    moreover have "mv_entries db v prefix = set_updates ?us" using True ds by (simp add: mv_entries_def ds_contains_iff)
    ultimately show ?thesis
      using us by (simp add: set_updates_sorted mv_entry_def split: option.splits update.splits)
  next
    case False
    then have first: "\<not> ds_delete_storage_first ?d" and no: "\<forall>q \<in> set (ds_deleted_prefixes ?d). \<not> starts_with prefix q"
      by (auto simp: ds_keys_def split: if_splits)
    let ?ps = "filter (\<lambda>q. starts_with q prefix) (ds_deleted_prefixes ?d)"
    let ?it = "SuffixClosedSetIterator_new ?n ?ps" and ?entries = "find_key_values_by_prefix db (mv_base_key v @ prefix)"
    have sorted: "sorted_wrt (<) (ds_deleted_prefixes ?d)" "prefix_free (ds_deleted_prefixes ?d)"
      using ds by (simp_all add: ds_ok_def bts_ok_def)
    note ps = stripped_prefixes [OF sorted no]
    have entries: "btm_ok ?entries \<and> (\<forall>k. btm_get ?entries k = btm_get db (mv_base_key v @ prefix @ k))"
      using stripped_entries [OF assms(2), of "mv_base_key v @ prefix"] by (simp add: find_key_values_by_prefix_def)
    have L: "btm_ok (merge_list ?it ?entries ?us) \<and>
        (\<forall>k. btm_get (merge_list ?it ?entries ?us) k = merged_at (map (drop ?n) ?ps) ?entries ?us k)"
      by (rule merge_list_correct [OF _ _ ps(1,2) iter_inv_new [of ?n ?ps "[]"]]) (use us entries in auto)
    have "merged_at (map (drop ?n) ?ps) ?entries ?us k = mv_entry db v (prefix @ k)"
      using us entries ps(3) [of k] first
      by (auto simp: merged_at_def mv_entry_def ds_keys_def split: option.splits update.splits)
    moreover have "mv_entries db v prefix = merge_list ?it ?entries ?us"
      using False ds by (simp add: mv_entries_def ds_contains_iff)
    ultimately show ?thesis using L by simp
  qed
  then show "btm_ok (mv_entries db v prefix)" "btm_get (mv_entries db v prefix) k = mv_entry db v (prefix @ k)"
    by blast+
qed

text \<open>
  The reference: the current value under each key and the one that is saved. The hypotheses on the
  encoding: a value survives it, and what is stored under the base key decodes.
\<close>

definition roundtrips :: "'v serde \<Rightarrow> bool" where
  "roundtrips sd \<longleftrightarrow> (\<forall>x. sd_from_bytes sd (sd_to_bytes sd x) = Some x)"

definition decodable :: "'v serde \<Rightarrow> database \<Rightarrow> bytes \<Rightarrow> bool" where
  "decodable sd db base \<longleftrightarrow> (\<forall>(k, bs) \<in> set db. starts_with k base \<longrightarrow> sd_from_bytes sd bs \<noteq> None)"

definition saved_map :: "'v serde \<Rightarrow> database \<Rightarrow> bytes \<Rightarrow> bytes \<Rightarrow> 'v option" where
  "saved_map sd db base k = Option.bind (btm_get db (base @ k)) (sd_from_bytes sd)"

definition current_map :: "'v serde \<Rightarrow> database \<Rightarrow> 'v byte_map_view \<Rightarrow> bytes \<Rightarrow> 'v option" where
  "current_map sd db v k = Option.bind (mv_entry db v k) (case_sum Some (sd_from_bytes sd))"

lemma decodable_get: "decodable sd db base \<Longrightarrow> btm_get db (base @ k) = Some bs \<Longrightarrow> \<exists>x. sd_from_bytes sd bs = Some x"
  by (drule map_of_SomeD) (auto simp: decodable_def)

lemma decodable_entry:
  "decodable sd db (mv_base_key v) \<Longrightarrow> mv_entry db v k = Some e \<Longrightarrow> \<exists>x. case_sum Some (sd_from_bytes sd) e = Some x"
  by (auto simp: mv_entry_def dest: decodable_get split: option.splits update.splits if_splits)

lemma read_value_saved:
  "decodable sd db base \<Longrightarrow> read_value sd db (base @ k) = Ok (saved_map sd db base k)"
  by (auto simp: read_value_def saved_map_def dest: decodable_get split: option.splits)

lemma current_map_cases:
  "current_map sd db v k =
    (case btm_get (mv_updates v) k of
       Some (Set x) \<Rightarrow> Some x
     | Some Removed \<Rightarrow> None
     | None \<Rightarrow> if k \<in> ds_keys (mv_deletion_set v) then None else saved_map sd db (mv_base_key v) k)"
  by (cases "btm_get db (mv_base_key v @ k)")
    (auto simp: current_map_def mv_entry_def saved_map_def split: option.splits update.splits)

lemma mv_get_current:
  assumes "mv_ok v" "decodable sd db (mv_base_key v)"
  shows "mv_get sd db v k = Ok (current_map sd db v k)"
  using assms by (auto simp: mv_get_def mv_ok_def ds_contains_iff read_value_saved current_map_cases split: option.splits update.splits)

lemma mv_contains_key_current:
  assumes "mv_ok v" "decodable sd db (mv_base_key v)"
  shows "mv_contains_key db v k \<longleftrightarrow> current_map sd db v k \<noteq> None"
  using assms
  by (cases "btm_get db (mv_base_key v @ k)")
    (auto simp: mv_contains_key_def mv_ok_def ds_contains_iff current_map_cases saved_map_def dest: decodable_get
      split: option.splits update.splits)

lemma multi_get_scan_current:
  assumes "mv_ok v" "decodable sd db (mv_base_key v)"
  shows "try_fold (\<lambda>results (i, key). and_then (read_value sd db key) (\<lambda>x. Ok (results[i := x])))
      (done @ fst (multi_get_scan v (length done) ks)) (snd (multi_get_scan v (length done) ks))
    = Ok (done @ map (current_map sd db v) ks)"
proof (induction ks arbitrary: "done")
  case (Cons k ks)
  note IH = Cons [of "done @ [x]" for x]
  obtain rs ms where scan: "multi_get_scan v (Suc (length done)) ks = (rs, ms)" by fastforce
  have ms: "current_map sd db v k = x \<Longrightarrow>
     try_fold (\<lambda>results (i, key). and_then (read_value sd db key) (\<lambda>x. Ok (results[i := x]))) (done @ x # rs) ms
     = Ok (done @ current_map sd db v k # map (current_map sd db v) ks)" for x
    using IH [of x] by (simp add: scan)
  have ds: "ds_contains_prefix_of (mv_deletion_set v) k \<longleftrightarrow> k \<in> ds_keys (mv_deletion_set v)"
    using assms(1) by (simp add: mv_ok_def ds_contains_iff)
  show ?case
    using ms by (auto simp: scan ds read_value_saved [OF assms(2)] current_map_cases split: option.splits update.splits)
qed simp

lemma visit_collects:
  assumes "\<And>acc k x. (k, x) \<in> set L \<Longrightarrow> f acc k x = Ok (acc @ [g k x], True)"
  shows "visit f acc L = Ok (acc @ map (\<lambda>(k, x). g k x) L, True)"
  using assms by (induction L arbitrary: acc) auto

lemma visit_counts: "visit (\<lambda>n _ _. Ok (Suc n, True)) n L = Ok (n + length L, True)"
  by (induction L arbitrary: n) auto

lemma restored_prefix:
  assumes "btm_ok L" "\<forall>k. btm_get L k = M (p @ k)"
  shows "btm_ok (map (\<lambda>(k, x). (p @ k, x)) L)"
    "btm_get (map (\<lambda>(k, x). (p @ k, x)) L) k = (if starts_with k p then M k else None)"
proof -
  show "btm_ok (map (\<lambda>(k, x). (p @ k, x)) L)"
    using assms(1) by (induction L) (auto simp: btm_ok_Cons)
  have get: "btm_get (map (\<lambda>(k, x). (p @ k, x)) L) (p @ r) = btm_get L r" for r
    by (induction L) auto
  show "btm_get (map (\<lambda>(k, x). (p @ k, x)) L) k = (if starts_with k p then M k else None)"
  proof (cases "starts_with k p")
    case True
    then obtain r where "k = p @ r" by (auto simp: starts_with_iff_append)
    with get assms(2) show ?thesis by simp
  next
    case False
    then show ?thesis by (auto simp: map_of_eq_None_iff)
  qed
qed

lemma mapped_entries:
  "btm_ok m \<Longrightarrow> btm_ok (map (\<lambda>(k, x). (k, f x)) m) \<and> btm_get (map (\<lambda>(k, x). (k, f x)) m) k = map_option f (btm_get m k)"
  by (induction m) (auto simp: btm_ok_Cons)

lemma mv_iterations_current:
  assumes "mv_ok v" "btm_ok db" "decodable sd db (mv_base_key v)"
  shows "\<exists>L. btm_ok L \<and> (\<forall>k. btm_get L k = (if starts_with k p then current_map sd db v k else None)) \<and>
    mv_key_values_by_prefix sd db v p = Ok L \<and> mv_keys_by_prefix db v p = Ok (map fst L) \<and>
    (p = [] \<longrightarrow> mv_keys db v = Ok (map fst L) \<and> mv_count db v = Ok (length L))"
proof -
  let ?E = "mv_entries db v p"
  note E = mv_entries_correct [OF assms(1,2), of p]
  let ?dec = "case_sum Some (sd_from_bytes sd)"
  let ?V = "map (\<lambda>(k, e). (k, the (?dec e))) ?E"
  let ?L = "map (\<lambda>(k, x). (p @ k, x)) ?V"
  have dec: "\<exists>x. ?dec e = Some x" if "(k, e) \<in> set ?E" for k e
  proof -
    have "btm_get ?E k = Some e" using that btm_get_iff_mem [OF E(1)] by simp
    then show ?thesis using decodable_entry [OF assms(3)] E(2) by simp
  qed
  have V: "btm_ok ?V" using mapped_entries [OF E(1), of "\<lambda>e. the (?dec e)"] by simp
  have get: "btm_get ?V k = current_map sd db v (p @ k)" for k
    using mapped_entries [OF E(1), of "\<lambda>e. the (?dec e)" k] E(2) decodable_entry [OF assms(3), of "p @ k"]
    by (cases "mv_entry db v (p @ k)") (auto simp: current_map_def)
  have step: "either (\<lambda>s k x. f s k (Value x)) (\<lambda>s k bs. f s k (Bytes bs)) = (\<lambda>s k e. f s k (case_sum Value Bytes e))" for f :: "(bytes \<times> 'a) list \<Rightarrow> _"
    by (auto simp: fun_eq_iff split: sum.splits)
  have "mv_key_values_by_prefix sd db v p = Ok ?L"
    unfolding mv_key_values_by_prefix_def for_each_key_value_while_def for_each_key_value_or_bytes_while_def iterate_visits step
    by (subst visit_collects [where g = "\<lambda>k e. (p @ k, the (?dec e))"])
      (auto simp: to_value_def split: sum.splits dest!: dec)
  moreover have "mv_keys_by_prefix db v p = Ok (map fst ?L)"
    unfolding mv_keys_by_prefix_def for_each_key_while_def iterate_visits
    by (subst visit_collects [where g = "\<lambda>k e. p @ k"]) (auto split: sum.splits simp: comp_def case_prod_beta)
  moreover have "p = [] \<longrightarrow> mv_keys db v = Ok (map fst ?L)"
    unfolding mv_keys_def for_each_key_while_def iterate_visits
    by (subst visit_collects [where g = "\<lambda>k e. k"]) (auto split: sum.splits simp: comp_def case_prod_beta)
  moreover have "p = [] \<longrightarrow> mv_count db v = Ok (length ?L)"
    unfolding mv_count_def for_each_key_while_def iterate_visits by (auto simp: visit_counts sum.case_eq_if)
  ultimately show ?thesis using restored_prefix [OF V, of "current_map sd db v" p] get by (intro exI [of _ ?L]) simp
qed

section \<open>Refinement\<close>

datatype 'v map_action =
    MapInsert bytes 'v
  | MapRemove bytes
  | MapRemoveByPrefix bytes
  | MapGetMut bytes "'v \<Rightarrow> 'v"
  | MapGetMutOrDefault bytes 'v "'v \<Rightarrow> 'v"
  | MapClear
  | MapRollback
  | MapSave
  | MapReload

text \<open>A save flushes the view into a batch and writes the batch.\<close>

fun map_step ::
  "'v serde \<Rightarrow> database \<times> 'v byte_map_view \<Rightarrow> 'v map_action \<Rightarrow> (database \<times> 'v byte_map_view, view_error) result" where
  "map_step sd (db, v) (MapInsert k x) = Ok (db, mv_insert v k x)"
| "map_step sd (db, v) (MapRemove k) = Ok (db, mv_remove v k)"
| "map_step sd (db, v) (MapRemoveByPrefix p) = Ok (db, mv_remove_by_prefix v p)"
| "map_step sd (db, v) (MapGetMut k f) = and_then (mv_get_mut sd db v k f) (\<lambda>(v, _). Ok (db, v))"
| "map_step sd (db, v) (MapGetMutOrDefault k d f) = and_then (mv_get_mut_or_default d sd db v k f) (\<lambda>(v, _). Ok (db, v))"
| "map_step sd (db, v) MapClear = Ok (db, mv_clear v)"
| "map_step sd (db, v) MapRollback = Ok (db, mv_rollback v)"
| "map_step sd (db, v) MapSave = (case mv_flush sd v of (v, batch, _) \<Rightarrow> Ok (db_write_batch db batch, v))"
| "map_step sd (db, v) MapReload = Ok (db, mv_load (mv_base_key v))"

text \<open>The same steps on the current and the saved map.\<close>

fun map_spec :: "(bytes \<rightharpoonup> 'v) \<times> (bytes \<rightharpoonup> 'v) \<Rightarrow> 'v map_action \<Rightarrow> (bytes \<rightharpoonup> 'v) \<times> (bytes \<rightharpoonup> 'v)" where
  "map_spec (cur, saved) (MapInsert k x) = (cur(k \<mapsto> x), saved)"
| "map_spec (cur, saved) (MapRemove k) = (cur(k := None), saved)"
| "map_spec (cur, saved) (MapRemoveByPrefix p) = ((\<lambda>k. if starts_with k p then None else cur k), saved)"
| "map_spec (cur, saved) (MapGetMut k f) = (cur(k := map_option f (cur k)), saved)"
| "map_spec (cur, saved) (MapGetMutOrDefault k d f) = (cur(k \<mapsto> f (case cur k of None \<Rightarrow> d | Some x \<Rightarrow> x)), saved)"
| "map_spec (cur, saved) MapClear = (Map.empty, saved)"
| "map_spec (cur, saved) MapRollback = (saved, saved)"
| "map_spec (cur, saved) MapSave = (cur, cur)"
| "map_spec (cur, saved) MapReload = (saved, saved)"

definition map_inv :: "'v serde \<Rightarrow> database \<Rightarrow> database \<times> 'v byte_map_view \<Rightarrow> (bytes \<rightharpoonup> 'v) \<times> (bytes \<rightharpoonup> 'v) \<Rightarrow> bool" where
  "map_inv sd db0 s r \<longleftrightarrow> (case (s, r) of ((db, v), (cur, saved)) \<Rightarrow>
    mv_ok v \<and> btm_ok db \<and> decodable sd db (mv_base_key v) \<and>
    current_map sd db v = cur \<and> saved_map sd db (mv_base_key v) = saved \<and>
    (\<forall>k. \<not> starts_with k (mv_base_key v) \<longrightarrow> btm_get db k = btm_get db0 k))"

lemma foldl_remove:
  "btm_ok m \<Longrightarrow> btm_ok (foldl (\<lambda>m k. btm_remove k m) m ks) \<and>
    btm_get (foldl (\<lambda>m k. btm_remove k m) m ks) k = (if k \<in> set ks then None else btm_get m k)"
  by (induction ks arbitrary: m) auto

lemma mv_remove_by_prefix_current:
  assumes "mv_ok v"
  shows "mv_ok (mv_remove_by_prefix v p)"
    "current_map sd db (mv_remove_by_prefix v p) k = (if starts_with k p then None else current_map sd db v k)"
proof -
  let ?us = "foldl (\<lambda>m key. btm_remove key m) (mv_updates v) (filter (\<lambda>k. starts_with k p) (btm_keys (mv_updates v)))"
  have us: "btm_ok ?us" "btm_get ?us k = (if starts_with k p then None else btm_get (mv_updates v) k)" for k
    using assms foldl_remove [of "mv_updates v"] by (auto simp: mv_ok_def map_of_eq_None_iff)
  have ds: "ds_ok (ds_insert_key_prefix (mv_deletion_set v) p)"
    "ds_keys (ds_insert_key_prefix (mv_deletion_set v) p) = ds_keys (mv_deletion_set v) \<union> {k. starts_with k p}"
    using assms deletion_step_correct [of "mv_deletion_set v" "Insert_prefix p"] by (auto simp: mv_ok_def)
  show "mv_ok (mv_remove_by_prefix v p)"
    "current_map sd db (mv_remove_by_prefix v p) k = (if starts_with k p then None else current_map sd db v k)"
    using us ds assms
    by (auto simp: mv_remove_by_prefix_def in_interval_abs mv_ok_def current_map_cases split: option.splits update.splits)
qed

lemma apply_deletions:
  "apply_batch st (map (\<lambda>q. DeletePrefix (base @ q)) qs) key =
    (if \<exists>q \<in> set qs. starts_with key (base @ q) then None else st key)"
  by (induction qs arbitrary: st) auto

lemma apply_unlisted:
  "\<forall>op \<in> set b. \<exists>k bs. op = Put k bs \<and> k \<noteq> key \<or> op = Delete k \<and> k \<noteq> key \<or> op = DeletePrefix k \<and> \<not> starts_with key k \<Longrightarrow>
    apply_batch st b key = st key"
  by (induction b arbitrary: st) fastforce+

lemma apply_updates:
  "btm_ok us \<Longrightarrow> apply_batch st (map (\<lambda>(index, u). case u of
      Removed \<Rightarrow> Delete (base @ index) | Set x \<Rightarrow> Put (base @ index) (enc x)) us) (base @ k) =
    (case btm_get us k of None \<Rightarrow> st (base @ k) | Some Removed \<Rightarrow> None | Some (Set x) \<Rightarrow> Some (enc x))"
proof (induction us arbitrary: st)
  case (Cons e us)
  obtain a u where e: "e = (a, u)" by fastforce
  have us: "btm_ok us" "btm_get us a = None" using Cons.prems btm_get_below [of us a] by (auto simp: e btm_ok_Cons)
  show ?case using Cons.IH [OF us(1)] us(2) by (cases u) (auto simp: e split: option.splits)
qed simp

lemma apply_puts:
  "btm_ok us \<Longrightarrow> apply_batch st (List.map_filter (\<lambda>(index, u). case u of
      Set x \<Rightarrow> Some (Put (base @ index) (enc x)) | Removed \<Rightarrow> None) us) (base @ k) =
    (case btm_get us k of Some (Set x) \<Rightarrow> Some (enc x) | _ \<Rightarrow> st (base @ k))"
proof (induction us arbitrary: st)
  case (Cons e us)
  obtain a u where e: "e = (a, u)" by fastforce
  have us: "btm_ok us" "btm_get us a = None" using Cons.prems btm_get_below [of us a] by (auto simp: e btm_ok_Cons)
  show ?case using Cons.IH [OF us(1)] us(2) by (cases u) (auto simp: e map_filter_simps split: option.splits update.splits)
qed (simp add: map_filter_simps)

lemma mv_flush_correct:
  assumes "mv_ok v" "btm_ok db" "mv_flush sd v = (v', batch, gone)"
  shows "v' = mv_load (mv_base_key v)"
    "btm_get (db_write_batch db batch) (mv_base_key v @ k) = map_option (case_sum (sd_to_bytes sd) id) (mv_entry db v k)"
    "\<not> starts_with key (mv_base_key v) \<Longrightarrow> btm_get (db_write_batch db batch) key = btm_get db key"
proof -
  have ok: "btm_ok (mv_updates v)" and first: "ds_delete_storage_first (mv_deletion_set v) \<Longrightarrow> ds_deleted_prefixes (mv_deletion_set v) = []"
    using assms(1) by (auto simp: mv_ok_def ds_ok_def)
  have batch: "batch = (if ds_delete_storage_first (mv_deletion_set v)
      then DeletePrefix (mv_base_key v) # List.map_filter (\<lambda>(index, u). case u of
        Set x \<Rightarrow> Some (Put (mv_base_key v @ index) (sd_to_bytes sd x)) | Removed \<Rightarrow> None) (mv_updates v)
      else map (\<lambda>index. DeletePrefix (mv_base_key v @ index)) (ds_deleted_prefixes (mv_deletion_set v)) @
        map (\<lambda>(index, u). case u of Removed \<Rightarrow> Delete (mv_base_key v @ index)
          | Set x \<Rightarrow> Put (mv_base_key v @ index) (sd_to_bytes sd x)) (mv_updates v))"
    using assms(3) by (auto simp: mv_flush_def Let_def split: if_splits)
  show "v' = mv_load (mv_base_key v)"
    using assms(3) first by (auto simp: mv_flush_def mv_load_def DeletionSet_new_def Let_def split: if_splits)
  show "btm_get (db_write_batch db batch) (mv_base_key v @ k) = map_option (case_sum (sd_to_bytes sd) id) (mv_entry db v k)"
    unfolding batch conjunct2 [OF db_write_batch_store [OF assms(2)]]
    by (simp add: apply_updates [OF ok] apply_puts [OF ok] apply_deletions mv_entry_def ds_keys_def
        option.map_comp comp_def option.map_ident split: option.splits update.splits)
  show "btm_get (db_write_batch db batch) key = btm_get db key" if "\<not> starts_with key (mv_base_key v)"
  proof -
    have "\<not> starts_with key (mv_base_key v @ q)" "mv_base_key v @ q \<noteq> key" for q
      using that by (auto simp: starts_with_iff_append)
    with that show ?thesis unfolding batch conjunct2 [OF db_write_batch_store [OF assms(2)]]
      by (intro apply_unlisted) (auto simp: map_filter_def split: update.splits)
  qed
qed

lemma mv_load_ok [simp]: "mv_ok (mv_load base)" "mv_base_key (mv_load base) = base"
  "current_map sd db (mv_load base) = saved_map sd db base"
  by (auto simp: mv_ok_def mv_load_def current_map_cases fun_eq_iff)

lemma mv_rollback_load: "mv_rollback v = mv_load (mv_base_key v)"
  by (simp add: mv_rollback_def mv_load_def ds_rollback_def DeletionSet_new_def)

lemma mv_update_current:
  assumes "mv_ok v"
  shows "mv_ok (mv_insert v k x)" "current_map sd db (mv_insert v k x) = (current_map sd db v)(k \<mapsto> x)"
    "mv_ok (mv_remove v k)" "current_map sd db (mv_remove v k) = (current_map sd db v)(k := None)"
    "mv_ok (mv_clear v)" "current_map sd db (mv_clear v) = Map.empty"
  using assms deletion_step_correct [of "mv_deletion_set v" Clear]
  by (auto simp: mv_insert_def mv_remove_def mv_clear_def mv_ok_def current_map_cases fun_eq_iff ds_contains_iff
      cong: option.case_cong)

lemma mv_base_key_simps [simp]:
  "mv_base_key (mv_insert v k x) = mv_base_key v" "mv_base_key (mv_remove v k) = mv_base_key v"
  "mv_base_key (mv_clear v) = mv_base_key v" "mv_base_key (mv_remove_by_prefix v p) = mv_base_key v"
  by (simp_all add: mv_insert_def mv_remove_def mv_clear_def mv_remove_by_prefix_def)

lemma mv_get_mut_current:
  assumes "mv_ok v" "decodable sd db (mv_base_key v)"
  shows "mv_get_mut sd db v k f = Ok (case current_map sd db v k of None \<Rightarrow> (v, None) | Some x \<Rightarrow> (mv_insert v k (f x), Some x))"
    "mv_get_mut_or_default d sd db v k f =
      (let x = case current_map sd db v k of None \<Rightarrow> d | Some x \<Rightarrow> x in Ok (mv_insert v k (f x), x))"
  using assms
  by (auto simp: mv_get_mut_def mv_get_mut_or_default_def mv_ok_def ds_contains_iff read_value_saved current_map_cases
      split: option.splits update.splits)

lemma mv_save_current:
  assumes "roundtrips sd" "mv_ok v" "btm_ok db" "decodable sd db (mv_base_key v)" "mv_flush sd v = (v', batch, gone)"
  shows "saved_map sd (db_write_batch db batch) (mv_base_key v) = current_map sd db v"
    "decodable sd (db_write_batch db batch) (mv_base_key v)"
proof -
  note flush = mv_flush_correct [OF assms(2,3,5)]
  have dec: "sd_from_bytes sd (case_sum (sd_to_bytes sd) id e) = case_sum Some (sd_from_bytes sd) e" for e
    using assms(1) by (cases e) (auto simp: roundtrips_def)
  show "saved_map sd (db_write_batch db batch) (mv_base_key v) = current_map sd db v"
    by (auto simp: fun_eq_iff saved_map_def flush(2) current_map_def dec split: bind_splits)
  have "sd_from_bytes sd bs \<noteq> None" if "(k, bs) \<in> set (db_write_batch db batch)" "starts_with k (mv_base_key v)" for k bs
  proof -
    from that(2) obtain r where r: "k = mv_base_key v @ r" by (auto simp: starts_with_iff_append)
    have "btm_ok (db_write_batch db batch)" using db_write_batch_store [OF assms(3)] by blast
    from btm_get_iff_mem [OF this, of k bs] that(1) flush(2) [of r]
    have "map_option (case_sum (sd_to_bytes sd) id) (mv_entry db v r) = Some bs" by (simp add: r)
    then obtain e where "mv_entry db v r = Some e" "bs = case_sum (sd_to_bytes sd) id e" by blast
    then show ?thesis using decodable_entry [OF assms(4), of r e] dec [of e] by auto
  qed
  then show "decodable sd (db_write_batch db batch) (mv_base_key v)" by (auto simp: decodable_def)
qed

lemma map_step_inv:
  assumes "roundtrips sd" "map_inv sd db0 s r"
  shows "\<exists>s'. map_step sd s act = Ok s' \<and> map_inv sd db0 s' (map_spec r act) \<and> mv_base_key (snd s') = mv_base_key (snd s)"
proof -
  obtain db v cur saved where s: "s = (db, v)" "r = (cur, saved)" by fastforce
  have v: "mv_ok v" "btm_ok db" "decodable sd db (mv_base_key v)" "cur = current_map sd db v" "saved = saved_map sd db (mv_base_key v)"
    "\<forall>k. \<not> starts_with k (mv_base_key v) \<longrightarrow> btm_get db k = btm_get db0 k"
    using assms(2) by (auto simp: s map_inv_def)
  note simps = s v mv_update_current [OF v(1)] mv_remove_by_prefix_current [OF v(1)] mv_get_mut_current [OF v(1,3)]
    mv_rollback_load map_inv_def fun_eq_iff
  show ?thesis
  proof (cases act)
    case MapSave
    obtain v' batch gone where flush: "mv_flush sd v = (v', batch, gone)" by (cases "mv_flush sd v")
    show ?thesis
      using mv_save_current [OF assms(1) v(1-3) flush] mv_flush_correct(1,3) [OF v(1,2) flush] db_write_batch_store [OF v(2)] v(6)
      by (simp add: MapSave s flush map_inv_def v(4))
  qed (use v(2,3,6) in \<open>auto simp: simps Let_def split: option.splits\<close>)
qed

lemma map_steps_inv:
  assumes "roundtrips sd" "map_inv sd db0 s r"
  shows "\<exists>s'. try_fold (map_step sd) s acts = Ok s' \<and> map_inv sd db0 s' (foldl map_spec r acts) \<and> mv_base_key (snd s') = mv_base_key (snd s)"
  using assms(2)
proof (induction acts arbitrary: s r)
  case (Cons act acts)
  from map_step_inv [OF assms(1) Cons.prems, of act] obtain s1
    where "map_step sd s act = Ok s1" "map_inv sd db0 s1 (map_spec r act)" "mv_base_key (snd s1) = mv_base_key (snd s)" by blast
  with Cons.IH [of s1 "map_spec r act"] show ?case by simp
qed simp

text \<open>
  \<^bold>\<open>C37\<close>. A map view implements a map over the key-value store. Whatever sequence of inserts,
  removals, removals by prefix, in-place changes, clears, rollbacks, saves and reloads is run on a
  view loaded over a store, no operation fails, every reader (lookup, batched lookup,
  membership, and the ordered listing of the keys and of the entries under a prefix) agrees with the
  map that the same sequence gives, the store holds what was last saved, and no key outside
  the view's base key changes. The hypotheses: the encoding of values round-trips, and what
  the store holds under the base key decodes.
\<close>

theorem map_view_refines_map:
  assumes "roundtrips sd" "btm_ok db" "decodable sd db base"
  shows "\<exists>db' v cur. try_fold (map_step sd) (db, mv_load base) acts = Ok (db', v) \<and>
    foldl map_spec (saved_map sd db base, saved_map sd db base) acts = (cur, saved_map sd db' base) \<and>
    (\<forall>k. mv_get sd db' v k = Ok (cur k)) \<and>
    (\<forall>k. mv_contains_key db' v k \<longleftrightarrow> cur k \<noteq> None) \<and>
    (\<forall>ks. mv_multi_get sd db' v ks = Ok (map cur ks)) \<and>
    (\<forall>p. \<exists>L. btm_ok L \<and> btm_get L = (\<lambda>k. if starts_with k p then cur k else None) \<and>
      mv_key_values_by_prefix sd db' v p = Ok L \<and> mv_keys_by_prefix db' v p = Ok (map fst L)) \<and>
    (\<exists>L. btm_ok L \<and> btm_get L = cur \<and> mv_keys db' v = Ok (map fst L) \<and> mv_count db' v = Ok (length L)) \<and>
    (\<forall>k. \<not> starts_with k base \<longrightarrow> btm_get db' k = btm_get db k)"
proof -
  let ?r = "(saved_map sd db base, saved_map sd db base)"
  have "map_inv sd db (db, mv_load base) ?r" using assms(2,3) by (simp add: map_inv_def)
  from map_steps_inv [OF assms(1) this, of acts] obtain db' v
    where run: "try_fold (map_step sd) (db, mv_load base) acts = Ok (db', v)"
      and inv: "map_inv sd db (db', v) (foldl map_spec ?r acts)" and base: "mv_base_key v = base" by auto
  let ?cur = "current_map sd db' v"
  have v: "mv_ok v" "btm_ok db'" "decodable sd db' (mv_base_key v)" using inv by (auto simp: map_inv_def split: prod.splits)
  have spec: "foldl map_spec ?r acts = (?cur, saved_map sd db' base)" "\<forall>k. \<not> starts_with k base \<longrightarrow> btm_get db' k = btm_get db k"
    using inv base by (auto simp: map_inv_def split: prod.splits)
  have list: "\<exists>L. btm_ok L \<and> btm_get L = (\<lambda>k. if starts_with k p then ?cur k else None) \<and>
      mv_key_values_by_prefix sd db' v p = Ok L \<and> mv_keys_by_prefix db' v p = Ok (map fst L)" for p
    using mv_iterations_current [OF v, of p] by (auto simp: fun_eq_iff)
  have all: "\<exists>L. btm_ok L \<and> btm_get L = ?cur \<and> mv_keys db' v = Ok (map fst L) \<and> mv_count db' v = Ok (length L)"
    using mv_iterations_current [OF v, of "[]"] by (auto simp: fun_eq_iff)
  have "mv_multi_get sd db' v ks = Ok (map ?cur ks)" for ks
    using multi_get_scan_current [OF v(1,3), of "[]" ks] by (simp add: mv_multi_get_def case_prod_beta)
  with run spec list all mv_get_current [OF v(1,3)] mv_contains_key_current [OF v(1,3)] show ?thesis by blast
qed

text \<open>A view of one-byte values, on a store with two keys under the base key and one beside it.\<close>

definition demo_serde :: "u8 serde" where
  "demo_serde = \<lparr> sd_to_bytes = (\<lambda>x. [x]), sd_from_bytes = (\<lambda>bs. case bs of [x] \<Rightarrow> Some x | _ \<Rightarrow> None) \<rparr>"

definition demo_database :: database where
  "demo_database = [([1, 2], [7]), ([1, 3, 4], [8]), ([2], [])]"

theorem map_view_refines_map_witness:
  "\<exists>db' v. try_fold (map_step demo_serde) (demo_database, mv_load [1])
      [MapInsert [5] 9, MapRemoveByPrefix [3], MapSave, MapRemove [2]] = Ok (db', v) \<and>
    mv_get demo_serde db' v [5] = Ok (Some 9) \<and> mv_get demo_serde db' v [2] = Ok None \<and>
    mv_contains_key db' v [3, 4] = False \<and> btm_get db' [2] = Some []"
proof -
  have ok: "roundtrips demo_serde" "btm_ok demo_database" "decodable demo_serde demo_database [1]"
    by (simp_all add: roundtrips_def demo_serde_def btm_ok_def demo_database_def decodable_def starts_with_def)
  let ?acts = "[MapInsert [5] 9, MapRemoveByPrefix [3], MapSave, MapRemove [2]]"
  from map_view_refines_map [OF ok, of ?acts] obtain db' v cur
    where run: "try_fold (map_step demo_serde) (demo_database, mv_load [1]) ?acts = Ok (db', v)"
      and cur: "foldl map_spec (saved_map demo_serde demo_database [1], saved_map demo_serde demo_database [1]) ?acts
        = (cur, saved_map demo_serde db' [1])"
      and get: "\<forall>k. mv_get demo_serde db' v k = Ok (cur k)" "\<forall>k. mv_contains_key db' v k \<longleftrightarrow> cur k \<noteq> None"
      and frame: "\<forall>k. \<not> starts_with k [1] \<longrightarrow> btm_get db' k = btm_get demo_database k"
    by (elim exE conjE) (rule that)
  have "cur [5] = Some 9" "cur [2] = None" "cur [3, 4] = None"
    using arg_cong [OF cur, of "\<lambda>r. fst r [5]"] arg_cong [OF cur, of "\<lambda>r. fst r [2]"] arg_cong [OF cur, of "\<lambda>r. fst r [3, 4]"]
    by (simp_all add: starts_with_def)
  moreover have "btm_get db' [2] = Some []" using frame by (simp add: starts_with_def demo_database_def)
  ultimately show ?thesis using run get by (intro exI [of _ db'] exI [of _ v]) simp
qed

end
