(* ===== verification/Spec2Isabelle.thy ===== *)
theory Spec2Isabelle
  imports Amount_Text Ownership Resources Delivery Dependencies Map_View
begin

text \<open>
  A verification development for the Linera protocol: how validators execute, vote on and confirm the
  blocks of a chain, how chains exchange messages, and how their state is kept in storage. The sources are
  the Rust crates \<open>linera-base\<close>, \<open>linera-views\<close>, \<open>linera-execution\<close>, \<open>linera-chain\<close> and \<open>linera-core\<close> under
  \<open>src/\<close>.

  \<^bold>\<open>The program.\<close> Every chain is replicated by the validators of a committee. A client proposes a block in a
  round; the worker of the chain executes it, and the chain manager decides whether to vote. A quorum of
  votes makes a certificate: first that the block is validated, then that it is confirmed (a single phase
  in the fast round). A confirmed block is applied to the state of the chain and its messages go
  to the outboxes, from where the workers of the recipients take them to their inboxes, and
  acknowledge them. Executing a block runs system operations and user applications under a
  resource policy; answers of oracles are recorded in the block. All state is held in views over a
  key-value store.

  \<^bold>\<open>The theories\<close>, from the bottom up, with the file each models.

  \<^item> \<open>Prelude\<close>: \<open>Result\<close> and its \<open>?\<close> operator (\<open>and_then\<close>), loops that may fail (\<open>try_fold\<close>), fixed-width
    integers as words with checked and saturating arithmetic, \<open>BTreeMap\<close> and \<open>BTreeSet\<close> as sorted lists.
    The laws of an ordered map are the locale \<open>ordered_map\<close>.
  \<^item> \<open>Base_Types\<close>, \<open>Amount_Text\<close> (\<open>linera-base/src/data_types.rs\<close>): amounts, heights, times, rounds; printing and
    parsing of amounts are inverse. \<open>Identifiers\<close> (\<open>identifiers.rs\<close>) has the identifiers and their
    orders, \<open>Ownership\<close> (\<open>ownership.rs\<close>) the owners of a chain and its sequence of rounds.
  \<^item> \<open>Operations\<close>, \<open>Policy\<close>, \<open>Resources\<close> (\<open>linera-execution/src/lib.rs\<close>, \<open>policy.rs\<close>, \<open>resources.rs\<close>): the
    vocabulary of operations, messages and errors; prices; the controller that charges the
    accounts. The locale \<open>balance_account\<close> is what it needs of an account, and is interpreted
    for a single amount and for several sources.
  \<^item> \<open>Committee\<close> (\<open>committee.rs\<close>): weights, thresholds and serialised forms. The locale \<open>quorum_system\<close> holds the
    counting arguments.
  \<^item> \<open>Tracker\<close>, \<open>System\<close>, \<open>Balances\<close>, \<open>Lifecycle\<close>, \<open>Dependencies\<close> (\<open>transaction_tracker.rs\<close>, \<open>system.rs\<close>): the outcome
    of a transaction and the system application. The lemmas are on who can spend, the replay of
    oracle responses, the handover between committees, the opening of chains, and the order in
    which required applications are loaded. The locale \<open>blob_frame\<close> is what the recording of a used blob keeps.
  \<^item> \<open>Execution\<close> (\<open>execution_state_actor.rs\<close>, \<open>linera-chain/src/block_tracker.rs\<close>): operations, messages, event
    streams and the tracker of a block; every step can be replayed.
  \<^item> \<open>Blocks\<close>, \<open>Certificates\<close> (\<open>linera-chain/src/block.rs\<close>, \<open>data_types/mod.rs\<close>, \<open>certificate/\<close>): blocks, proposals,
    votes, certificates and the aggregation of signatures.
  \<^item> \<open>Manager\<close> (\<open>manager.rs\<close>): the state of the certification of the next block, one definition for each
    method: the checks, the votes, the timeouts and the leaders.
  \<^item> \<open>Views\<close>, \<open>Buckets\<close> (\<open>linera-views/src/views/queue_view.rs\<close>, \<open>bucket_queue_view.rs\<close>): queues over stored keys,
    both instances of the locale \<open>fifo_queue\<close>. \<open>Prefixes\<close>, \<open>Batches\<close>, \<open>Map_View\<close> (\<open>common.rs\<close>, \<open>batch.rs\<close>,
    \<open>backends/memory.rs\<close>, \<open>views/map_view.rs\<close>): deleted prefixes, batches, the store in memory, map views.
  \<^item> \<open>Inbox\<close>, \<open>Outbox\<close> (\<open>linera-chain/src/inbox.rs\<close>, \<open>outbox.rs\<close>, \<open>pending_blobs.rs\<close>): the mailboxes of a chain for
    one peer, on these queues.
  \<^item> \<open>Chain\<close>, \<open>Chain_Invariants\<close> (\<open>chain.rs\<close>): the state of a chain, the execution and application of
    blocks, inboxes, outboxes and their counters, and what every history of these operations keeps.
  \<^item> \<open>Worker\<close> (\<open>linera-core/src/chain_worker/state.rs\<close>, \<open>delivery_notifier.rs\<close>): one definition for each handler of
    the worker of a chain. A handler maps a worker and a request to the worker it leaves
    behind and a result; what the code had not saved when an error occurs is not in that worker.
  \<^item> \<open>Consensus\<close>, \<open>Determinism\<close>, \<open>Agreement\<close>: no new code, but the proof of agreement. \<open>Consensus\<close> is an abstract
    voting protocol of the managers of a committee, over any execution of blocks that satisfies the
    locale \<open>block_execution\<close>, with rule induction on its steps. \<open>Determinism\<close> shows that the execution of
    \<open>Chain\<close> is an instance. \<open>Agreement\<close> shows that the handlers of \<open>Worker\<close> simulate the protocol.
  \<^item> \<open>Delivery\<close>: what the handlers of \<open>Worker\<close> do to the mailboxes, as an invariant over all histories of a worker.

  \<^bold>\<open>What is shown.\<close> The properties carry their number in the text before them.

  \<^item> Consensus: two certificates never confirm different blocks at a height (\<open>Agreement\<close>). It rests on the exact
    meaning of the check of signatures and of the thresholds, on the progress of votes in the manager, and
    on the determinism of executions without oracles. The aggregator returns valid certificates,
    and does return one when a quorum has voted. The current round is the maximum of the rounds known.
  \<^item> Execution: a recorded block replays to the same outcome; charges are exact; only an owner spends an account;
    the dependencies of an application are found in topological order.
  \<^item> Messages: bundles hold all messages; an inbox loses and invents no bundle; an outbox delivers every height
    once; the counters of a chain say exactly what is undelivered. Whatever a worker has handled, it can request
    the delivery of all that is pending, and an acknowledgement reports exactly the deliveries it completes.
  \<^item> Storage: queues, bucket queues, map views and deletion sets refine lists, maps and sets, across saves and
    reloads; the operations of a simplified batch can be executed in any order.
  \<^item> Faults: the properties on \<open>front_mut\<close>, the balance in the error for missing funds, the overflow of
    the quorum, the locking block of a retried fast proposal, the lookup of the next height to preprocess, and
    the notification of deliveries show code that does not do what its comments say.

  \<^bold>\<open>Fuel and termination.\<close> Most loops are structural recursions; the merge of a map view, and the walk
  over preprocessed blocks have termination proofs. Three loops take fuel. The search of \<open>find_dependencies\<close> and
  the recursion of \<open>describe_application\<close>: \<open>Dependencies\<close> proves that enough fuel gives the result
  whenever the dependencies are acyclic. The loop that removes consumed unskippable bundles deletes one
  entry a round and gets the length of the queue, which \<open>clean_unskippable_total\<close> shows to be enough. The loop of \<open>process_subscriptions\<close> runs as long as user
  code causes new stream updates, so \<open>en_rounds\<close>, like \<open>en_depth\<close>, is a parameter of the executor, and no bound on it
  is assumed: the theorems about executions hold for every value.

  \<^bold>\<open>Parameters.\<close> Hash functions (\<open>hashes\<close>), signatures (\<open>crypto\<close>), BCS encodings and sizes (\<open>codec\<close>,
  \<open>block_sizes\<close>), the weighted sampling of leaders (\<open>sampler\<close>), what is read from storage (\<open>exec_ctx\<close>,
  \<open>storage\<close>), the clock, and the run of a user application between the start of its
  runtime and its end (\<open>en_run\<close>) are arguments of the definitions. What a theorem needs of them is among
  its premises, and its witness instantiates them.

  \<^bold>\<open>Not modelled.\<close> The Wasm and EVM runtimes and the requests they send to the execution state (external
  machines); the actors, channels and caches around the chain worker, the client, the network and the
  services (input, output and concurrency); the database backends other than the one in memory; the hashing
  of views, metrics, GraphQL and logging; the views that the modelled code does not use; the SDK, macros and bindings.
\<close>

end
